(* ===== verification/Rust_Prelude.thy ===== *)
theory Rust_Prelude
  imports Main "HOL-Library.Word" "HOL-Library.AList" "HOL-Library.Multiset"
begin

text \<open>
  What the source uses of Rust itself, shared by every component: machine integers as words,
  the three ways a call can end (a value, an \<open>Err\<close>, a panic), slices and indexing that panic out
  of range, arithmetic that panics on overflow (the checked build profile), loops over ranges,
  big- and little-endian byte strings, and hash maps as association lists with distinct keys
  together with an explicit choice of their unspecified iteration order.
\<close>

unbundle bit_operations_syntax

named_theorems rust_simps
  \<open>unfolding rules of the Rust primitives, for case analysis of an operation\<close>

type_synonym u8 = "8 word"
type_synonym u16 = "16 word"
type_synonym u32 = "32 word"
type_synonym u64 = "64 word"
type_synonym u128 = "128 word"

text \<open>\<open>usize\<close> values (lengths and positions in memory) are natural numbers.\<close>

section \<open>Outcomes\<close>

text \<open>
  \<open>Ok\<close> and \<open>Err\<close> are the constructors of \<open>core::result::Result\<close>; \<open>Panic\<close> is a call that never
  returns because an index or an arithmetic operation was out of range.
\<close>

datatype ('e, 'a) outcome = Ok 'a | Err 'e | Panic

fun obind :: "('e, 'a) outcome \<Rightarrow> ('a \<Rightarrow> ('e, 'b) outcome) \<Rightarrow> ('e, 'b) outcome" where
  "obind (Ok x) f = f x"
| "obind (Err e) f = Err e"
| "obind Panic f = Panic"

text \<open>The conversion of the error that the \<open>?\<close> operator and \<open>map_err\<close> apply.\<close>

fun map_err :: "('e \<Rightarrow> 'f) \<Rightarrow> ('e, 'a) outcome \<Rightarrow> ('f, 'a) outcome" where
  "map_err f (Ok x) = Ok x"
| "map_err f (Err e) = Err (f e)"
| "map_err f Panic = Panic"

fun is_Ok :: "('e, 'a) outcome \<Rightarrow> bool" where
  "is_Ok (Ok x) = True"
| "is_Ok _ = False"

lemma obind_eq_Ok [rust_simps]: "(obind m f = Ok y) \<longleftrightarrow> (\<exists>x. m = Ok x \<and> f x = Ok y)"
  by (cases m) auto

lemma obind_eq_Err: "(obind m f = Err e) \<longleftrightarrow> m = Err e \<or> (\<exists>x. m = Ok x \<and> f x = Err e)"
  by (cases m) auto

lemma obind_eq_Panic: "(obind m f = Panic) \<longleftrightarrow> m = Panic \<or> (\<exists>x. m = Ok x \<and> f x = Panic)"
  by (cases m) auto

lemma obind_assoc: "obind (obind m f) g = obind m (\<lambda>x. obind (f x) g)"
  by (cases m) auto

lemma obind_Ok_right [simp]: "obind m Ok = m"
  by (cases m) auto

lemma is_Ok_iff: "is_Ok m \<longleftrightarrow> (\<exists>x. m = Ok x)"
  by (cases m) auto

text \<open>A \<open>for\<close> loop over the elements of an iterator, whose body may fail.\<close>

primrec ofold :: "('x \<Rightarrow> 's \<Rightarrow> ('e, 's) outcome) \<Rightarrow> 'x list \<Rightarrow> 's \<Rightarrow> ('e, 's) outcome" where
  "ofold body [] s = Ok s"
| "ofold body (x # xs) s = obind (body x s) (ofold body xs)"

lemma ofold_Nil_eq [simp]: "ofold body [] = Ok"
  by (simp add: fun_eq_iff)

lemma ofold_append: "ofold body (xs @ ys) s = obind (ofold body xs s) (ofold body ys)"
proof (induction xs arbitrary: s)
  case (Cons x xs)
  then have "ofold body (xs @ ys) = (\<lambda>s. obind (ofold body xs s) (ofold body ys))"
    by (intro ext)
  then show ?case by (simp add: obind_assoc)
qed simp

lemma ofold_snoc: "ofold body (xs @ [x]) s = obind (ofold body xs s) (body x)"
proof -
  have "ofold body [x] = body x" by (intro ext) simp
  then show ?thesis by (simp only: ofold_append)
qed

lemma ofold_cong:
  assumes "\<And>x s. x \<in> set xs \<Longrightarrow> f x s = g x s"
  shows "ofold f xs s = ofold g xs s"
  using assms
proof (induction xs arbitrary: s)
  case (Cons x xs)
  have "ofold f xs = ofold g xs"
    using Cons by (intro ext) auto
  then show ?case using Cons.prems by simp
qed simp

section \<open>Slices\<close>

definition slice_index :: "'a list \<Rightarrow> nat \<Rightarrow> ('e, 'a) outcome" where
  "slice_index xs i = (if i < length xs then Ok (xs ! i) else Panic)"

definition slice_range :: "'a list \<Rightarrow> nat \<Rightarrow> nat \<Rightarrow> ('e, 'a list) outcome" where
  "slice_range xs a b = (if a \<le> b \<and> b \<le> length xs then Ok (take (b - a) (drop a xs)) else Panic)"

lemma slice_index_Ok [simp]: "i < length xs \<Longrightarrow> slice_index xs i = Ok (xs ! i)"
  by (simp add: slice_index_def)

lemma slice_range_Ok [simp]:
  "a \<le> b \<Longrightarrow> b \<le> length xs \<Longrightarrow> slice_range xs a b = Ok (take (b - a) (drop a xs))"
  by (simp add: slice_range_def)

lemma take_2_drop: "i + 2 \<le> length xs \<Longrightarrow> take 2 (drop i xs) = [xs ! i, xs ! (i + 1)]"
  by (simp add: list_eq_iff_nth_eq nth_Cons numeral_2_eq_2 split: nat.split)

lemma take_4_drop:
  "i + 4 \<le> length xs \<Longrightarrow> take 4 (drop i xs) = [xs ! i, xs ! (i + 1), xs ! (i + 2), xs ! (i + 3)]"
  using take_2_drop [of i xs] take_2_drop [of "i + 2" xs] take_add [of 2 2 "drop i xs"]
  by (simp add: numeral_eq_Suc)

section \<open>Checked arithmetic\<close>

text \<open>
  Integer \<open>+\<close>, \<open>-\<close> and \<open>*\<close> of a build with overflow checks: the result, or a panic. A theorem
  that such a call does not panic says as well that the unchecked build, which wraps, returns
  the same value.
\<close>

definition checked_add :: "'a::len word \<Rightarrow> 'a word \<Rightarrow> ('e, 'a word) outcome" where
  "checked_add a b = (if unat a + unat b < 2 ^ LENGTH('a) then Ok (a + b) else Panic)"

definition checked_sub :: "'a::len word \<Rightarrow> 'a word \<Rightarrow> ('e, 'a word) outcome" where
  "checked_sub a b = (if unat b \<le> unat a then Ok (a - b) else Panic)"

definition checked_mul :: "'a::len word \<Rightarrow> 'a word \<Rightarrow> ('e, 'a word) outcome" where
  "checked_mul a b = (if unat a * unat b < 2 ^ LENGTH('a) then Ok (a * b) else Panic)"

lemma unat_plus_no_overflow:
  fixes a b :: "'a::len word"
  shows "unat a + unat b < 2 ^ LENGTH('a) \<Longrightarrow> unat (a + b) = unat a + unat b"
  by (simp add: unat_word_ariths)

lemma unat_word_of_nat: "n < 2 ^ LENGTH('a) \<Longrightarrow> unat (word_of_nat n :: 'a::len word) = n"
  by (simp add: unat_of_nat)

lemma checked_add_OkD:
  fixes a b c :: "'a::len word"
  shows "checked_add a b = Ok c \<Longrightarrow> unat c = unat a + unat b"
  by (auto simp: checked_add_def unat_plus_no_overflow split: if_splits)

lemma checked_add_Ok_iff:
  fixes a b c :: "'a::len word"
  shows "checked_add a b = Ok c \<longleftrightarrow> unat c = unat a + unat b"
proof
  assume h: "unat c = unat a + unat b"
  have "unat c < 2 ^ LENGTH('a)" by (rule unsigned_less)
  with h have "checked_add a b = Ok (a + b)" "a + b = c"
    by (simp_all add: checked_add_def unat_plus_no_overflow word_unat_eq_iff)
  then show "checked_add a b = Ok c" by simp
qed (rule checked_add_OkD)

lemma checked_add_not_Err [simp]: "checked_add a b \<noteq> Err e"
  by (simp add: checked_add_def)

lemma checked_sub_OkD:
  "checked_sub a b = Ok c \<Longrightarrow> unat c = unat a - unat b"
  by (auto simp: checked_sub_def unat_sub_if' split: if_splits)

section \<open>Words as byte strings\<close>

text \<open>The value of a byte string, least or most significant byte first.\<close>

fun le_nat :: "u8 list \<Rightarrow> nat" where
  "le_nat [] = 0"
| "le_nat (b # bs) = unat b + 256 * le_nat bs"

definition be_nat :: "u8 list \<Rightarrow> nat" where
  "be_nat bs = le_nat (rev bs)"

text \<open>The \<open>n\<close> low bytes of a word: \<open>to_le_bytes\<close> and \<open>to_be_bytes\<close> of the integer types.\<close>

primrec to_le_bytes :: "nat \<Rightarrow> 'a::len word \<Rightarrow> u8 list" where
  "to_le_bytes 0 w = []"
| "to_le_bytes (Suc n) w = ucast w # to_le_bytes n (drop_bit 8 w)"

definition to_be_bytes :: "nat \<Rightarrow> 'a::len word \<Rightarrow> u8 list" where
  "to_be_bytes n w = rev (to_le_bytes n w)"

definition from_le_bytes :: "u8 list \<Rightarrow> 'a::len word" where
  "from_le_bytes bs = word_of_nat (le_nat bs)"

definition from_be_bytes :: "u8 list \<Rightarrow> 'a::len word" where
  "from_be_bytes bs = word_of_nat (be_nat bs)"

lemma unat_less_2p: "unat (w :: 'a::len word) < 2 ^ LENGTH('a)"
  by (rule unsigned_less)

lemma unat_byte_less [simp]: "unat (b :: u8) < 256"
  using unat_less_2p [of b] by simp

lemma length_to_le_bytes [simp]: "length (to_le_bytes n w) = n"
  by (induction n arbitrary: w) auto

lemma length_to_be_bytes [simp]: "length (to_be_bytes n w) = n"
  by (simp add: to_be_bytes_def)

lemma to_be_bytes_neq_Nil [simp]: "0 < n \<Longrightarrow> to_be_bytes n w \<noteq> []"
  by (metis length_to_be_bytes list.size(3) less_irrefl)

lemma le_nat_less: "le_nat bs < 256 ^ length bs"
proof (induction bs)
  case (Cons b bs)
  have "unat b + 256 * le_nat bs < 256 * (le_nat bs + 1)"
    using unat_byte_less [of b] by (simp add: algebra_simps)
  also have "\<dots> \<le> 256 * 256 ^ length bs"
    using Cons by (intro mult_le_mono2) simp
  finally show ?case by simp
qed simp

lemma be_nat_less: "be_nat bs < 256 ^ length bs"
  using le_nat_less [of "rev bs"] by (simp add: be_nat_def)

lemma le_nat_append: "le_nat (xs @ ys) = le_nat xs + 256 ^ length xs * le_nat ys"
  by (induction xs) (auto simp: algebra_simps)

lemma be_nat_Nil [simp]: "be_nat [] = 0"
  by (simp add: be_nat_def)

lemma be_nat_Cons: "be_nat (b # bs) = unat b * 256 ^ length bs + be_nat bs"
  by (simp add: be_nat_def le_nat_append)

lemma be_nat_append: "be_nat (xs @ ys) = be_nat xs * 256 ^ length ys + be_nat ys"
  by (simp add: be_nat_def le_nat_append)

lemma unat_drop_bit: "unat (drop_bit n (w :: 'a::len word)) = unat w div 2 ^ n"
  by (subst unat_drop_bit_eq) (rule drop_bit_eq_div)

lemma unat_ucast_byte: "unat (ucast (w :: 'a::len word) :: u8) = unat w mod 256"
  by (simp add: unsigned_ucast_eq take_bit_eq_mod)

lemma le_nat_to_le_bytes: "le_nat (to_le_bytes n w) = unat w mod 256 ^ n"
proof (induction n arbitrary: w)
  case (Suc n)
  have "unat w mod 256 + 256 * (unat w div 256 mod 256 ^ n) = unat w mod (256 * 256 ^ n)"
    by (simp add: mod_mult2_eq)
  then show ?case
    by (simp add: Suc unat_ucast_byte unat_drop_bit)
qed simp

lemma be_nat_to_be_bytes: "be_nat (to_be_bytes n w) = unat w mod 256 ^ n"
  by (simp add: be_nat_def to_be_bytes_def le_nat_to_le_bytes)

lemma from_be_to_be_bytes:
  fixes w :: "'a::len word"
  assumes "LENGTH('a) \<le> 8 * n"
  shows "from_be_bytes (to_be_bytes n w) = w"
proof -
  have "unat w < 2 ^ LENGTH('a)" by (rule unsigned_less)
  also have "\<dots> \<le> 2 ^ (8 * n)" using assms by (rule power_increasing) simp
  finally have "unat w mod 256 ^ n = unat w" by (simp add: power_mult)
  then show ?thesis by (simp add: from_be_bytes_def be_nat_to_be_bytes)
qed

lemmas from_be_to_be_bytes_widths [simp] =
  from_be_to_be_bytes [where 'a = 8 and n = 1, simplified]
  from_be_to_be_bytes [where 'a = 16 and n = 2, simplified]
  from_be_to_be_bytes [where 'a = 32 and n = 4, simplified]
  from_be_to_be_bytes [where 'a = 64 and n = 8, simplified]

text \<open>A byte string is determined by its length and its value.\<close>

lemma le_nat_inject: "length xs = length ys \<Longrightarrow> le_nat xs = le_nat ys \<Longrightarrow> xs = ys"
proof (induction xs ys rule: list_induct2)
  case (Cons x xs y ys)
  have "(unat x + 256 * le_nat xs) mod 256 = (unat y + 256 * le_nat ys) mod 256"
    using Cons.prems by simp
  then have "unat x = unat y" by simp
  with Cons show ?case by (simp add: word_unat_eq_iff)
qed simp

lemma to_be_from_be_bytes:
  assumes "length bs = n" and "8 * n = LENGTH('a)"
  shows "to_be_bytes n (from_be_bytes bs :: 'a::len word) = bs"
proof -
  have "be_nat bs < 2 ^ LENGTH('a)"
    using be_nat_less [of bs] assms by (simp add: power_mult flip: assms(2))
  then have "unat (from_be_bytes bs :: 'a word) = be_nat bs"
    by (simp add: from_be_bytes_def unat_of_nat)
  then have "le_nat (rev (to_be_bytes n (from_be_bytes bs :: 'a word))) = le_nat (rev bs)"
    using be_nat_to_be_bytes [of n "from_be_bytes bs :: 'a word"] be_nat_less [of bs] assms(1)
    by (simp add: be_nat_def)
  then have "rev (to_be_bytes n (from_be_bytes bs :: 'a word)) = rev bs"
    by (intro le_nat_inject) (simp_all add: assms(1))
  then show ?thesis by simp
qed

lemma unat_from_be_bytes:
  "8 * length bs \<le> LENGTH('a) \<Longrightarrow> unat (from_be_bytes bs :: 'a::len word) = be_nat bs"
proof -
  assume "8 * length bs \<le> LENGTH('a)"
  then have "(2::nat) ^ (8 * length bs) \<le> 2 ^ LENGTH('a)" by (rule power_increasing) simp
  with be_nat_less [of bs] have "be_nat bs < 2 ^ LENGTH('a)" by (simp add: power_mult)
  then show ?thesis by (simp add: from_be_bytes_def unat_of_nat)
qed

lemma to_le_bytes_numeral:
  "to_le_bytes (numeral k) w = ucast w # to_le_bytes (pred_numeral k) (drop_bit 8 w)"
  by (simp add: numeral_eq_Suc)

lemma to_be_bytes_evals:
  "to_be_bytes 2 w = [ucast (drop_bit 8 w), ucast w]"
  "to_be_bytes 4 w = [ucast (drop_bit 24 w), ucast (drop_bit 16 w), ucast (drop_bit 8 w), ucast w]"
  by (simp_all add: to_be_bytes_def to_le_bytes_numeral drop_bit_drop_bit)

section \<open>Bit fields\<close>

lemma unat_take_bit: "unat (take_bit n (w :: 'a::len word)) = unat w mod 2 ^ n"
  by (subst unsigned_take_bit_eq) (rule take_bit_nat_def)

lemma unat_and_mask: "unat (w AND mask n) = unat w mod 2 ^ n"
  by (simp only: take_bit_eq_mask [symmetric] unat_take_bit)

lemma take_bit_eq_self: "unat w < 2 ^ n \<Longrightarrow> take_bit n w = w"
  by (simp only: word_unat_eq_iff unat_take_bit mod_less)

section \<open>Hash maps\<close>

text \<open>
  A \<open>HashMap\<close> is an association list whose keys are distinct; its order is not observable, since
  everything that iterates over one goes through \<open>iter_order\<close>, with the order in which
  this particular iteration visits the entries as an argument.
\<close>

type_synonym ('k, 'v) hash_map = "('k \<times> 'v) list"

abbreviation hm_get :: "('k, 'v) hash_map \<Rightarrow> 'k \<Rightarrow> 'v option" where
  "hm_get m k \<equiv> map_of m k"

abbreviation hm_insert :: "'k \<Rightarrow> 'v \<Rightarrow> ('k, 'v) hash_map \<Rightarrow> ('k, 'v) hash_map" where
  "hm_insert k v m \<equiv> AList.update k v m"

abbreviation hm_remove :: "'k \<Rightarrow> ('k, 'v) hash_map \<Rightarrow> ('k, 'v) hash_map" where
  "hm_remove k m \<equiv> AList.delete k m"

abbreviation hm_wf :: "('k, 'v) hash_map \<Rightarrow> bool" where
  "hm_wf m \<equiv> distinct (map fst m)"

text \<open>Collecting pairs into a map: a later pair replaces an earlier one with the same key.\<close>

definition hm_collect :: "('k \<times> 'v) list \<Rightarrow> ('k, 'v) hash_map" where
  "hm_collect kvs = fold (\<lambda>(k, v) m. hm_insert k v m) kvs []"

lemma hm_get_insert [simp]: "hm_get (hm_insert k v m) = (hm_get m)(k \<mapsto> v)"
  by (rule AList.update_conv')

lemma hm_get_remove [simp]: "hm_get (hm_remove k m) = (hm_get m)(k := None)"
  by (rule AList.delete_conv')

lemma hm_wf_insert [simp]: "hm_wf m \<Longrightarrow> hm_wf (hm_insert k v m)"
  by (rule AList.distinct_update)

lemma hm_wf_remove [simp]: "hm_wf m \<Longrightarrow> hm_wf (hm_remove k m)"
  by (rule AList.distinct_delete)

lemma hm_get_iff: "hm_wf m \<Longrightarrow> hm_get m k = Some v \<longleftrightarrow> (k, v) \<in> set m"
  by (rule map_of_eq_Some_iff)

lemma length_hm_remove: "hm_get m k = Some v \<Longrightarrow> length (hm_remove k m) < length m"
proof (induction m)
  case (Cons kv m)
  show ?case
  proof (cases "k = fst kv")
    case True
    have "length (AList.delete k m) \<le> length m" by (rule AList.length_delete_le)
    with True show ?thesis by (cases kv) simp
  next
    case False
    with Cons show ?thesis by (cases kv) (simp split: if_splits)
  qed
qed simp

lemma hm_insert_fresh: "hm_get m k = None \<Longrightarrow> hm_insert k v m = m @ [(k, v)]"
  by (induction m) (auto split: if_splits)

lemma hm_remove_fresh: "hm_get m k = None \<Longrightarrow> hm_remove k m = m"
  by (simp add: map_of_eq_None_iff)

lemma mset_hm_remove: "hm_wf m \<Longrightarrow> hm_get m k = Some v \<Longrightarrow> add_mset (k, v) (mset (hm_remove k m)) = mset m"
proof (induction m)
  case (Cons kv m)
  obtain k' v' where kv: "kv = (k', v')" by (cases kv)
  show ?case
  proof (cases "k = k'")
    case True
    then have "hm_get m k = None" using Cons.prems(1) by (simp add: kv map_of_eq_None_iff)
    with True Cons.prems(2) show ?thesis by (simp add: kv hm_remove_fresh)
  next
    case False
    with Cons show ?thesis by (simp add: kv)
  qed
qed simp

lemma set_hm_remove: "hm_wf m \<Longrightarrow> set (hm_remove k m) = {kv \<in> set m. fst kv \<noteq> k}"
  by (auto simp: AList.delete_eq)

lemma hm_wf_collect_aux: "hm_wf m \<Longrightarrow> hm_wf (fold (\<lambda>(k, v) m. hm_insert k v m) kvs m)"
  by (induction kvs arbitrary: m) auto

lemma hm_wf_collect [simp]: "hm_wf (hm_collect kvs)"
  by (simp add: hm_collect_def hm_wf_collect_aux)

lemma hm_get_collect_aux: "hm_get (fold (\<lambda>(k, v) m. hm_insert k v m) kvs m) k = (case map_of (rev kvs) k of None \<Rightarrow> hm_get m k | Some v \<Rightarrow> Some v)"
  by (induction kvs arbitrary: m) (auto simp: map_add_def split: option.splits if_splits)

lemma hm_get_collect: "hm_get (hm_collect kvs) k = map_of (rev kvs) k"
  by (simp add: hm_collect_def hm_get_collect_aux split: option.split)

subsection \<open>Iteration order\<close>

text \<open>
  \<open>iter_order f xs\<close> is the permutation of \<open>xs\<close> that the choices \<open>f\<close> make: the entry that
  is put in with \<open>n\<close> others already placed goes to position \<open>f n\<close>. Every choice gives a
  permutation and every permutation comes from a choice, so a theorem for all \<open>f\<close> is a theorem
  for every order in which the standard library may iterate.
\<close>

type_synonym order_choice = "nat \<Rightarrow> nat"

definition insert_at :: "nat \<Rightarrow> 'a \<Rightarrow> 'a list \<Rightarrow> 'a list" where
  "insert_at n x xs = take n xs @ x # drop n xs"

primrec iter_order :: "order_choice \<Rightarrow> 'a list \<Rightarrow> 'a list" where
  "iter_order f [] = []"
| "iter_order f (x # xs) = insert_at (f (length xs) mod Suc (length xs)) x (iter_order f xs)"

lemma mset_insert_at [simp]: "mset (insert_at n x xs) = add_mset x (mset xs)"
proof -
  have "mset (insert_at n x xs) = add_mset x (mset (take n xs @ drop n xs))"
    by (simp only: insert_at_def mset_append mset.simps union_mset_add_mset_right)
  then show ?thesis by simp
qed

lemma mset_iter_order [simp]: "mset (iter_order f xs) = mset xs"
  by (induction xs) auto

lemma set_iter_order [simp]: "set (iter_order f xs) = set xs"
  by (metis mset_iter_order set_mset_mset)

lemma length_iter_order [simp]: "length (iter_order f xs) = length xs"
  by (metis mset_iter_order size_mset)

lemma distinct_iter_order [simp]: "distinct (map fst (iter_order f xs)) = distinct (map fst xs)"
  by (metis mset_iter_order mset_map mset_eq_imp_distinct_iff)

lemma iter_order_cong:
  "(\<And>n. n < length xs \<Longrightarrow> f n = g n) \<Longrightarrow> iter_order f xs = iter_order g xs"
  by (induction xs) auto

lemma iter_order_complete: "mset ys = mset xs \<Longrightarrow> \<exists>f. iter_order f xs = ys"
proof (induction xs arbitrary: ys)
  case (Cons x xs)
  then have "x \<in> set ys" by (metis list.set_intros(1) set_mset_mset)
  then obtain as bs where ys: "ys = as @ x # bs" by (meson split_list)
  with Cons.prems have "mset (as @ bs) = mset xs" by simp
  then obtain f where f: "iter_order f xs = as @ bs" using Cons.IH by blast
  have len: "length as \<le> length xs"
    using f length_iter_order [of f xs] by simp
  let ?g = "f(length xs := length as)"
  have "iter_order ?g xs = as @ bs"
    using iter_order_cong [of xs ?g f] f by simp
  with len ys have "iter_order ?g (x # xs) = ys"
    by (simp add: insert_at_def)
  then show ?case by blast
qed simp

section \<open>Machines\<close>

text \<open>
  The contract of a component with a state: a start and steps that keep an invariant. Its client is
  whoever relies on the invariant in a reachable state.
\<close>

locale machine =
  fixes start :: 's
    and step :: "'s \<Rightarrow> 's \<Rightarrow> bool"
    and inv :: "'s \<Rightarrow> bool"
  assumes inv_start: "inv start"
    and inv_step: "inv s \<Longrightarrow> step s s' \<Longrightarrow> inv s'"
begin

lemma inv_run: "step\<^sup>*\<^sup>* s s' \<Longrightarrow> inv s \<Longrightarrow> inv s'"
  by (induction rule: rtranclp_induct) (auto intro: inv_step)

lemma reachable: "step\<^sup>*\<^sup>* start s \<Longrightarrow> inv s"
  by (erule inv_run) (rule inv_start)

end

end
