(* ===== verification/Protocol_Common.thy ===== *)
theory Protocol_Common
  imports Rust_Prelude
begin

text \<open>
  The crate \<open>rusty-router-proto-common\<close>: the error type of all packet code
  (\<open>src/error.rs\<close>), the macro \<open>from_be_bytes!\<close> and the incremental internet checksum
  \<open>InternetChecksum\<close> (\<open>src/lib.rs\<close>). The checksum code sums eight bytes at a time in the byte
  order of the machine and folds the 128-bit sum at the end; the lemmas relate it to the
  textbook sum of big-endian 16-bit words with end-around carry, for both byte orders.
\<close>

section \<open>Errors\<close>

datatype ProtocolError =
    InvalidMinimumLength string nat nat
  | InvalidHeaderLength string nat nat
  | InvalidLength string nat nat
  | InvalidBitBoundary string nat
  | UnsupportedFieldValue string string nat
  | ConversionError string string nat
  | InvalidChecksum string u16 u16

type_synonym 'a proto_result = "(ProtocolError, 'a) outcome"

text \<open>
  \<open>slice.try_into()\<close> to an array of \<open>n\<close> bytes, with the conversion error that the macro
  \<open>from_be_bytes!\<close> maps it to (the label, file and line of the call), and the macro itself.
\<close>

definition try_into_array :: "nat \<Rightarrow> string \<Rightarrow> string \<Rightarrow> nat \<Rightarrow> u8 list \<Rightarrow> u8 list proto_result" where
  "try_into_array n label file line s =
     (if length s = n then Ok s else Err (ConversionError label file line))"

definition from_be_bytes_macro ::
  "nat \<Rightarrow> string \<Rightarrow> string \<Rightarrow> nat \<Rightarrow> u8 list \<Rightarrow> ('a::len word) proto_result" where
  "from_be_bytes_macro n label file line s =
     obind (try_into_array n label file line s) (\<lambda>b. Ok (from_be_bytes b))"

lemma try_into_array_Ok [simp]: "length s = n \<Longrightarrow> try_into_array n label file line s = Ok s"
  by (simp add: try_into_array_def)

lemma from_be_bytes_macro_Ok [simp]:
  "length s = n \<Longrightarrow> from_be_bytes_macro n label file line s = Ok (from_be_bytes s)"
  by (simp add: from_be_bytes_macro_def)

section \<open>Wire formats\<close>

text \<open>
  The contract between a serializer and its parser: parsing what was written, whatever bytes
  follow it, gives the value back. The parts of a packet are put one after the other, so what a
  client needs is that a valid value and the bytes behind it can be told apart.
\<close>

locale wire_format =
  fixes encode :: "'a \<Rightarrow> u8 list"
    and decode :: "u8 list \<Rightarrow> 'a proto_result"
    and valid :: "'a \<Rightarrow> bool"
  assumes decode_encode: "valid x \<Longrightarrow> decode (encode x @ rest) = Ok x"
begin

lemma decode_encode_exact: "valid x \<Longrightarrow> decode (encode x) = Ok x"
  using decode_encode [of x "[]"] by simp

lemma encode_split:
  assumes "valid x" "valid y" "encode x @ xs = encode y @ ys"
  shows "x = y \<and> xs = ys"
  using decode_encode [OF assms(1), of xs] decode_encode [OF assms(2), of ys] assms(3) by simp

lemma encode_inject: "valid x \<Longrightarrow> valid y \<Longrightarrow> encode x = encode y \<Longrightarrow> x = y"
  using encode_split [of x y "[]" "[]"] by simp

lemma encode_not_prefix:
  "valid x \<Longrightarrow> valid y \<Longrightarrow> encode y = encode x @ zs \<Longrightarrow> zs = []"
  using encode_split [of x y zs "[]"] by simp

end

section \<open>The checksum accumulator\<close>

text \<open>The two values of \<open>cfg(target_endian)\<close>.\<close>

datatype endian = Big | Little

fun NATIVE_NUMBER_FROM_BYTES :: "endian \<Rightarrow> u8 list \<Rightarrow> u64" where
  "NATIVE_NUMBER_FROM_BYTES Big b = from_be_bytes b"
| "NATIVE_NUMBER_FROM_BYTES Little b = from_le_bytes b"

fun NATIVE_NUMBER_FROM_NETWORK :: "endian \<Rightarrow> bool" where
  "NATIVE_NUMBER_FROM_NETWORK Big = False"
| "NATIVE_NUMBER_FROM_NETWORK Little = True"

text \<open>\<open>u128::from_be\<close>: the identity on a big-endian machine, a byte swap on a little-endian one.\<close>

fun u128_from_be :: "endian \<Rightarrow> u128 \<Rightarrow> u128" where
  "u128_from_be Big x = x"
| "u128_from_be Little x = from_be_bytes (to_le_bytes 16 x)"

record InternetChecksum =
  accumulator :: u128

definition new_checksum :: InternetChecksum where
  "new_checksum = \<lparr>accumulator = 0\<rparr>"

text \<open>The two loop bodies of \<open>calculate_partial_result\<close>: whole words, then the bytes left over.\<close>

definition add_word :: "endian \<Rightarrow> u8 list \<Rightarrow> nat \<Rightarrow> u128 \<Rightarrow> u128 proto_result" where
  "add_word e data i acc =
     obind (slice_range data (i * 8) (i * 8 + 8)) (\<lambda>s.
     obind (try_into_array 8 ''Checksum'' ''rusty-router-proto-common/src/lib.rs'' 55 s) (\<lambda>byte_data.
     checked_add acc (ucast (NATIVE_NUMBER_FROM_BYTES e byte_data))))"

definition add_tail_byte :: "u8 list \<Rightarrow> nat \<Rightarrow> u128 \<Rightarrow> u128 proto_result" where
  "add_tail_byte data i acc =
     obind (slice_index data (8 * (length data div 8) + i)) (\<lambda>b.
     checked_add acc (push_bit (8 * (7 - i)) (ucast b)))"

definition calculate_partial_result :: "endian \<Rightarrow> u8 list \<Rightarrow> u128 proto_result" where
  "calculate_partial_result e data =
     obind (ofold (add_word e data) [0..<length data div 8] 0) (\<lambda>acc.
     ofold (add_tail_byte data) [0..<length data mod 8]
       (if NATIVE_NUMBER_FROM_NETWORK e then u128_from_be e acc else acc))"

definition fold_half :: "nat \<Rightarrow> u128 \<Rightarrow> u128" where
  "fold_half n x = (x AND mask n) + drop_bit n x"

definition calculate_final_result :: "u128 \<Rightarrow> u16" where
  "calculate_final_result accu =
     ucast (fold_half 16 (fold_half 16 (fold_half 32 (fold_half 32 (fold_half 64 (fold_half 64 accu)))))
            XOR 0x0000FFFF)"

definition checksum_add :: "endian \<Rightarrow> InternetChecksum \<Rightarrow> u8 list \<Rightarrow> InternetChecksum proto_result" where
  "checksum_add e c data =
     obind (calculate_partial_result e data) (\<lambda>p.
     obind (checked_add (accumulator c) p) (\<lambda>a. Ok (c\<lparr>accumulator := a\<rparr>)))"

definition checksum_subtract :: "endian \<Rightarrow> InternetChecksum \<Rightarrow> u8 list \<Rightarrow> InternetChecksum proto_result" where
  "checksum_subtract e c data =
     obind (calculate_partial_result e data) (\<lambda>p.
     obind (checked_sub (accumulator c) p) (\<lambda>a. Ok (c\<lparr>accumulator := a\<rparr>)))"

definition calculate :: "InternetChecksum \<Rightarrow> u16" where
  "calculate c = calculate_final_result (accumulator c)"

definition checksum :: "endian \<Rightarrow> u8 list \<Rightarrow> u16 proto_result" where
  "checksum e data = obind (calculate_partial_result e data) (\<lambda>p. Ok (calculate_final_result p))"

section \<open>The reference sum\<close>

text \<open>
  The sum of the big-endian 16-bit words of the data, an odd last byte padded with a zero, and
  the end-around carry that brings a sum back to 16 bits.
\<close>

fun ones_sum :: "u8 list \<Rightarrow> nat" where
  "ones_sum [] = 0"
| "ones_sum [a] = 256 * unat a"
| "ones_sum (a # b # bs) = 256 * unat a + unat b + ones_sum bs"

lemma carry_step_less: "n mod B + n div B < n" if "B \<le> n" "1 < B" for n B :: nat
proof -
  have "0 < n div B" using that by (simp add: div_greater_zero_iff)
  then have "n div B * 1 < n div B * B" using that(2) by (rule_tac mult_strict_left_mono) simp_all
  then have "n mod B + n div B < n mod B + n div B * B"
    by (simp only: add_less_cancel_left mult_1_right)
  also have "\<dots> = n" by (metis add.commute div_mult_mod_eq)
  finally show ?thesis .
qed

function carry_fold :: "nat \<Rightarrow> nat" where
  "carry_fold n = (if n < 65536 then n else carry_fold (n mod 65536 + n div 65536))"
  by pat_completeness auto
termination
  by (relation "measure id") (simp_all add: carry_step_less)

declare carry_fold.simps [simp del]

definition internet_checksum :: "u8 list \<Rightarrow> u16" where
  "internet_checksum data = NOT (word_of_nat (carry_fold (ones_sum data)))"

lemma carry_fold_small [simp]: "n < 65536 \<Longrightarrow> carry_fold n = n"
  by (simp add: carry_fold.simps)

lemma carry_fold_less: "carry_fold n < 65536"
proof (induction n rule: carry_fold.induct)
  case (1 n)
  then show ?case by (subst carry_fold.simps) auto
qed

subsection \<open>Sums modulo \<open>2 ^ 16 - 1\<close>\<close>

text \<open>
  One folding step at the boundary \<open>B\<close> keeps the residue modulo every divisor of \<open>B - 1\<close> and
  keeps zero apart from the non-zero values; two steps bring a value below \<open>B * B\<close> under \<open>B\<close>.
\<close>

abbreviation half :: "nat \<Rightarrow> nat \<Rightarrow> nat" where
  "half B x \<equiv> x mod B + x div B"

definition same_sum :: "nat \<Rightarrow> nat \<Rightarrow> bool" where
  "same_sum x y \<longleftrightarrow> x mod 65535 = y mod 65535 \<and> (x = 0 \<longleftrightarrow> y = 0)"

lemma same_sum_refl [simp]: "same_sum x x"
  by (simp add: same_sum_def)

lemma same_sum_sym: "same_sum x y \<Longrightarrow> same_sum y x"
  by (auto simp: same_sum_def)

lemma same_sum_trans [trans]: "same_sum x y \<Longrightarrow> same_sum y z \<Longrightarrow> same_sum x z"
  by (auto simp: same_sum_def)

lemma same_sum_add: "same_sum x x' \<Longrightarrow> same_sum y y' \<Longrightarrow> same_sum (x + y) (x' + y')"
  by (auto simp: same_sum_def intro: mod_add_cong)

lemma same_sum_unique: "same_sum x y \<Longrightarrow> x < 65536 \<Longrightarrow> y < 65536 \<Longrightarrow> x = y"
proof -
  assume h: "same_sum x y" "x < 65536" "y < 65536"
  have *: "z mod 65535 = (if z = 65535 then 0 else z)" if "z < 65536" for z :: nat
    using that by simp
  from h(1) show "x = y"
    unfolding same_sum_def * [OF h(2)] * [OF h(3)] by (auto split: if_splits)
qed

lemma same_sum_mult_add: "same_sum (y + 65535 * k) y" if "y = 0 \<Longrightarrow> k = 0"
  using that by (auto simp: same_sum_def)

lemma half_same_sum:
  assumes "B = 65535 * c + 1" and "0 < c"
  shows "same_sum x (half B x)"
proof -
  have "x = half B x + 65535 * (c * (x div B))"
  proof -
    have "x = x mod B + B * (x div B)" by simp
    also have "B * (x div B) = x div B + 65535 * (c * (x div B))"
      by (simp only: assms(1)) (simp add: algebra_simps)
    finally show ?thesis by simp
  qed
  then have "same_sum (half B x + 65535 * (c * (x div B))) (half B x)"
    by (intro same_sum_mult_add) simp
  then show ?thesis using \<open>x = half B x + _\<close> by simp
qed

lemma half_less: "half B y < B" if "y < 2 * B - 1" for y B :: nat
proof (cases "y < B")
  case False
  then obtain d where d: "y = B + d" by (auto simp: not_less le_iff_add)
  then have "d < B - 1" using that by linarith
  moreover from this have "y div B = 1" "y mod B = d" by (simp_all add: d div_nat_eqI)
  ultimately show ?thesis by simp
qed simp

lemma half_half_less: "half B (half B x) < B" if "x < B * B" for x B :: nat
proof (rule half_less)
  have "0 < B" using that by (cases B) auto
  then have "x div B < B" "x mod B < B" using that by (simp_all add: less_mult_imp_div_less)
  then show "half B x < 2 * B - 1" by linarith
qed

lemma half_le: "half B x \<le> x" if "0 < (B :: nat)"
proof -
  have "x div B \<le> B * (x div B)" using that by simp
  then show ?thesis by (metis add_mono_thms_linordered_semiring(2) mod_mult_div_eq)
qed

lemma carry_fold_same_sum: "same_sum n (carry_fold n)"
proof (induction n rule: carry_fold.induct)
  case (1 n)
  show ?case
  proof (cases "n < 65536")
    case False
    have "same_sum n (half 65536 n)" by (rule half_same_sum [of _ 1]) simp_all
    also have "same_sum \<dots> (carry_fold (half 65536 n))" using 1 False by simp
    finally show ?thesis using False by (subst carry_fold.simps) simp
  qed simp
qed

lemma carry_fold_eqI: "same_sum n y \<Longrightarrow> y < 65536 \<Longrightarrow> carry_fold n = y"
  by (meson carry_fold_less carry_fold_same_sum same_sum_sym same_sum_trans same_sum_unique)

lemma carry_fold_cong: "same_sum m n \<Longrightarrow> carry_fold m = carry_fold n"
  by (meson carry_fold_eqI carry_fold_less carry_fold_same_sum same_sum_trans)

section \<open>The final folding\<close>

lemma unat_fold_half:
  assumes "0 < n" "n < 128"
  shows "unat (fold_half n x) = half (2 ^ n) (unat x)"
proof -
  have less: "unat x < 2 ^ 128" using unsigned_less [of x] by simp
  have "unat (x AND mask n) = unat x mod 2 ^ n"
    by (simp only: take_bit_eq_mask [symmetric] unsigned_take_bit_eq take_bit_nat_def)
  moreover have "half (2 ^ n) (unat x) < 2 ^ LENGTH(128)"
    using half_le [of "2 ^ n" "unat x"] less by simp
  ultimately show ?thesis
    by (simp add: fold_half_def unat_plus_no_overflow unat_drop_bit)
qed

lemma ucast_xor_mask: "ucast (w XOR 65535) = NOT (ucast (w :: u128) :: u16)"
proof -
  have "ucast (w XOR mask 16) = NOT (ucast w :: u16)"
    by (rule bit_word_eqI) (simp add: bit_simps)
  moreover have "(65535 :: u128) = mask 16" by (simp add: mask_numeral)
  ultimately show ?thesis by (simp only:)
qed

lemma half_two_powers_same_sum:
  "same_sum x (half (2 ^ 16) x)" "same_sum x (half (2 ^ 32) x)" "same_sum x (half (2 ^ 64) x)"
  using half_same_sum [of _ 1 x] half_same_sum [of _ 65537 x]
    half_same_sum [of _ 281479271743489 x] by simp_all

lemma unat_fold_half_widths:
  "unat (fold_half 16 x) = half (2 ^ 16) (unat x)"
  "unat (fold_half 32 x) = half (2 ^ 32) (unat x)"
  "unat (fold_half 64 x) = half (2 ^ 64) (unat x)"
  by (rule unat_fold_half; simp)+

lemma calculate_final_result_eq:
  "calculate_final_result a = NOT (word_of_nat (carry_fold (unat a)))"
proof -
  let ?h = "\<lambda>n x. half (2 ^ n) (half (2 ^ n) x) :: nat"
  let ?w = "fold_half 16 (fold_half 16 (fold_half 32 (fold_half 32 (fold_half 64 (fold_half 64 a)))))"
  have w: "unat ?w = ?h 16 (?h 32 (?h 64 (unat a)))"
    by (simp only: unat_fold_half_widths)
  have "unat a < 2 ^ 64 * 2 ^ 64" using unsigned_less [of a] by simp
  then have "?h 64 (unat a) < 2 ^ 32 * 2 ^ 32" by (rule half_half_less [THEN less_le_trans]) simp
  then have "?h 32 (?h 64 (unat a)) < 2 ^ 16 * 2 ^ 16" by (rule half_half_less [THEN less_le_trans]) simp
  then have "unat ?w < 65536" unfolding w by (rule half_half_less [THEN less_le_trans]) simp
  moreover have "same_sum (unat a) (unat ?w)"
    unfolding w by (meson half_two_powers_same_sum same_sum_trans)
  ultimately have "carry_fold (unat a) = unat ?w" by (simp add: carry_fold_eqI)
  then show ?thesis by (simp add: calculate_final_result_def ucast_xor_mask unsigned_of_nat)
qed

section \<open>Byte sums\<close>

lemma ones_sum_eq_0_iff: "ones_sum bs = 0 \<longleftrightarrow> (\<forall>b \<in> set bs. b = 0)"
  by (induction bs rule: ones_sum.induct) (auto simp: unat_eq_0)

lemma le_nat_eq_0_iff: "le_nat bs = 0 \<longleftrightarrow> (\<forall>b \<in> set bs. b = 0)"
  by (induction bs) (auto simp: unat_eq_0)

lemma be_nat_eq_0_iff: "be_nat bs = 0 \<longleftrightarrow> (\<forall>b \<in> set bs. b = 0)"
  by (simp add: be_nat_def le_nat_eq_0_iff)

text \<open>The reference sum as a sum over positions: even positions are the high bytes.\<close>

definition byte_weight :: "nat \<Rightarrow> nat" where
  "byte_weight i = 256 ^ (1 - i mod 2)"

lemma byte_weight_simps [simp]:
  "byte_weight 0 = 256" "byte_weight (Suc 0) = 1" "byte_weight (Suc (Suc i)) = byte_weight i"
  by (simp_all add: byte_weight_def)

lemma ones_sum_index: "ones_sum bs = (\<Sum>i<length bs. unat (bs ! i) * byte_weight i)"
proof (induction bs rule: ones_sum.induct)
  case (3 a b bs)
  then show ?case
    by (simp add: sum.lessThan_Suc_shift del: sum.lessThan_Suc)
qed simp_all

lemma ones_sum_append: "even (length xs) \<Longrightarrow> ones_sum (xs @ ys) = ones_sum xs + ones_sum ys"
  by (induction xs rule: ones_sum.induct) auto

lemma byte_sum_mod:
  assumes "\<And>i. i < n \<Longrightarrow> v i mod 65535 = w i mod (65535 :: nat)"
  shows "(\<Sum>i<n. c i * v i) mod 65535 = (\<Sum>i<n. c i * w i) mod 65535"
proof -
  have "(\<Sum>i<n. c i * v i mod 65535) = (\<Sum>i<n. c i * w i mod 65535)"
    by (intro sum.cong refl mod_mult_cong) (simp_all add: assms)
  then show ?thesis
    by (subst (1 2) mod_sum_eq [symmetric]) (rule arg_cong)
qed

lemma le_nat_index: "le_nat bs = (\<Sum>i<length bs. unat (bs ! i) * 256 ^ i)"
  by (induction bs) (simp_all add: sum.lessThan_Suc_shift sum_distrib_left ac_simps del: sum.lessThan_Suc)

lemma power_256_mod: "256 ^ n mod 65535 = (if even n then 1 else 256 :: nat)"
proof (induction n)
  case (Suc n)
  have "(256 :: nat) ^ Suc n mod 65535 = (256 * (256 ^ n mod 65535)) mod 65535"
    by (simp add: mod_mult_right_eq)
  with Suc show ?case by simp
qed simp

lemma le_nat_ones_sum: "(256 * le_nat bs) mod 65535 = ones_sum bs mod 65535"
proof -
  have "256 * le_nat bs = (\<Sum>i<length bs. unat (bs ! i) * 256 ^ Suc i)"
    by (simp add: le_nat_index sum_distrib_left ac_simps)
  also have "\<dots> mod 65535 = (\<Sum>i<length bs. unat (bs ! i) * byte_weight i) mod 65535"
    by (rule byte_sum_mod) (simp only: power_256_mod, simp add: byte_weight_def mod2_eq_if)
  finally show ?thesis by (simp add: ones_sum_index)
qed

lemma be_nat_ones_sum: "even (length bs) \<Longrightarrow> be_nat bs mod 65535 = ones_sum bs mod 65535"
proof (induction bs rule: ones_sum.induct)
  case (3 a b bs)
  have "be_nat (a # b # bs) = (256 * unat a + unat b) * 256 ^ length bs + be_nat bs"
    by (simp add: be_nat_Cons algebra_simps)
  also have "\<dots> mod 65535 = ((256 * unat a + unat b) * 1 + ones_sum bs) mod 65535"
    using 3 by (intro mod_add_cong mod_mult_cong) (simp_all add: power_256_mod)
  finally show ?case by simp
qed simp_all

lemma be_nat_same_sum: "even (length bs) \<Longrightarrow> same_sum (be_nat bs) (ones_sum bs)"
  by (simp add: same_sum_def be_nat_ones_sum be_nat_eq_0_iff ones_sum_eq_0_iff)

section \<open>The whole words\<close>

definition chunk :: "u8 list \<Rightarrow> nat \<Rightarrow> u8 list" where
  "chunk data i = take 8 (drop (i * 8) data)"

fun native_value :: "endian \<Rightarrow> u8 list \<Rightarrow> nat" where
  "native_value Big b = be_nat b"
| "native_value Little b = le_nat b"

definition words_sum :: "endian \<Rightarrow> u8 list \<Rightarrow> nat \<Rightarrow> nat" where
  "words_sum e data n = (\<Sum>i<n. native_value e (chunk data i))"

lemma chunk_bound: "i < length data div 8 \<Longrightarrow> i * 8 + 8 \<le> length data"
  using less_eq_div_iff_mult_less_eq [of 8 "Suc i" "length data"] by simp

lemma length_chunk [simp]: "i < length data div 8 \<Longrightarrow> length (chunk data i) = 8"
  using chunk_bound [of i data] by (simp add: chunk_def)

lemma take_chunks:
  "n < length data div 8 \<Longrightarrow> take (Suc n * 8) data = take (n * 8) data @ chunk data n"
  by (simp add: chunk_def take_add add.commute [of 8])

lemma native_value_less: "length b = 8 \<Longrightarrow> native_value e b < 2 ^ 64"
  using le_nat_less [of b] be_nat_less [of b] by (cases e) simp_all

lemma unat_native_number: "length b = 8 \<Longrightarrow> unat (NATIVE_NUMBER_FROM_BYTES e b) = native_value e b"
  using le_nat_less [of b]
  by (cases e) (simp_all add: unat_from_be_bytes from_le_bytes_def unat_of_nat)

lemma unat_native_number_u128:
  "length b = 8 \<Longrightarrow> unat (ucast (NATIVE_NUMBER_FROM_BYTES e b) :: u128) = native_value e b"
  using native_value_less [of b e]
  by (simp add: unsigned_ucast_eq unat_native_number take_bit_eq_mod)

lemma add_word_eq:
  "i < length data div 8 \<Longrightarrow>
   add_word e data i acc = checked_add acc (ucast (NATIVE_NUMBER_FROM_BYTES e (chunk data i)))"
  using chunk_bound [of i data] by (simp add: add_word_def flip: chunk_def)

lemma ofold_add_word:
  "n \<le> length data div 8 \<Longrightarrow>
   ofold (add_word e data) [0..<n] 0 =
     (if words_sum e data n < 2 ^ 128 then Ok (word_of_nat (words_sum e data n)) else Panic)"
proof (induction n)
  case (Suc n)
  let ?v = "native_value e (chunk data n)"
  have step: "words_sum e data (Suc n) = words_sum e data n + ?v"
    by (simp add: words_sum_def)
  have v: "unat (ucast (NATIVE_NUMBER_FROM_BYTES e (chunk data n)) :: u128) = ?v"
    using Suc.prems by (intro unat_native_number_u128) simp
  have "checked_add (word_of_nat (words_sum e data n)) (ucast (NATIVE_NUMBER_FROM_BYTES e (chunk data n)))
     = (if words_sum e data (Suc n) < 2 ^ 128 then Ok (word_of_nat (words_sum e data (Suc n))) else Panic :: u128 proto_result)"
    if "words_sum e data n < 2 ^ 128"
    using that v by (simp add: checked_add_def step unat_of_nat word_unat_eq_iff unat_word_ariths)
  with Suc step show ?case by (auto simp: ofold_snoc add_word_eq)
qed (simp add: words_sum_def)

lemma words_sum_le: "n \<le> length data div 8 \<Longrightarrow> words_sum e data n \<le> n * (2 ^ 64 - 1)"
proof -
  assume n: "n \<le> length data div 8"
  have "words_sum e data n \<le> (\<Sum>i<n. 2 ^ 64 - 1)"
    unfolding words_sum_def
  proof (rule sum_mono)
    fix i assume "i \<in> {..<n}"
    then have "native_value e (chunk data i) < 2 ^ 64"
      using n by (intro native_value_less length_chunk) simp
    then show "native_value e (chunk data i) \<le> 2 ^ 64 - 1" by linarith
  qed
  then show ?thesis by simp
qed

text \<open>Word by word, the machine's sum is the reference sum, up to the factor of the byte order.\<close>

lemma ones_sum_chunks:
  "n < length data div 8 \<Longrightarrow>
   ones_sum (take (Suc n * 8) data) = ones_sum (take (n * 8) data) + ones_sum (chunk data n)"
  using chunk_bound [of n data] by (subst take_chunks) (simp_all add: ones_sum_append)

definition order_factor :: "endian \<Rightarrow> nat" where
  "order_factor e = (if NATIVE_NUMBER_FROM_NETWORK e then 256 else 1)"

lemma native_value_ones_sum:
  "length b = 8 \<Longrightarrow> (order_factor e * native_value e b) mod 65535 = ones_sum b mod 65535"
  by (cases e) (simp_all add: order_factor_def le_nat_ones_sum be_nat_ones_sum)

lemma words_sum_mod:
  "n \<le> length data div 8 \<Longrightarrow>
   (order_factor e * words_sum e data n) mod 65535 = ones_sum (take (n * 8) data) mod 65535"
proof (induction n)
  case (Suc n)
  then have "(order_factor e * words_sum e data n + order_factor e * native_value e (chunk data n)) mod 65535
     = (ones_sum (take (n * 8) data) + ones_sum (chunk data n)) mod 65535"
    by (intro mod_add_cong) (simp_all add: native_value_ones_sum)
  with Suc.prems show ?case
    by (simp add: words_sum_def ones_sum_chunks [simplified] distrib_left)
qed (simp add: words_sum_def)

lemma words_sum_eq_0_iff:
  "n \<le> length data div 8 \<Longrightarrow> words_sum e data n = 0 \<longleftrightarrow> ones_sum (take (n * 8) data) = 0"
proof (induction n)
  case (Suc n)
  have "native_value e (chunk data n) = 0 \<longleftrightarrow> ones_sum (chunk data n) = 0"
    by (cases e) (simp_all add: le_nat_eq_0_iff be_nat_eq_0_iff ones_sum_eq_0_iff)
  with Suc show ?case by (simp add: words_sum_def ones_sum_chunks [simplified])
qed (simp add: words_sum_def)

text \<open>After the byte swap, the sum is the reference sum of the whole words.\<close>

lemma unat_u128_from_be_Little: "unat (u128_from_be Little x) = be_nat (to_le_bytes 16 x)"
  by (simp add: unat_from_be_bytes)

lemma le_nat_to_le_bytes_u128: "le_nat (to_le_bytes 16 (x :: u128)) = unat x"
  using unat_less_2p [of x] by (simp add: le_nat_to_le_bytes)

lemma swap_same_sum: "same_sum (unat (u128_from_be Little x)) (ones_sum (to_le_bytes 16 x))"
  by (simp only: unat_u128_from_be_Little) (rule be_nat_same_sum, simp)

definition network_sum :: "endian \<Rightarrow> u128 \<Rightarrow> u128" where
  "network_sum e acc = (if NATIVE_NUMBER_FROM_NETWORK e then u128_from_be e acc else acc)"

lemma network_sum_same_sum:
  assumes n: "n \<le> length data div 8" and x: "unat x = words_sum e data n"
  shows "same_sum (unat (network_sum e x)) (ones_sum (take (n * 8) data))"
proof (cases e)
  case Big
  with words_sum_mod [OF n, of e] words_sum_eq_0_iff [OF n, of e] x show ?thesis
    by (simp add: network_sum_def same_sum_def order_factor_def)
next
  case Little
  let ?b = "to_le_bytes 16 x"
  have "ones_sum ?b mod 65535 = (256 * unat x) mod 65535"
    using le_nat_ones_sum [of ?b] by (simp add: le_nat_to_le_bytes_u128)
  moreover have "ones_sum ?b = 0 \<longleftrightarrow> unat x = 0"
    using le_nat_eq_0_iff [of ?b] by (simp add: ones_sum_eq_0_iff le_nat_to_le_bytes_u128)
  ultimately have "same_sum (ones_sum ?b) (ones_sum (take (n * 8) data))"
    using words_sum_mod [OF n, of e] words_sum_eq_0_iff [OF n, of e] x Little
    by (simp add: same_sum_def order_factor_def)
  then show ?thesis
    using swap_same_sum [of x] Little by (simp add: network_sum_def del: u128_from_be.simps) (rule same_sum_trans)
qed

section \<open>The bytes left over\<close>

definition tail_start :: "u8 list \<Rightarrow> nat" where
  "tail_start data = 8 * (length data div 8)"

definition tail_sum :: "u8 list \<Rightarrow> nat \<Rightarrow> nat" where
  "tail_sum data n = (\<Sum>i<n. unat (data ! (tail_start data + i)) * 256 ^ (7 - i))"

lemma tail_start_bound: "i < length data mod 8 \<Longrightarrow> tail_start data + i < length data"
  unfolding tail_start_def by (metis add.commute add_less_cancel_left mult_div_mod_eq)

lemma unat_tail_byte:
  assumes "i < 8"
  shows "unat (push_bit (8 * (7 - i)) (ucast (b :: u8)) :: u128) = unat b * 256 ^ (7 - i)"
proof -
  have "(256 :: nat) ^ (7 - i) \<le> 256 ^ 7" by (rule power_increasing) simp_all
  then have "unat b * 256 ^ (7 - i) < 256 * 256 ^ 7"
    by (intro mult_less_le_imp_less) simp_all
  moreover have "unat b mod 2 ^ 128 = unat b" using less_trans [OF unat_byte_less] by simp
  ultimately show ?thesis
    by (subst unsigned_push_bit_eq)
      (simp add: unsigned_ucast_eq push_bit_eq_mult take_bit_eq_mod power_mult)
qed

lemma ofold_add_tail_byte:
  "n \<le> length data mod 8 \<Longrightarrow>
   ofold (add_tail_byte data) [0..<n] s =
     (if unat s + tail_sum data n < 2 ^ 128 then Ok (word_of_nat (unat s + tail_sum data n)) else Panic)"
proof (induction n)
  case 0
  then show ?case using unat_less_2p [of s] by (simp add: tail_sum_def)
next
  case (Suc n)
  let ?b = "data ! (tail_start data + n)"
  let ?w = "push_bit (8 * (7 - n)) (ucast ?b) :: u128"
  have n: "n < length data mod 8" using Suc.prems by simp
  have "length data mod 8 < 8" by simp
  with n have w: "unat ?w = unat ?b * 256 ^ (7 - n)" by (intro unat_tail_byte) linarith
  have step: "tail_sum data (Suc n) = tail_sum data n + unat ?w"
    using w by (simp add: tail_sum_def)
  have body: "add_tail_byte data n acc = checked_add acc ?w" for acc
    using tail_start_bound [OF n] by (simp add: add_tail_byte_def flip: tail_start_def)
  have "checked_add (word_of_nat (unat s + tail_sum data n)) ?w
     = (if unat s + tail_sum data (Suc n) < 2 ^ 128
        then Ok (word_of_nat (unat s + tail_sum data (Suc n))) else Panic :: u128 proto_result)"
    if "unat s + tail_sum data n < 2 ^ 128"
    using that unfolding step
    by (simp add: checked_add_def unat_of_nat word_unat_eq_iff unat_word_ariths mod_add_left_eq add.assoc)
  with Suc.IH n step show ?case by (auto simp: ofold_snoc body)
qed

lemma tail_weight_mod: "i < 8 \<Longrightarrow> 256 ^ (7 - i) mod 65535 = byte_weight i mod (65535 :: nat)"
  by (simp add: power_256_mod byte_weight_def mod2_eq_if even_diff_nat)

lemma tail_sum_same_sum: "same_sum (tail_sum data (length data mod 8)) (ones_sum (drop (tail_start data) data))"
proof -
  let ?t = "drop (tail_start data) data" and ?n = "length data mod 8"
  have len: "length ?t = ?n" by (simp add: tail_start_def minus_mult_div_eq_mod)
  have nth: "data ! (tail_start data + i) = ?t ! i" if "i < ?n" for i
    using that len by (intro nth_drop [symmetric]) (metis length_drop less_diff_conv less_or_eq_imp_le linorder_neqE_nat not_less_zero diff_is_0_eq zero_less_diff)
  have "tail_sum data ?n = (\<Sum>i<?n. unat (?t ! i) * 256 ^ (7 - i))"
    unfolding tail_sum_def by (rule sum.cong) (simp_all add: nth)
  moreover have "\<dots> mod 65535 = (\<Sum>i<?n. unat (?t ! i) * byte_weight i) mod 65535"
    by (rule byte_sum_mod) (metis tail_weight_mod mod_less_divisor less_trans zero_less_numeral)
  moreover have "(\<Sum>i<?n. unat (?t ! i) * 256 ^ (7 - i)) = 0 \<longleftrightarrow> (\<forall>b \<in> set ?t. b = 0)"
    using len by (auto simp: set_conv_nth unat_eq_0)
  ultimately show ?thesis
    unfolding same_sum_def ones_sum_eq_0_iff by (simp only: ones_sum_index len)
qed

lemma tail_sum_less: "tail_sum data (length data mod 8) < 2 ^ 64"
proof -
  have "(\<Sum>i<n. c i * 256 ^ (7 - i)) + 256 ^ (8 - n) \<le> 256 ^ 8" if "n \<le> 8" "\<And>i. c i < 256" for n and c :: "nat \<Rightarrow> nat"
    using that(1)
  proof (induction n)
    case (Suc n)
    have "c n * 256 ^ (7 - n) + 256 ^ (7 - n) \<le> 256 * 256 ^ (7 - n)"
      using that(2) [of n] by (metis Suc_leI add.commute mult_Suc mult_le_mono1)
    also have "\<dots> = 256 ^ (8 - n)" using Suc.prems by (simp flip: power_Suc add: Suc_diff_le)
    finally show ?case using Suc by simp
  qed simp
  from this [of "length data mod 8" "\<lambda>i. unat (data ! (tail_start data + i))"]
  have "tail_sum data (length data mod 8) + 256 ^ (8 - length data mod 8) \<le> 256 ^ 8"
    by (simp add: tail_sum_def)
  moreover have "0 < (256 :: nat) ^ (8 - length data mod 8)" by simp
  ultimately have "tail_sum data (length data mod 8) < 256 ^ 8" by linarith
  then show ?thesis by simp
qed

lemma tail_sum_0 [simp]: "tail_sum data 0 = 0"
  by (simp add: tail_sum_def)

section \<open>The partial sum\<close>

lemma calculate_partial_result_eq:
  "calculate_partial_result e data =
     (let w = words_sum e data (length data div 8);
          s = network_sum e (word_of_nat w);
          t = tail_sum data (length data mod 8)
      in if w < 2 ^ 128 \<and> unat s + t < 2 ^ 128 then Ok (word_of_nat (unat s + t)) else Panic)"
  by (simp add: calculate_partial_result_def ofold_add_word ofold_add_tail_byte Let_def
      flip: network_sum_def)

lemma calculate_partial_result_same_sum:
  assumes "calculate_partial_result e data = Ok p"
  shows "same_sum (unat p) (ones_sum data)"
proof -
  let ?q = "length data div 8" and ?t = "tail_sum data (length data mod 8)"
  let ?s = "network_sum e (word_of_nat (words_sum e data ?q))"
  have w: "words_sum e data ?q < 2 ^ 128" and t: "unat ?s + ?t < 2 ^ 128"
    and p: "p = word_of_nat (unat ?s + ?t)"
    using assms by (simp_all add: calculate_partial_result_eq Let_def split: if_splits)
  have "unat (word_of_nat (words_sum e data ?q) :: u128) = words_sum e data ?q"
    using w by (simp add: unat_of_nat)
  then have "same_sum (unat ?s) (ones_sum (take (tail_start data) data))"
    using network_sum_same_sum [of ?q data _ e] by (simp add: tail_start_def mult.commute)
  then have "same_sum (unat ?s + ?t) (ones_sum (take (tail_start data) data) + ones_sum (drop (tail_start data) data))"
    by (rule same_sum_add) (rule tail_sum_same_sum)
  also have "ones_sum (take (tail_start data) data) + ones_sum (drop (tail_start data) data) = ones_sum data"
    by (subst ones_sum_append [symmetric]) (simp_all add: tail_start_def)
  finally have "same_sum (unat ?s + ?t) (ones_sum data)" .
  moreover have "unat p = unat ?s + ?t" unfolding p using t by (intro unat_word_of_nat) simp
  ultimately show ?thesis by simp
qed

lemma words_sum_less:
  assumes "length data < 2 ^ 63" shows "words_sum e data (length data div 8) < 2 ^ 127"
proof -
  have "length data div 8 \<le> 2 ^ 60" using assms by simp
  then have "length data div 8 * (2 ^ 64 - 1) \<le> 2 ^ 60 * (2 ^ 64 - 1)" by (rule mult_le_mono1)
  with words_sum_le [of "length data div 8" data e] show ?thesis by simp
qed

text \<open>
  The swapped sum of at most two words leaves room for the bytes that are left over: its high
  half is all ones only when no carry came out of the low half.
\<close>

lemma be_nat_to_le_bytes_room:
  assumes x: "unat x \<le> 2 ^ 65 - 2" and t: "t < 2 ^ 64"
  shows "be_nat (to_le_bytes 16 (x :: u128)) + t < 2 ^ 128"
proof -
  let ?b = "to_le_bytes 16 x"
  let ?lo = "take 8 ?b" and ?hi = "drop 8 ?b"
  have split: "?b = ?lo @ ?hi" by simp
  have len: "length ?lo = 8" "length ?hi = 8" by simp_all
  have be: "be_nat ?b = be_nat ?lo * 2 ^ 64 + be_nat ?hi"
    by (subst split, subst be_nat_append) (simp add: len)
  have le: "unat x = le_nat ?lo + 2 ^ 64 * le_nat ?hi"
    by (subst le_nat_to_le_bytes_u128 [symmetric], subst split, subst le_nat_append) (simp add: len)
  have hi: "be_nat ?hi < 2 ^ 64" and lo: "be_nat ?lo < 2 ^ 64"
    using be_nat_less [of ?hi] be_nat_less [of ?lo] by (simp_all add: len)
  show ?thesis
  proof (cases "be_nat ?lo = 2 ^ 64 - 1")
    case False
    with lo have "be_nat ?lo \<le> 2 ^ 64 - 2" by simp
    with be hi t show ?thesis by simp
  next
    case True
    have ones: "replicate 8 255 = [255, 255, 255, 255, 255, 255, 255, 255 :: u8]"
      by (simp add: numeral_eq_Suc)
    have "be_nat (replicate 8 255) = 2 ^ 64 - 1" by (simp add: be_nat_def ones)
    with True have "rev ?lo = rev (replicate 8 255)"
      by (intro le_nat_inject) (simp_all only: be_nat_def length_rev len length_replicate)
    then have "le_nat ?lo = le_nat (replicate 8 255)" by (metis rev_rev_ident)
    moreover have "le_nat (replicate 8 255) = 2 ^ 64 - 1" by (simp add: ones)
    ultimately have "le_nat ?lo = 2 ^ 64 - 1" by simp
    with le x have "le_nat ?hi = 0" by simp
    then have "be_nat ?hi = 0" by (simp only: le_nat_eq_0_iff be_nat_eq_0_iff)
    with be True t show ?thesis by simp
  qed
qed

lemma partial_no_overflow:
  assumes len: "length data < 2 ^ 63"
    and safe: "e = Big \<or> length data mod 8 = 0 \<or> length data < 24"
  shows "is_Ok (calculate_partial_result e data)"
proof -
  let ?w = "words_sum e data (length data div 8)" and ?t = "tail_sum data (length data mod 8)"
  have w: "?w < 2 ^ 127" using len by (rule words_sum_less)
  have t: "?t < 2 ^ 64" by (rule tail_sum_less)
  let ?x = "word_of_nat ?w :: u128"
  have x: "unat ?x = ?w" using w by (simp add: unat_of_nat)
  have "unat (network_sum e ?x) + ?t < 2 ^ 128"
  proof (cases e)
    case Big
    with w t x show ?thesis by (simp add: network_sum_def)
  next
    case Little
    show ?thesis
    proof (cases "length data mod 8 = 0")
      case True
      then show ?thesis using unat_less_2p [of "network_sum e ?x"] by simp
    next
      case False
      with safe Little have "length data div 8 \<le> 2" by auto
      then have "length data div 8 * (2 ^ 64 - 1) \<le> 2 * (2 ^ 64 - 1)" by (rule mult_le_mono1)
      with words_sum_le [of "length data div 8" data e] x have "unat ?x \<le> 2 ^ 65 - 2" by simp
      with t Little show ?thesis
        by (simp only: network_sum_def NATIVE_NUMBER_FROM_NETWORK.simps if_True unat_u128_from_be_Little)
          (rule be_nat_to_le_bytes_room)
    qed
  qed
  with w show ?thesis by (simp add: calculate_partial_result_eq Let_def)
qed

section \<open>The checksum of a byte string\<close>

lemma checksum_cases:
  "checksum e data = Ok (internet_checksum data) \<or> checksum e data = Panic"
proof (cases "calculate_partial_result e data")
  case (Ok p)
  then have "carry_fold (unat p) = carry_fold (ones_sum data)"
    by (intro carry_fold_cong calculate_partial_result_same_sum)
  with Ok show ?thesis
    by (simp add: checksum_def calculate_final_result_eq internet_checksum_def)
next
  case (Err x)
  then have False by (simp add: calculate_partial_result_eq Let_def split: if_splits)
  then show ?thesis ..
qed (simp add: checksum_def)

lemma checksum_OkD: "checksum e data = Ok c \<Longrightarrow> c = internet_checksum data"
  using checksum_cases [of e data] by auto

lemma checksum_not_Err [simp]: "checksum e data \<noteq> Err x"
  using checksum_cases [of e data] by auto

lemma checksum_Ok:
  "length data < 2 ^ 63 \<Longrightarrow> e = Big \<or> length data mod 8 = 0 \<or> length data < 24 \<Longrightarrow>
   checksum e data = Ok (internet_checksum data)"
  using checksum_cases [of e data] partial_no_overflow [of data e]
  by (auto simp: checksum_def is_Ok_iff)

text \<open>The only thing that can go wrong: the sum of the 64-bit words, read and swapped as the machine's byte
  order has it, and the bytes that are left over do not fit into 128 bits.\<close>

definition sum_fits :: "endian \<Rightarrow> u8 list \<Rightarrow> bool" where
  "sum_fits e data \<longleftrightarrow>
     (let words = words_sum e data (length data div 8)
      in words < 2 ^ 128 \<and> unat (network_sum e (word_of_nat words)) + tail_sum data (length data mod 8) < 2 ^ 128)"

lemma is_Ok_partial: "is_Ok (calculate_partial_result e data) \<longleftrightarrow> sum_fits e data"
  by (simp add: calculate_partial_result_eq sum_fits_def Let_def)

lemma sum_fits_safe: "length data < 2 ^ 63 \<Longrightarrow> e = Big \<or> length data mod 8 = 0 \<or> length data < 24 \<Longrightarrow> sum_fits e data"
  using partial_no_overflow by (simp flip: is_Ok_partial)

lemma checksum_fits: "checksum e data = (if sum_fits e data then Ok (internet_checksum data) else Panic)"
proof (cases "calculate_partial_result e data")
  case (Ok p)
  then have "is_Ok (checksum e data)" "sum_fits e data" by (simp_all add: checksum_def flip: is_Ok_partial)
  with checksum_cases [of e data] show ?thesis by auto
next
  case Panic
  then have "\<not> sum_fits e data" by (simp flip: is_Ok_partial)
  with Panic show ?thesis by (simp add: checksum_def)
qed (simp add: calculate_partial_result_eq Let_def split: if_splits)

text \<open>C29: On a machine of either byte order and for data of any length \<open>InternetChecksum::checksum\<close> returns the
  textbook internet checksum of the data when the 128-bit sum fits, and panics exactly when it does not;
  its error branch is unreachable and no index is out of bounds. The sum fits on every big-endian
  machine, for data whose length is a multiple of eight, and for data of fewer than 24 bytes (an IPv4
  header without options has 20), for every length that fits in memory.\<close>

theorem checksum_internet:
  "checksum e data = (if sum_fits e data then Ok (internet_checksum data) else Panic) \<and>
   (length data < 2 ^ 63 \<and> (e = Big \<or> length data mod 8 = 0 \<or> length data < 24) \<longrightarrow> sum_fits e data)"
  by (intro conjI impI checksum_fits sum_fits_safe) simp_all

theorem checksum_internet_witness:
  "sum_fits Little [0x45, 0, 0, 20] \<and> checksum Little [0x45, 0, 0, 20] = Ok (internet_checksum [0x45, 0, 0, 20])"
proof -
  let ?data = "[0x45, 0, 0, 20] :: u8 list"
  have "length ?data < 2 ^ 63 \<and> (Little = Big \<or> length ?data mod 8 = 0 \<or> length ?data < 24)" by simp
  with checksum_internet [of Little ?data] show ?thesis by presburger
qed

text \<open>Outside those cases a little-endian machine can overflow: for these 31 bytes (two words
  of ones, the word 1 and seven more ones) the swapped sum is so large that adding the bytes
  left over passes \<open>2 ^ 128\<close>, and the call panics where a big-endian machine returns.\<close>

definition overflow_bytes :: "u8 list" where
  "overflow_bytes = replicate 16 255 @ [1, 0, 0, 0, 0, 0, 0, 0] @ replicate 7 255"

theorem checksum_overflow:
  "checksum Little overflow_bytes = Panic \<and>
   checksum Big overflow_bytes = Ok (internet_checksum overflow_bytes)"
proof
  show "checksum Big overflow_bytes = Ok (internet_checksum overflow_bytes)"
    by (rule checksum_Ok) (simp_all add: overflow_bytes_def)
  have ones: "replicate 16 255 = (let x = 255 in [x, x, x, x, x, x, x, x, x, x, x, x, x, x, x, x] :: u8 list)"
    "replicate 7 255 = (let x = 255 in [x, x, x, x, x, x, x] :: u8 list)"
    by (simp_all add: numeral_eq_Suc)
  have "words_sum Little overflow_bytes 3 = 2 ^ 65 - 1"
    by (simp add: words_sum_def overflow_bytes_def chunk_def ones Let_def numeral_3_eq_3)
  moreover have "be_nat (to_le_bytes 16 (36893488147419103231 :: u128)) = 340282366920938463444999920952096587776"
    by (simp add: be_nat_def to_le_bytes_numeral)
  moreover have "tail_sum overflow_bytes 7 = 18446744073709551360"
    by (simp add: tail_sum_def tail_start_def overflow_bytes_def ones Let_def lessThan_nat_numeral)
  moreover have "length overflow_bytes = 31" by (simp add: overflow_bytes_def)
  ultimately show "checksum Little overflow_bytes = Panic"
    by (simp add: checksum_def calculate_partial_result_eq network_sum_def unat_u128_from_be_Little
        del: u128_from_be.simps)
qed

section \<open>Incremental use\<close>

text \<open>The accumulator stands for a reference sum: the same residue, and zero for zero.\<close>

definition represents :: "InternetChecksum \<Rightarrow> nat \<Rightarrow> bool" where
  "represents c n \<longleftrightarrow> same_sum (unat (accumulator c)) n"

lemma represents_new: "represents new_checksum 0"
  by (simp add: represents_def new_checksum_def)

lemma represents_add:
  "represents c n \<Longrightarrow> checksum_add e c data = Ok c' \<Longrightarrow> represents c' (n + ones_sum data)"
  by (auto simp: represents_def checksum_add_def rust_simps
      dest!: checked_add_OkD intro!: same_sum_add calculate_partial_result_same_sum)

lemma represents_calculate:
  "represents c n \<Longrightarrow> calculate c = NOT (word_of_nat (carry_fold n))"
  by (auto simp: represents_def calculate_def calculate_final_result_eq dest: carry_fold_cong)

text \<open>Adding the pieces of a packet one after the other gives the checksum of the whole, as long
  as every piece but the last has an even number of bytes.\<close>

theorem checksum_incremental:
  assumes "checksum_add e new_checksum xs = Ok c1" and "checksum_add e c1 ys = Ok c2"
    and "even (length xs)"
  shows "calculate c2 = internet_checksum (xs @ ys)"
proof -
  have "represents c2 (0 + ones_sum xs + ones_sum ys)"
    using represents_new assms(1,2) by (blast intro: represents_add)
  then show ?thesis
    using assms(3) by (simp add: represents_calculate internet_checksum_def ones_sum_append)
qed

theorem checksum_incremental_witness:
  "\<exists>c1 c2. checksum_add Big new_checksum [1, 2] = Ok c1 \<and> checksum_add Big c1 [3] = Ok c2 \<and>
     calculate c2 = internet_checksum ([1, 2] @ [3])"
proof -
  let ?c = "\<lambda>n. \<lparr>accumulator = n\<rparr> :: InternetChecksum"
  have 1: "checksum_add Big new_checksum [1, 2] = Ok (?c 72620543991349248)"
    by (simp add: checksum_add_def new_checksum_def calculate_partial_result_def add_tail_byte_def
        checked_add_def upt_rec_numeral)
  have 2: "checksum_add Big (?c 72620543991349248) [3] = Ok (?c 288793326105133056)"
    by (simp add: checksum_add_def calculate_partial_result_def add_tail_byte_def checked_add_def)
  from checksum_incremental [OF 1 2] 1 2 show ?thesis by simp
qed

text \<open>\<open>subtract\<close> undoes \<open>add\<close>: taking back the bytes that were added restores the
  accumulator exactly, and it never panics on them.\<close>

theorem checksum_subtract_add:
  assumes "checksum_add e c data = Ok c'"
  shows "checksum_subtract e c' data = Ok c"
proof -
  from assms obtain p where p: "calculate_partial_result e data = Ok p"
    and a: "checked_add (accumulator c) p = (Ok (accumulator c') :: u128 proto_result)"
    and c': "c' = c\<lparr>accumulator := accumulator c'\<rparr>"
    by (auto simp: checksum_add_def rust_simps)
  from a have "accumulator c' = accumulator c + p" by (simp add: checked_add_def split: if_splits)
  moreover from a have "unat (accumulator c') = unat (accumulator c) + unat p"
    by (rule checked_add_OkD)
  ultimately have "checked_sub (accumulator c') p = (Ok (accumulator c) :: u128 proto_result)"
    by (simp add: checked_sub_def)
  then show ?thesis
    by (subst c') (simp add: checksum_subtract_def p)
qed

theorem checksum_subtract_add_witness:
  "checksum_subtract Big \<lparr>accumulator = 72620543991349248\<rparr> [1, 2] = Ok new_checksum"
  by (rule checksum_subtract_add)
    (simp add: checksum_add_def new_checksum_def calculate_partial_result_def add_tail_byte_def
        checked_add_def upt_rec_numeral)

section \<open>Verifying a packet that carries its checksum\<close>

lemma ones_sum_patch:
  "even (length xs) \<Longrightarrow>
   ones_sum (xs @ to_be_bytes 2 (c :: u16) @ ys) = ones_sum (xs @ [0, 0] @ ys) + unat c"
proof -
  assume "even (length xs)"
  moreover have "ones_sum (to_be_bytes 2 c) = unat c"
  proof -
    have "be_nat (to_be_bytes 2 c) = unat c"
      using unat_less_2p [of c] by (simp add: be_nat_to_be_bytes)
    then show ?thesis by (simp add: to_be_bytes_evals be_nat_Cons)
  qed
  moreover have "ones_sum (to_be_bytes 2 c @ ys) = ones_sum (to_be_bytes 2 c) + ones_sum ys"
    by (rule ones_sum_append) simp
  ultimately show ?thesis by (simp add: ones_sum_append)
qed

lemma unat_internet_checksum: "unat (internet_checksum data) = 65535 - carry_fold (ones_sum data)"
proof -
  have "unat (word_of_nat (carry_fold (ones_sum data)) :: u16) = carry_fold (ones_sum data)"
    using carry_fold_less by (intro unat_word_of_nat) simp
  moreover have "NOT w = - 1 - w" for w :: u16
    by (simp add: not_eq_complement)
  moreover have "unat (- 1 :: u16) = 65535"
    by (simp add: unsigned_minus_1_eq_mask mask_eq_exp_minus_1)
  ultimately show ?thesis
    by (simp add: internet_checksum_def unat_sub)
qed

text \<open>
  A packet whose checksum field (at an even position) was zero when the checksum was taken sums
  to the checksum zero once the field is filled in: what a receiver tests.
\<close>

lemma internet_checksum_patch:
  assumes "even (length xs)" and "c = internet_checksum (xs @ [0, 0] @ ys)"
  shows "internet_checksum (xs @ to_be_bytes 2 c @ ys) = 0"
proof -
  let ?s = "ones_sum (xs @ [0, 0] @ ys)"
  have "same_sum (?s + (65535 - carry_fold ?s)) (carry_fold ?s + (65535 - carry_fold ?s))"
    by (intro same_sum_add carry_fold_same_sum) simp
  then have "same_sum (?s + unat c) 65535"
    using carry_fold_less [of ?s] by (simp add: assms(2) unat_internet_checksum)
  then have "carry_fold (ones_sum (xs @ to_be_bytes 2 c @ ys)) = 65535"
    using assms(1) by (simp only: ones_sum_patch) (rule carry_fold_eqI, simp_all)
  then show ?thesis by (simp add: internet_checksum_def)
qed

end
