(* ===== verification/Ipv4_Packet.thy ===== *)
theory Ipv4_Packet
  imports Protocol_Common
begin

text \<open>
  The crate \<open>rusty-router-proto-ip\<close> (\<open>src/lib.rs\<close>): network masks, the version and flag fields, the
  IPv4 header, the builder that fills in length, identification and checksum, the parser
  \<open>TryFrom<&[u8]> for IpV4Header\<close> and the serializer \<open>From<&IpV4Header> for Vec<u8>\<close>. An
  \<open>Ipv4Addr\<close> of the standard library is its 32-bit number, most significant octet first.
\<close>

type_synonym Ipv4Addr = u32

definition octets :: "Ipv4Addr \<Rightarrow> u8 list" where
  "octets a = to_be_bytes 4 a"

definition IP_V4_PROTO :: string where
  "IP_V4_PROTO = ''IPv4''"

section \<open>Network masks\<close>

record Ipv4Netmask =
  prefix_length :: u32
  netmask_number :: u32

definition netmask_arms :: "(u32 \<times> u32) list" where
  "netmask_arms =
     [(0x00000000, 0), (0x80000000, 1), (0xC0000000, 2), (0xE0000000, 3),
      (0xF0000000, 4), (0xF8000000, 5), (0xFC000000, 6), (0xFE000000, 7),
      (0xFF000000, 8), (0xFF800000, 9), (0xFFC00000, 10), (0xFFE00000, 11),
      (0xFFF00000, 12), (0xFFF80000, 13), (0xFFFC0000, 14), (0xFFFE0000, 15),
      (0xFFFF0000, 16), (0xFFFF8000, 17), (0xFFFFC000, 18), (0xFFFFE000, 19),
      (0xFFFFF000, 20), (0xFFFFF800, 21), (0xFFFFFC00, 22), (0xFFFFFE00, 23),
      (0xFFFFFF00, 24), (0xFFFFFF80, 25), (0xFFFFFFC0, 26), (0xFFFFFFE0, 27),
      (0xFFFFFFF0, 28), (0xFFFFFFF8, 29), (0xFFFFFFFC, 30), (0xFFFFFFFE, 31),
      (0xFFFFFFFF, 32)]"

definition Ipv4Netmask_new :: "u32 \<Rightarrow> Ipv4Netmask" where
  "Ipv4Netmask_new n =
     \<lparr>prefix_length = (case map_of netmask_arms n of Some p \<Rightarrow> p | None \<Rightarrow> 0),
      netmask_number = n\<rparr>"

section \<open>Version and flags\<close>

record IpVersion =
  version_number :: u8

definition ipv4 :: IpVersion where
  "ipv4 = \<lparr>version_number = 4\<rparr>"

definition ipv6 :: IpVersion where
  "ipv6 = \<lparr>version_number = 6\<rparr>"

definition IpVersion_custom :: "u8 \<Rightarrow> IpVersion proto_result" where
  "IpVersion_custom value =
     (if value > 0x0F then Err (UnsupportedFieldValue IP_V4_PROTO ''Version'' (unat value))
      else Ok \<lparr>version_number = value\<rparr>)"

datatype Ipv4Flag = Reserved | DontFragment | MoreFragments

fun flag_get_value :: "Ipv4Flag \<Rightarrow> u8" where
  "flag_get_value Reserved = 1"
| "flag_get_value DontFragment = 2"
| "flag_get_value MoreFragments = 4"

text \<open>The cast \<open>flag as u8\<close> gives the position of the variant in its declaration.\<close>

fun flag_as_u8 :: "Ipv4Flag \<Rightarrow> u8" where
  "flag_as_u8 Reserved = 0"
| "flag_as_u8 DontFragment = 1"
| "flag_as_u8 MoreFragments = 2"

record Ipv4Flags =
  flag_bits :: u8

definition Ipv4Flags_new :: "Ipv4Flag list \<Rightarrow> Ipv4Flags" where
  "Ipv4Flags_new fs = \<lparr>flag_bits = fold (\<lambda>flag acc. acc OR flag_get_value flag) fs 0\<rparr>"

definition is_set :: "Ipv4Flags \<Rightarrow> Ipv4Flag \<Rightarrow> bool" where
  "is_set f flag \<longleftrightarrow> (flag_bits f AND flag_as_u8 flag) = NOT 0"

definition Ipv4Flags_try_from :: "u8 \<Rightarrow> Ipv4Flags proto_result" where
  "Ipv4Flags_try_from f =
     (if f AND 0xF8 \<noteq> 0 then Err (UnsupportedFieldValue IP_V4_PROTO ''Flags'' (unat f))
      else Ok \<lparr>flag_bits = f\<rparr>)"

section \<open>The header and its builder\<close>

record IpV4Header =
  ip_version :: IpVersion
  ip_internet_header_length :: u8
  ip_type_of_service :: u8
  ip_total_length :: u16
  ip_identification :: u16
  ip_flags :: Ipv4Flags
  ip_fragment_offset :: u16
  ip_time_to_live :: u8
  ip_protocol :: u8
  ip_header_checksum :: u16
  ip_source_address :: Ipv4Addr
  ip_destination_address :: Ipv4Addr

text \<open>\<open>From<&IpV4Header> for Vec<u8>\<close>: always 20 bytes; options are not kept.\<close>

definition IpV4Header_bytes :: "IpV4Header \<Rightarrow> u8 list" where
  "IpV4Header_bytes h =
     (let flags_with_fragment_offset = ip_fragment_offset h OR push_bit 13 (ucast (flag_bits (ip_flags h)))
      in [push_bit 4 (version_number (ip_version h)) OR (20 div 4), ip_type_of_service h]
         @ to_be_bytes 2 (ip_total_length h)
         @ to_be_bytes 2 (ip_identification h)
         @ to_be_bytes 2 flags_with_fragment_offset
         @ [ip_time_to_live h, ip_protocol h]
         @ to_be_bytes 2 (ip_header_checksum h)
         @ octets (ip_source_address h)
         @ octets (ip_destination_address h))"

record IpV4HeaderBuilder =
  builder_header :: IpV4Header
  builder_identification :: "u16 option"
  builder_header_checksum :: "u16 option"
  builder_internet_header_length :: "u8 option"

definition IpV4HeaderBuilder_new :: "Ipv4Addr \<Rightarrow> Ipv4Addr \<Rightarrow> u8 \<Rightarrow> IpV4HeaderBuilder" where
  "IpV4HeaderBuilder_new source_address destination_address protocol =
     \<lparr>builder_header =
        \<lparr>ip_version = ipv4, ip_internet_header_length = 0, ip_type_of_service = 0,
         ip_total_length = 0, ip_identification = 0, ip_flags = Ipv4Flags_new [],
         ip_fragment_offset = 0, ip_time_to_live = 128, ip_protocol = protocol,
         ip_header_checksum = 0, ip_source_address = source_address,
         ip_destination_address = destination_address\<rparr>,
      builder_identification = None, builder_header_checksum = None,
      builder_internet_header_length = None\<rparr>"

definition force_internet_header_length ::
  "u8 option \<Rightarrow> IpV4HeaderBuilder \<Rightarrow> IpV4HeaderBuilder proto_result" where
  "force_internet_header_length ihl b =
     (case ihl of
        None \<Rightarrow> Ok (b\<lparr>builder_internet_header_length := None\<rparr>)
      | Some l \<Rightarrow>
          if l > 0x0F then Err (UnsupportedFieldValue IP_V4_PROTO ''InternetHeaderLength'' (unat l))
          else Ok (b\<lparr>builder_internet_header_length := Some l\<rparr>))"

definition force_identification :: "u16 option \<Rightarrow> IpV4HeaderBuilder \<Rightarrow> IpV4HeaderBuilder" where
  "force_identification i b = b\<lparr>builder_identification := i\<rparr>"

definition force_header_checksum :: "u16 option \<Rightarrow> IpV4HeaderBuilder \<Rightarrow> IpV4HeaderBuilder" where
  "force_header_checksum c b = b\<lparr>builder_header_checksum := c\<rparr>"

text \<open>\<open>rnd\<close> is the value that \<open>thread_rng().gen::<u16>()\<close> returns in this call.\<close>

definition IpV4HeaderBuilder_build ::
  "endian \<Rightarrow> u16 \<Rightarrow> IpV4HeaderBuilder \<Rightarrow> nat \<Rightarrow> IpV4Header proto_result" where
  "IpV4HeaderBuilder_build e rnd b payload_length =
     (if payload_length > 65535 - 20
      then Err (InvalidLength ''IPv4 payload length without fragmentation'' (65535 - 20) payload_length)
      else
        obind (checked_add 20 (word_of_nat payload_length)) (\<lambda>total_length.
        let header = (builder_header b)
              \<lparr>ip_total_length := total_length,
               ip_identification := (case builder_identification b of Some i \<Rightarrow> i | None \<Rightarrow> rnd),
               ip_internet_header_length :=
                 (case builder_internet_header_length b of Some l \<Rightarrow> l | None \<Rightarrow> 5)\<rparr>
        in obind (case builder_header_checksum b of
                    Some c \<Rightarrow> Ok c
                  | None \<Rightarrow> checksum e (IpV4Header_bytes header)) (\<lambda>c.
           Ok (header\<lparr>ip_header_checksum := c\<rparr>))))"

section \<open>The parser\<close>

definition ip_read :: "nat \<Rightarrow> nat \<Rightarrow> u8 list \<Rightarrow> nat \<Rightarrow> nat \<Rightarrow> ('a::len word) proto_result" where
  "ip_read n line data a b =
     obind (slice_range data a b) (from_be_bytes_macro n IP_V4_PROTO ''rusty-router-proto-ip/src/lib.rs'' line)"

definition IpV4Header_try_from :: "u8 list \<Rightarrow> IpV4Header proto_result" where
  "IpV4Header_try_from data =
     (if length data < 20 then Err (InvalidMinimumLength IP_V4_PROTO 20 (length data)) else
      obind (slice_index data 0) (\<lambda>data0.
      let version = drop_bit 4 (data0 AND 0xF0) in
      if version \<noteq> 4 then Err (UnsupportedFieldValue IP_V4_PROTO ''Version'' (unat version)) else
      let internet_header_length = data0 AND 0x0F in
      obind (checked_mul (ucast internet_header_length :: u16) 4) (\<lambda>header_length.
      if header_length < 20
      then Err (UnsupportedFieldValue IP_V4_PROTO ''Internet Header Length'' (unat internet_header_length)) else
      if unat header_length > length data
      then Err (InvalidMinimumLength IP_V4_PROTO (unat header_length) (length data)) else
      obind (slice_index data 1) (\<lambda>type_of_service.
      obind (ip_read 2 354 data 2 4) (\<lambda>total_length.
      obind (ip_read 2 355 data 4 6) (\<lambda>identification.
      obind (ip_read 2 356 data 6 8) (\<lambda>offset_field.
      obind (checked_mul (offset_field AND 0x1FFF) 8) (\<lambda>fragment_offset.
      obind (slice_index data 6) (\<lambda>data6.
      let flags = drop_bit 5 (data6 AND 0xE0) in
      obind (slice_index data 8) (\<lambda>time_to_live.
      obind (slice_index data 9) (\<lambda>protocol.
      obind (ip_read 2 360 data 10 12) (\<lambda>header_checksum.
      obind (ip_read 4 361 data 12 16) (\<lambda>source_address.
      obind (ip_read 4 362 data 16 20) (\<lambda>destination_address.
      obind (Ipv4Flags_try_from flags) (\<lambda>flags.
      Ok \<lparr>ip_version = ipv4, ip_internet_header_length = internet_header_length,
          ip_type_of_service = type_of_service, ip_total_length = total_length,
          ip_identification = identification, ip_flags = flags,
          ip_fragment_offset = fragment_offset, ip_time_to_live = time_to_live,
          ip_protocol = protocol, ip_header_checksum = header_checksum,
          ip_source_address = source_address,
          ip_destination_address = destination_address\<rparr>)))))))))))))))"

section \<open>Masks and flags\<close>

text \<open>The contiguous mask of \<open>n\<close> leading ones.\<close>

definition netmask_of :: "nat \<Rightarrow> u32" where
  "netmask_of n = push_bit (32 - n) (mask n)"

lemma netmask_arms_eq: "netmask_arms = map (\<lambda>n. (netmask_of n, word_of_nat n)) [0..<33]"
  by code_simp

lemma distinct_netmask_arms: "distinct (map fst netmask_arms)"
  by (simp add: netmask_arms_def)

lemma map_of_netmask_arms: "n \<le> 32 \<Longrightarrow> map_of netmask_arms (netmask_of n) = Some (word_of_nat n)"
  by (subst map_of_eq_Some_iff [OF distinct_netmask_arms]) (auto simp: netmask_arms_eq)

lemma map_of_netmask_arms_None:
  assumes "\<And>n. n \<le> 32 \<Longrightarrow> m \<noteq> netmask_of n"
  shows "map_of netmask_arms m = None"
proof (rule ccontr)
  assume "map_of netmask_arms m \<noteq> None"
  then obtain p where "(m, p) \<in> set netmask_arms" by (meson map_of_SomeD not_None_eq)
  then obtain n where "n < 33" "m = netmask_of n" by (auto simp: netmask_arms_eq)
  with assms [of n] show False by simp
qed

text \<open>The prefix length of a network mask is its number of leading ones for each of the 33
  contiguous masks; every other number gets the prefix length 0. The number itself is kept.\<close>

theorem netmask_prefix_length:
  assumes "n \<le> 32" and "\<And>k. k \<le> 32 \<Longrightarrow> m \<noteq> netmask_of k"
  shows "Ipv4Netmask_new (netmask_of n) = \<lparr>prefix_length = word_of_nat n, netmask_number = netmask_of n\<rparr>
       \<and> Ipv4Netmask_new m = \<lparr>prefix_length = 0, netmask_number = m\<rparr>"
  using assms by (simp add: Ipv4Netmask_new_def map_of_netmask_arms map_of_netmask_arms_None)

lemma not_netmask_witness: "k \<le> 32 \<Longrightarrow> (1 :: u32) \<noteq> netmask_of k"
proof -
  assume "k \<le> 32"
  have "map_of netmask_arms 1 = None" by (simp add: netmask_arms_def)
  with map_of_netmask_arms [OF \<open>k \<le> 32\<close>] show ?thesis by auto
qed

theorem netmask_prefix_length_witness:
  "Ipv4Netmask_new (netmask_of 24) = \<lparr>prefix_length = 24, netmask_number = netmask_of 24\<rparr> \<and>
   Ipv4Netmask_new 1 = \<lparr>prefix_length = 0, netmask_number = 1\<rparr>"
  using netmask_prefix_length [of 24 1] not_netmask_witness by simp

lemma and_0xF8_eq_0_iff: "(f :: u8) AND 0xF8 = 0 \<longleftrightarrow> unat f < 8"
proof -
  have f8: "(0xF8 :: u8) = NOT (mask 3)" by (simp add: mask_numeral)
  have "f AND 0xF8 = 0 \<longleftrightarrow> take_bit 3 f = f"
    unfolding f8 by (auto simp: bit_eq_iff bit_simps)
  also have "\<dots> \<longleftrightarrow> unat f < 8"
  proof
    assume "take_bit 3 f = f"
    then have "unat f mod 2 ^ 3 = unat f" by (metis unat_take_bit)
    moreover have "unat f mod 2 ^ 3 < 2 ^ 3" by (rule mod_less_divisor) simp
    ultimately show "unat f < 8" by simp
  qed (rule take_bit_eq_self, simp)
  finally show ?thesis .
qed

lemma Ipv4Flags_try_from_eq:
  "Ipv4Flags_try_from f =
     (if unat f < 8 then Ok \<lparr>flag_bits = f\<rparr>
      else Err (UnsupportedFieldValue IP_V4_PROTO ''Flags'' (unat f)))"
  by (simp add: Ipv4Flags_try_from_def and_0xF8_eq_0_iff)

lemma Ipv4Flags_new_less: "unat (flag_bits (Ipv4Flags_new fs)) < 8"
proof -
  have "unat (fold (\<lambda>flag acc. acc OR flag_get_value flag) fs a) < 8" if "unat a < 8" for a
    using that
  proof (induction fs arbitrary: a)
    case (Cons f fs)
    have "(a OR flag_get_value f) AND 0xF8 = (a AND 0xF8) OR (flag_get_value f AND 0xF8)"
      by (rule bit_word_eqI) (auto simp: bit_and_iff bit_or_iff)
    then have "(a OR flag_get_value f) AND 0xF8 = 0"
      using Cons.prems by (cases f) (simp_all flip: and_0xF8_eq_0_iff)
    then show ?case using Cons.IH by (simp add: and_0xF8_eq_0_iff)
  qed simp
  then show ?thesis by (simp add: Ipv4Flags_new_def)
qed

text \<open>\<open>Ipv4Flags::is_set\<close> never says that a flag is set: it compares one masked bit with the
  byte of all ones, and masks with the variant's position instead of its bit.\<close>

theorem is_set_never: "\<not> is_set f flag"
proof
  assume "is_set f flag"
  then have "bit (flag_bits f AND flag_as_u8 flag) 7 = bit (NOT 0 :: u8) 7"
    by (simp add: is_set_def)
  then show False by (cases flag) (simp_all add: bit_simps)
qed

section \<open>Parsing\<close>

lemma high_nibble: "drop_bit 4 (x :: u8) AND 15 = drop_bit 4 x"
proof -
  have "unat x div 16 < 16" using unat_byte_less [of x] by (simp add: div_less_iff_less_mult)
  then have "unat (drop_bit 4 x AND mask 4) = unat (drop_bit 4 x)"
    by (simp only: unat_and_mask unat_drop_bit) simp
  then show ?thesis by (simp add: word_unat_eq_iff mask_numeral)
qed

lemma top_flags: "drop_bit 5 (x :: u8) AND 7 = drop_bit 5 x"
proof -
  have "unat x div 32 < 8" using unat_byte_less [of x] by (simp add: div_less_iff_less_mult)
  then have "unat (drop_bit 5 x AND mask 3) = unat (drop_bit 5 x)"
    by (simp only: unat_and_mask unat_drop_bit) simp
  then show ?thesis by (simp add: word_unat_eq_iff mask_numeral)
qed

lemma unat_low_nibble: "unat (x AND 0x0F :: u8) = unat x mod 16"
  using unat_and_mask [of x 4] by (simp add: mask_numeral)

lemma unat_offset: "unat (x AND 0x1FFF :: u16) = unat x mod 8192"
  using unat_and_mask [of x 13] by (simp add: mask_numeral)

lemma ip_read_eq:
  "a + n = b \<Longrightarrow> b \<le> length data \<Longrightarrow> ip_read n line data a b = Ok (from_be_bytes (take n (drop a data)))"
  by (auto simp: ip_read_def)

text \<open>What the bytes of a header say, and which error a parse gives.\<close>

definition ipv4_fields :: "u8 list \<Rightarrow> IpV4Header" where
  "ipv4_fields d =
     \<lparr>ip_version = ipv4, ip_internet_header_length = d ! 0 AND 0x0F,
      ip_type_of_service = d ! 1, ip_total_length = from_be_bytes [d ! 2, d ! 3],
      ip_identification = from_be_bytes [d ! 4, d ! 5],
      ip_flags = \<lparr>flag_bits = drop_bit 5 (d ! 6)\<rparr>,
      ip_fragment_offset = (from_be_bytes [d ! 6, d ! 7] AND 0x1FFF) * 8,
      ip_time_to_live = d ! 8, ip_protocol = d ! 9,
      ip_header_checksum = from_be_bytes [d ! 10, d ! 11],
      ip_source_address = from_be_bytes [d ! 12, d ! 13, d ! 14, d ! 15],
      ip_destination_address = from_be_bytes [d ! 16, d ! 17, d ! 18, d ! 19]\<rparr>"

definition ipv4_parse_spec :: "u8 list \<Rightarrow> IpV4Header proto_result" where
  "ipv4_parse_spec d =
     (let len = length d; version = unat (d ! 0) div 16; ihl = unat (d ! 0) mod 16 in
      if len < 20 then Err (InvalidMinimumLength IP_V4_PROTO 20 len)
      else if version \<noteq> 4 then Err (UnsupportedFieldValue IP_V4_PROTO ''Version'' version)
      else if ihl < 5 then Err (UnsupportedFieldValue IP_V4_PROTO ''Internet Header Length'' ihl)
      else if len < 4 * ihl then Err (InvalidMinimumLength IP_V4_PROTO (4 * ihl) len)
      else Ok (ipv4_fields d))"

lemma flags_of_byte: "Ipv4Flags_try_from (drop_bit 5 x) = Ok \<lparr>flag_bits = drop_bit 5 x\<rparr>"
proof -
  have "unat x div 32 < 8" using unat_byte_less [of x] by (simp add: div_less_iff_less_mult)
  then show ?thesis by (simp add: Ipv4Flags_try_from_eq unat_drop_bit)
qed

lemma header_length_mul:
  fixes l :: u8
  assumes "unat l < 16"
  shows "\<exists>h. checked_mul (ucast l :: u16) 4 = (Ok h :: u16 proto_result) \<and> unat h = 4 * unat l"
proof -
  have "unat (ucast l :: u16) = unat l"
    using assms by (simp add: unsigned_ucast_eq take_bit_eq_mod)
  with assms show ?thesis by (simp add: checked_mul_def unat_word_ariths)
qed

lemma offset_mul: "checked_mul (x AND 0x1FFF :: u16) 8 = (Ok ((x AND 0x1FFF) * 8) :: u16 proto_result)"
proof -
  have "unat x mod 8192 < 8192" by simp
  then show ?thesis by (simp add: checked_mul_def unat_offset)
qed

lemma IpV4Header_try_from_eq: "IpV4Header_try_from d = ipv4_parse_spec d"
proof (cases "length d < 20")
  case True
  then show ?thesis by (simp add: IpV4Header_try_from_def ipv4_parse_spec_def Let_def)
next
  case False
  let ?l = "d ! 0 AND 0x0F"
  have len: "20 \<le> length d" "d \<noteq> []" using False by auto
  have v: "drop_bit 4 (d ! 0) = 4 \<longleftrightarrow> unat (d ! 0) div 16 = 4"
    by (simp add: word_unat_eq_iff unat_drop_bit)
  obtain h where h: "checked_mul (ucast ?l :: u16) 4 = (Ok h :: u16 proto_result)"
      and uh: "unat h = 4 * (unat (d ! 0) mod 16)"
    using header_length_mul [of ?l] by (auto simp: unat_low_nibble)
  have h20: "h < 20 \<longleftrightarrow> unat (d ! 0) mod 16 < 5"
    by (simp add: word_less_nat_alt uh)
  show ?thesis
    using len
    by (simp add: IpV4Header_try_from_def ipv4_parse_spec_def Let_def high_nibble top_flags v h h20 uh
        unat_drop_bit unat_low_nibble ip_read_eq offset_mul flags_of_byte take_2_drop take_4_drop
        ipv4_fields_def)
qed

text \<open>C30: Parsing a header never panics on any bytes from the network and ends in one of exactly five
  ways, in this order: too short, not version 4, a header length field below 5, fewer bytes than
  the header length says, or the header that the bytes encode. The conversion errors and the flag
  error that the code also handles cannot occur.\<close>

theorem ipv4_parse: "IpV4Header_try_from d = ipv4_parse_spec d"
  by (rule IpV4Header_try_from_eq)

lemma ipv4_parse_OkD: "IpV4Header_try_from d = Ok h \<Longrightarrow> h = ipv4_fields d"
  by (simp add: IpV4Header_try_from_eq ipv4_parse_spec_def Let_def split: if_splits)

text \<open>The names of two flags are exchanged: the bit that a parsed header reports as
  \<open>MoreFragments\<close> is the reserved bit of the wire format (the top bit of byte 6), and the wire's
  more-fragments bit is reported as \<open>Reserved\<close>; only \<open>DontFragment\<close> is where the protocol has it.\<close>

theorem ipv4_flag_order:
  assumes "IpV4Header_try_from d = Ok h"
  shows "(flag_bits (ip_flags h) AND flag_get_value MoreFragments \<noteq> 0) = bit (d ! 6) 7 \<and>
    (flag_bits (ip_flags h) AND flag_get_value DontFragment \<noteq> 0) = bit (d ! 6) 6 \<and>
    (flag_bits (ip_flags h) AND flag_get_value Reserved \<noteq> 0) = bit (d ! 6) 5"
proof -
  have h: "flag_bits (ip_flags h) = drop_bit 5 (d ! 6)"
    using ipv4_parse_OkD [OF assms] by (simp add: ipv4_fields_def)
  have *: "(w AND 2 ^ n \<noteq> 0) = bit w n" if "n < 8" for w :: u8 and n
    using that by (simp add: and_exp_eq_0_iff_not_bit)
  show ?thesis
    using * [of 2 "drop_bit 5 (d ! 6)"] * [of 1 "drop_bit 5 (d ! 6)"] * [of 0 "drop_bit 5 (d ! 6)"]
    by (simp add: h bit_drop_bit_eq)
qed

definition sample_packet :: "u8 list" where
  "sample_packet =
     [0x45, 12, 34, 56, 78, 90, 0xD1, 98, 127, 89, 0x88, 0x8f, 127, 0, 0, 1, 8, 9, 10, 11]"

theorem ipv4_flag_order_witness:
  "\<exists>h. IpV4Header_try_from sample_packet = Ok h \<and>
     flag_bits (ip_flags h) AND flag_get_value MoreFragments \<noteq> 0"
proof -
  have ok: "IpV4Header_try_from sample_packet = Ok (ipv4_fields sample_packet)"
    by (simp add: IpV4Header_try_from_eq ipv4_parse_spec_def sample_packet_def)
  have "bit (sample_packet ! 6) 7" by (simp add: sample_packet_def)
  with ipv4_flag_order [OF ok] ok show ?thesis by blast
qed

section \<open>Serializing\<close>

definition ip_head :: "IpV4Header \<Rightarrow> u8 list" where
  "ip_head h =
     [push_bit 4 (version_number (ip_version h)) OR 5, ip_type_of_service h]
     @ to_be_bytes 2 (ip_total_length h) @ to_be_bytes 2 (ip_identification h)
     @ to_be_bytes 2 (ip_fragment_offset h OR push_bit 13 (ucast (flag_bits (ip_flags h))))
     @ [ip_time_to_live h, ip_protocol h]"

definition ip_addresses :: "IpV4Header \<Rightarrow> u8 list" where
  "ip_addresses h = octets (ip_source_address h) @ octets (ip_destination_address h)"

lemma IpV4Header_bytes_eq:
  "IpV4Header_bytes h = ip_head h @ to_be_bytes 2 (ip_header_checksum h) @ ip_addresses h"
  by (simp add: IpV4Header_bytes_def ip_head_def ip_addresses_def)

lemma length_IpV4Header_bytes [simp]: "length (IpV4Header_bytes h) = 20"
  by (simp add: IpV4Header_bytes_def octets_def)

lemma ip_head_checksum [simp]: "ip_head (h\<lparr>ip_header_checksum := c\<rparr>) = ip_head h"
  and ip_addresses_checksum [simp]: "ip_addresses (h\<lparr>ip_header_checksum := c\<rparr>) = ip_addresses h"
  by (simp_all add: ip_head_def ip_addresses_def)

lemma even_ip_head: "even (length (ip_head h))"
  by (simp add: ip_head_def)

lemma to_be_bytes_2_0: "to_be_bytes 2 (0 :: u16) = [0, 0]"
  by (simp add: to_be_bytes_evals)

text \<open>The header with its checksum filled in passes the receiver's test.\<close>

lemma IpV4Header_bytes_verify:
  assumes "ip_header_checksum h = 0"
  shows "internet_checksum (IpV4Header_bytes (h\<lparr>ip_header_checksum := internet_checksum (IpV4Header_bytes h)\<rparr>)) = 0"
  using assms internet_checksum_patch [OF even_ip_head [of h] refl, of "ip_addresses h"]
  by (simp add: IpV4Header_bytes_eq to_be_bytes_2_0)

section \<open>The builder\<close>

text \<open>What every builder made by \<open>new\<close> and the \<open>force_*\<close> methods satisfies.\<close>

definition builder_ok :: "IpV4HeaderBuilder \<Rightarrow> bool" where
  "builder_ok b \<longleftrightarrow>
     (\<exists>src dst proto. builder_header b = builder_header (IpV4HeaderBuilder_new src dst proto)) \<and>
     (\<forall>l. builder_internet_header_length b = Some l \<longrightarrow> l \<le> 0x0F)"

lemma builder_ok_new: "builder_ok (IpV4HeaderBuilder_new src dst proto)"
  by (auto simp: builder_ok_def IpV4HeaderBuilder_new_def)

lemma builder_ok_force:
  "builder_ok b \<Longrightarrow> builder_ok (force_identification i b)"
  "builder_ok b \<Longrightarrow> builder_ok (force_header_checksum c b)"
  "builder_ok b \<Longrightarrow> force_internet_header_length l b = Ok b' \<Longrightarrow> builder_ok b'"
  by (simp add: builder_ok_def force_identification_def)
    (simp add: builder_ok_def force_header_checksum_def,
     fastforce simp: builder_ok_def force_internet_header_length_def split: option.splits if_splits)

definition built_header :: "u16 \<Rightarrow> IpV4HeaderBuilder \<Rightarrow> nat \<Rightarrow> IpV4Header" where
  "built_header rnd b n =
     (builder_header b)
       \<lparr>ip_total_length := word_of_nat (20 + n),
        ip_identification := (case builder_identification b of Some i \<Rightarrow> i | None \<Rightarrow> rnd),
        ip_internet_header_length :=
          (case builder_internet_header_length b of Some l \<Rightarrow> l | None \<Rightarrow> 5)\<rparr>"

lemma build_eq:
  "IpV4HeaderBuilder_build e rnd b n =
     (if n > 65515
      then Err (InvalidLength ''IPv4 payload length without fragmentation'' 65515 n)
      else Ok ((built_header rnd b n)\<lparr>ip_header_checksum :=
             (case builder_header_checksum b of Some c \<Rightarrow> c
              | None \<Rightarrow> internet_checksum (IpV4Header_bytes (built_header rnd b n)))\<rparr>))"
proof (cases "n > 65515")
  case False
  have "unat (word_of_nat n :: u16) = n" using False by (intro unat_word_of_nat) simp
  then have "checked_add 20 (word_of_nat n) = (Ok (word_of_nat (20 + n)) :: u16 proto_result)"
    using False by (simp add: checked_add_def)
  with False show ?thesis
    by (simp add: IpV4HeaderBuilder_build_def Let_def built_header_def checksum_Ok split: option.split)
qed (simp add: IpV4HeaderBuilder_build_def)

text \<open>C35: A builder made by \<open>new\<close> and the \<open>force_*\<close> methods builds a header for every payload that
  fits in one packet and no other: no panic, the total length is the header's 20 bytes plus the
  payload, and unless a checksum is forced the serialized header passes the receiver's test.\<close>

theorem build_header:
  assumes "builder_ok b" and "builder_header_checksum b = None"
  shows "(n > 65515 \<longrightarrow> IpV4HeaderBuilder_build e rnd b n =
            Err (InvalidLength ''IPv4 payload length without fragmentation'' 65515 n)) \<and>
         (n \<le> 65515 \<longrightarrow> (\<exists>h. IpV4HeaderBuilder_build e rnd b n = Ok h \<and>
            unat (ip_total_length h) = 20 + n \<and>
            internet_checksum (IpV4Header_bytes h) = 0))"
proof -
  let ?h = "built_header rnd b n"
  have "ip_header_checksum ?h = 0"
    using assms(1) by (auto simp: builder_ok_def built_header_def IpV4HeaderBuilder_new_def)
  note verify = IpV4Header_bytes_verify [OF this]
  have "unat (ip_total_length ?h) = 20 + n" if "n \<le> 65515"
    unfolding built_header_def using that by (simp add: unat_word_of_nat del: of_nat_add)
  with verify assms(2) show ?thesis by (auto simp: build_eq)
qed

theorem build_header_witness:
  "\<exists>h. IpV4HeaderBuilder_build Little 7 (IpV4HeaderBuilder_new 1 2 89) 44 = Ok h \<and>
     unat (ip_total_length h) = 64 \<and> internet_checksum (IpV4Header_bytes h) = 0"
  using build_header [OF builder_ok_new, of 1 2 89 44 Little 7]
  by (simp add: IpV4HeaderBuilder_new_def)

section \<open>Round trip\<close>

lemma from_be_bytes_2: "from_be_bytes [ucast (drop_bit 8 w), ucast w] = (w :: u16)"
  using from_be_to_be_bytes_widths(2) [of w] by (simp add: to_be_bytes_evals)

lemma from_be_bytes_4:
  "from_be_bytes [ucast (drop_bit 24 w), ucast (drop_bit 16 w), ucast (drop_bit 8 w), ucast w] = (w :: u32)"
  using from_be_to_be_bytes_widths(3) [of w] by (simp add: to_be_bytes_evals)

lemma offset_of_field:
  assumes "unat fo < 2 ^ 13"
  shows "(fo OR push_bit 13 (ucast (fl :: u8))) AND 0x1FFF = (fo :: u16)"
proof -
  have fo: "take_bit 13 fo = fo" using assms by (rule take_bit_eq_self)
  have "(fo OR push_bit 13 (ucast fl)) AND mask 13 = take_bit 13 fo"
    by (rule bit_word_eqI) (auto simp: bit_simps)
  moreover have "(0x1FFF :: u16) = mask 13" by (simp add: mask_numeral)
  ultimately show ?thesis by (simp only: fo)
qed

lemma flags_of_field:
  assumes "unat fo < 2 ^ 13" and "unat fl < 8"
  shows "drop_bit 5 (ucast (drop_bit 8 (fo OR push_bit 13 (ucast fl) :: u16)) :: u8) = fl"
proof -
  have fo: "take_bit 13 fo = fo" and fl: "take_bit 3 fl = fl"
    using assms by (simp_all add: take_bit_eq_self)
  have fo': "\<not> bit fo n" if "13 \<le> n" for n
    using that by (subst fo [symmetric]) (simp add: bit_simps)
  have fl': "n < 3" if "bit fl n" for n
    using that fl by (metis bit_take_bit_iff)
  show ?thesis
    by (rule bit_word_eqI) (auto simp: bit_simps fo' dest: fl')
qed

lemma IpV4Header_round_trip:
  assumes "ip_version h = ipv4" and "unat (flag_bits (ip_flags h)) < 8"
    and "unat (ip_fragment_offset h) < 2 ^ 13"
  shows "IpV4Header_try_from (IpV4Header_bytes h @ payload)
       = Ok (h\<lparr>ip_internet_header_length := 5,
              ip_fragment_offset := ip_fragment_offset h * 8\<rparr>)"
proof -
  let ?d = "IpV4Header_bytes h @ payload"
  have "?d ! 0 = 0x45" using assms(1) by (simp add: IpV4Header_bytes_def ipv4_def)
  then have "IpV4Header_try_from ?d = Ok (ipv4_fields ?d)"
    by (simp add: IpV4Header_try_from_eq ipv4_parse_spec_def)
  also have "ipv4_fields ?d = h\<lparr>ip_internet_header_length := 5,
              ip_fragment_offset := ip_fragment_offset h * 8\<rparr>"
    using assms(1)
    by (simp add: ipv4_fields_def IpV4Header_bytes_def Let_def octets_def to_be_bytes_evals ipv4_def
        from_be_bytes_2 from_be_bytes_4 flags_of_field [OF assms(3,2)]
        offset_of_field [OF assms(3)] del: drop_bit_or drop_bit_push_bit)
  finally show ?thesis .
qed




text \<open>On the headers that the builder makes, serializer and parser are inverse.\<close>

definition unfragmented :: "IpV4Header \<Rightarrow> bool" where
  "unfragmented h \<longleftrightarrow> ip_version h = ipv4 \<and> unat (flag_bits (ip_flags h)) < 8 \<and>
     ip_fragment_offset h = 0 \<and> ip_internet_header_length h = 5"

interpretation ip_wire: wire_format IpV4Header_bytes IpV4Header_try_from unfragmented
  by unfold_locales (auto simp: unfragmented_def IpV4Header_round_trip)

lemma built_header_unfragmented:
  assumes "builder_ok b" "builder_internet_header_length b = None"
    and "IpV4HeaderBuilder_build e rnd b n = Ok h"
  shows "unfragmented h"
  using assms
  by (auto simp: build_eq unfragmented_def builder_ok_def built_header_def IpV4HeaderBuilder_new_def
      Ipv4Flags_new_def split: if_splits)

end
