(* ===== verification/Router_Config.thy ===== *)
theory Router_Config
  imports Rust_Prelude "HOL-Library.Option_ord" "HOL-Library.List_Lexorder" "HOL-Library.Char_ord"
begin

text \<open>
  The data that the router's parts exchange, \<open>rusty-router-model/src\<close>: the configuration
  (\<open>config.rs\<close>) with the order of IP addresses that the derived \<open>Ord\<close> gives, the status
  values (\<open>status.rs\<close>), and the registration manager (\<open>utils.rs\<close>) with its registrations,
  which unregister when dropped.

  A \<open>String\<close> is a \<open>string\<close> of its bytes; its \<open>Ord\<close> is the lexicographic order of the bytes,
  and \<open>None\<close> comes before \<open>Some\<close>, as in the library's orders of lists and options.
\<close>

section \<open>Addresses\<close>

text \<open>\<open>std::net::IpAddr\<close>, the addresses as numbers in network order.\<close>

datatype IpAddr = V4 u32 | V6 u128

instantiation IpAddr :: linorder
begin

fun less_eq_IpAddr :: "IpAddr \<Rightarrow> IpAddr \<Rightarrow> bool" where
  "less_eq_IpAddr (V4 a) (V4 b) = (a \<le> b)"
| "less_eq_IpAddr (V4 _) (V6 _) = True"
| "less_eq_IpAddr (V6 _) (V4 _) = False"
| "less_eq_IpAddr (V6 a) (V6 b) = (a \<le> b)"

definition less_IpAddr :: "IpAddr \<Rightarrow> IpAddr \<Rightarrow> bool" where
  "less_IpAddr a b \<longleftrightarrow> a \<le> b \<and> \<not> b \<le> a"

instance
proof
  fix a b c :: IpAddr
  show "a < b \<longleftrightarrow> a \<le> b \<and> \<not> b \<le> a" by (rule less_IpAddr_def)
  show "a \<le> a" by (cases a) simp_all
  show "a \<le> b \<Longrightarrow> b \<le> c \<Longrightarrow> a \<le> c" by (cases a; cases b; cases c) simp_all
  show "a \<le> b \<Longrightarrow> b \<le> a \<Longrightarrow> a = b" by (cases a; cases b) simp_all
  show "a \<le> b \<or> b \<le> a" by (cases a; cases b) (simp_all add: linear)
qed

end

datatype IpAddress = IpAddress (ip_addr: IpAddr) (ip_prefix: u64)

definition IpAddress_new :: "IpAddr \<Rightarrow> u64 \<Rightarrow> IpAddress" where
  "IpAddress_new address prefix = IpAddress address prefix"

instantiation IpAddress :: linorder
begin

fun less_eq_IpAddress :: "IpAddress \<Rightarrow> IpAddress \<Rightarrow> bool" where
  "less_eq_IpAddress (IpAddress a p) (IpAddress b q) = (a < b \<or> a = b \<and> p \<le> q)"

definition less_IpAddress :: "IpAddress \<Rightarrow> IpAddress \<Rightarrow> bool" where
  "less_IpAddress a b \<longleftrightarrow> a \<le> b \<and> \<not> b \<le> a"

instance
proof
  fix a b c :: IpAddress
  show "a < b \<longleftrightarrow> a \<le> b \<and> \<not> b \<le> a" by (rule less_IpAddress_def)
  show "a \<le> a" by (cases a) simp_all
  show "a \<le> b \<Longrightarrow> b \<le> c \<Longrightarrow> a \<le> c" by (cases a; cases b; cases c) (auto intro: less_trans)
  show "a \<le> b \<Longrightarrow> b \<le> a \<Longrightarrow> a = b" by (cases a; cases b) auto
  show "a \<le> b \<or> b \<le> a" by (cases a; cases b) auto
qed

end

section \<open>Errors\<close>

text \<open>\<open>rusty-router-common/src/error.rs\<close>; an \<open>io::Error\<close> is represented by its text.\<close>

datatype RouterError =
    IllegalState string
  | Communication string
  | Io string string
  | System string
  | Protocol string

type_synonym 'a router_result = "(RouterError, 'a) outcome"

section \<open>Configuration\<close>

datatype NetworkLinkType = GenericInterface

record NetworkLink =
  link_device :: string
  network_link_type :: NetworkLinkType

record NetworkInterface =
  interface_vrf :: "string option"
  interface_network_link :: string
  interface_ip_addresses :: "IpAddress list"

datatype RouteSource = Static

datatype VrfTable = Base | VirtualTable u64

record StaticRoute =
  route_prefix :: IpAddress
  next_hop :: string
  metric :: u64

record Vrf =
  vrf_table :: VrfTable
  static_routes :: "StaticRoute list"
  vrf_priority :: "(RouteSource, u64) hash_map"

record Router =
  network_links :: "(string, NetworkLink) hash_map"
  network_interfaces :: "(string, NetworkInterface) hash_map"
  vrfs :: "(string, Vrf) hash_map"

text \<open>What holds of the configuration because its parts are maps.\<close>

definition config_ok :: "Router \<Rightarrow> bool" where
  "config_ok c \<longleftrightarrow> hm_wf (network_links c) \<and> hm_wf (network_interfaces c)"

section \<open>Status\<close>

datatype NetworkLinkOperationalState = Up | Down | Unknown | NotFound | Misconfigured

fun display_state :: "NetworkLinkOperationalState \<Rightarrow> string" where
  "display_state Up = ''Up''"
| "display_state Down = ''Down''"
| "display_state Unknown = ''Unknown''"
| "display_state NotFound = ''NotFound''"
| "display_state Misconfigured = ''Misconfigured''"

record NetworkLinkStatus =
  link_name :: "string option"
  status_device :: string
  operational_state :: NetworkLinkOperationalState

record NetworkInterfaceStatus =
  interface_name :: "string option"
  status_addresses :: "IpAddress list"
  network_link_status :: NetworkLinkStatus

datatype NetworkStatusUpdate = LinkUpdate NetworkLinkStatus | InterfaceUpdate NetworkInterfaceStatus

section \<open>The registration manager\<close>

text \<open>
  The shared map is threaded through; a \<open>Registration\<close> is its identifier. The identifier that
  \<open>Uuid::new_v4\<close> draws is an argument. The lock is held for one operation at a time.
\<close>

datatype RegistrationManagerError = RetryableFailure

definition drop_registration :: "string \<Rightarrow> (string, 'a) hash_map \<Rightarrow> (string, 'a) hash_map" where
  "drop_registration uuid registrations = hm_remove uuid registrations"

definition perform_registration ::
  "string \<Rightarrow> 'a \<Rightarrow> (string, 'a) hash_map \<Rightarrow> RegistrationManagerError option \<times> (string, 'a) hash_map" where
  "perform_registration uuid item registrations =
     (if hm_get registrations uuid \<noteq> None then (Some RetryableFailure, registrations)
      else (None, hm_insert uuid item registrations))"

text \<open>The registration exists before \<open>perform_registration\<close> runs, so the early return drops it.\<close>

definition register ::
  "string \<Rightarrow> 'a \<Rightarrow> (string, 'a) hash_map \<Rightarrow>
   (RegistrationManagerError, string) outcome \<times> (string, 'a) hash_map" where
  "register uuid item registrations =
     (let registration = uuid in
      case perform_registration uuid item registrations of
        (Some e, registrations) \<Rightarrow> (Err e, drop_registration registration registrations)
      | (None, registrations) \<Rightarrow> (Ok registration, registrations))"

definition get_registered_items :: "order_choice \<Rightarrow> (string, 'a) hash_map \<Rightarrow> 'a list" where
  "get_registered_items f registrations = iter_order f (map snd registrations)"

lemma register_eq:
  "register uuid item m =
     (if hm_get m uuid = None then (Ok uuid, hm_insert uuid item m)
      else (Err RetryableFailure, hm_remove uuid m))"
  by (simp add: register_def perform_registration_def drop_registration_def Let_def)

text \<open>
  Histories of a manager: its map, the registrations its callers hold with their items, and
  whether some \<open>register\<close> has failed because of an identifier already in use.
\<close>

inductive reg_reach :: "bool \<Rightarrow> (string, 'a) hash_map \<Rightarrow> (string \<times> 'a) multiset \<Rightarrow> bool" where
  reg_new: "reg_reach False [] {#}"
| reg_register: "reg_reach c m held \<Longrightarrow> register uuid item m = (Ok ticket, m') \<Longrightarrow>
    reg_reach c m' (add_mset (ticket, item) held)"
| reg_collide: "reg_reach c m held \<Longrightarrow> register uuid item m = (Err e, m') \<Longrightarrow> reg_reach True m' held"
| reg_drop: "reg_reach c m (add_mset (ticket, item) held) \<Longrightarrow> reg_reach c (drop_registration ticket m) held"

lemma reg_reach_invariant:
  "reg_reach c m held \<Longrightarrow> hm_wf m \<and> set m \<subseteq> set_mset held \<and> (\<not> c \<longrightarrow> mset m = held)"
proof (induction rule: reg_reach.induct)
  case (reg_register c m held uuid item ticket m')
  then show ?case
    by (auto simp: register_eq hm_insert_fresh map_of_eq_None_iff split: if_splits)
next
  case (reg_collide c m held uuid item e m')
  then show ?case by (auto simp: register_eq set_hm_remove split: if_splits)
next
  case (reg_drop c m ticket item held)
  then have wf: "hm_wf m" by simp
  have "mset (hm_remove ticket m) = held" if "\<not> c"
  proof -
    have m: "mset m = add_mset (ticket, item) held" using reg_drop that by simp
    then have "(ticket, item) \<in> set m" by (metis set_mset_mset union_single_eq_member)
    then have "hm_get m ticket = Some item" using wf by simp
    with mset_hm_remove [OF wf this] m show ?thesis by simp
  qed
  moreover have "set (hm_remove ticket m) \<subseteq> set_mset held"
    using reg_drop by (auto simp: set_hm_remove)
  ultimately show ?case using wf by (simp add: drop_registration_def)
qed simp_all

text \<open>C38: In every history of a registration manager its snapshot holds only items whose registration
  is still held (a dropped registration is gone), in whatever order the map is iterated; as long
  as no identifier has collided it holds each of them exactly once.\<close>

theorem registration_snapshot:
  assumes "reg_reach c m held"
  shows "set (get_registered_items f m) \<subseteq> snd ` set_mset held \<and>
    (\<not> c \<longrightarrow> mset (get_registered_items f m) = image_mset snd held)"
  using reg_reach_invariant [OF assms] by (auto simp: get_registered_items_def)

theorem registration_snapshot_witness:
  "mset (get_registered_items (\<lambda>_. 0) [(''a'', 12 :: nat)]) = {#12#}"
proof -
  have "reg_reach False [(''a'', 12)] {#(''a'', 12 :: nat)#}"
    by (rule reg_register [OF reg_new, of "''a''"]) (simp add: register_eq)
  from registration_snapshot [OF this, of "\<lambda>_. 0"] show ?thesis by simp
qed

text \<open>When the drawn identifier is in use, \<open>register\<close> fails and the registration it made before the
  check is dropped on the early return, which removes the item of the other caller: the failed
  call unregisters a registration that is still held.\<close>

theorem register_collision:
  assumes "hm_get m uuid = Some other"
  shows "register uuid item m = (Err RetryableFailure, hm_remove uuid m) \<and>
    hm_get (snd (register uuid item m)) uuid = None"
  using assms by (simp add: register_eq)

theorem register_collision_witness:
  "hm_get (snd (register ''a'' 13 [(''a'', 12 :: nat)])) ''a'' = None"
  using register_collision [of "[(''a'', 12 :: nat)]" "''a''" 12 13] by simp

section \<open>Orders used for lists\<close>

text \<open>Sorting by an optional name is stable and puts the entries without one first.\<close>

lemma sorted_key_None_first:
  fixes k :: "'a \<Rightarrow> string option"
  assumes "sorted (map k xs)" "i < j" "j < length xs" "k (xs ! j) = None"
  shows "k (xs ! i) = None"
proof -
  have "k (xs ! i) \<le> k (xs ! j)" using assms(1-3) by (simp add: sorted_iff_nth_mono)
  with assms(4) show ?thesis by (cases "k (xs ! i)") simp_all
qed

end
