(* ===== verification/Packet_Network.thy ===== *)
theory Packet_Network
  imports Ipv4_Packet Router_Config
begin

text \<open>
  Packet sockets and the poller, \<open>rusty-router-platform-linux/src/network.rs\<close>: sending an IPv4
  packet, the listener that reads a socket until it would block, the poller's loop, and the
  life of sockets, tickets and listeners as a state machine.

  System calls are arguments: what \<open>sendto\<close>, \<open>recv\<close>, \<open>epoll_wait\<close>, \<open>epoll_ctl\<close>, \<open>socket\<close> and
  \<open>setsockopt\<close> return in a run. An \<open>Errno\<close> is represented by its text.
\<close>

section \<open>Protocol errors as router errors\<close>

fun show_nat :: "nat \<Rightarrow> string" where
  "show_nat n = (if n < 10 then [char_of (48 + n)] else show_nat (n div 10) @ [char_of (48 + n mod 10)])"

declare show_nat.simps [simp del]

definition hex_digit :: "nat \<Rightarrow> char" where
  "hex_digit d = (if d < 10 then char_of (48 + d) else char_of (87 + d))"

text \<open>The format \<open>{:#06x}\<close> of a 16-bit number.\<close>

definition show_hex4 :: "u16 \<Rightarrow> string" where
  "show_hex4 w = ''0x'' @ map (\<lambda>k. hex_digit (unat w div 16 ^ k mod 16)) [3, 2, 1, 0]"

fun display_protocol_error :: "ProtocolError \<Rightarrow> string" where
  "display_protocol_error (InvalidMinimumLength p n m) =
     ''['' @ p @ ''] Expecting data of at least '' @ show_nat n @ '' bytes but only '' @ show_nat m @ '' bytes are available''"
| "display_protocol_error (InvalidHeaderLength p n m) =
     ''['' @ p @ ''] Expecting header to be '' @ show_nat n @ '' bytes but only '' @ show_nat m @ '' bytes are available''"
| "display_protocol_error (InvalidLength p n m) =
     ''['' @ p @ ''] Expecting data to be '' @ show_nat n @ '' bytes but '' @ show_nat m @ '' bytes are available''"
| "display_protocol_error (InvalidBitBoundary p n) =
     ''['' @ p @ ''] Expecting data to be aligned with a word boundary but was '' @ show_nat n @ '' bytes long''"
| "display_protocol_error (UnsupportedFieldValue p f n) =
     ''['' @ p @ ''] The value '' @ [char_of (39 :: nat)] @ show_nat n @ [char_of (39 :: nat)] @ '' for field '' @
     [char_of (39 :: nat)] @ f @ [char_of (39 :: nat)] @ '' is not supported''"
| "display_protocol_error (ConversionError p f n) =
     ''['' @ p @ ''] Failed to perform byte conversion '' @ f @ '':'' @ show_nat n"
| "display_protocol_error (InvalidChecksum p e a) =
     ''['' @ p @ ''] Checksum mismatch.  Expected: '' @ show_hex4 e @ '', Actual: '' @ show_hex4 a"

definition error_from_ProtocolError :: "ProtocolError \<Rightarrow> RouterError" where
  "error_from_ProtocolError e = Protocol (display_protocol_error e)"

section \<open>Sending\<close>

text \<open>The identification and the checksum are left to the kernel; the random number drawn by the
  builder is an argument, though a forced identification makes it unused.\<close>

definition send_ipv4 ::
  "endian \<Rightarrow> u16 \<Rightarrow> Ipv4Addr \<Rightarrow> u8 \<Rightarrow> (u8 list \<Rightarrow> Ipv4Addr \<Rightarrow> string + nat) \<Rightarrow> Ipv4Addr \<Rightarrow> u8 list \<Rightarrow>
   nat router_result" where
  "send_ipv4 e rnd source protocol sendto to data =
     (let builder = IpV4HeaderBuilder_new source to protocol;
          builder = force_identification (Some 0) builder;
          builder = force_header_checksum (Some 0) builder
      in obind (map_err error_from_ProtocolError (IpV4HeaderBuilder_build e rnd builder (length data))) (\<lambda>header.
         let packet = IpV4Header_bytes header @ data
         in case sendto packet to of Inl err \<Rightarrow> Err (System err) | Inr n \<Rightarrow> Ok n))"

section \<open>The listener of a socket\<close>

datatype recv_result = Got "u8 list" | WouldBlock | UnknownErrno | OtherErrno string

record 's event_handler =
  on_recv :: "u8 list \<Rightarrow> 's \<Rightarrow> 's"
  on_error :: "string \<Rightarrow> 's \<Rightarrow> 's"

text \<open>\<open>recv\<close> fills the front of the buffer; what does not fit is cut off.\<close>

definition recv_into :: "u8 list \<Rightarrow> u8 list \<Rightarrow> nat \<times> u8 list" where
  "recv_into datagram buffer =
     (min (length datagram) (length buffer), take (length buffer) datagram @ drop (length datagram) buffer)"

text \<open>The loop reads until the socket would block. Without a result: it is still reading.\<close>

fun recv_from_socket ::
  "'s event_handler \<Rightarrow> recv_result list \<Rightarrow> u8 list \<Rightarrow> 's \<Rightarrow> ('s \<times> recv_result list) option" where
  "recv_from_socket h [] buffer st = None"
| "recv_from_socket h (Got datagram # results) buffer st =
     (let (size, buffer) = recv_into datagram buffer
      in recv_from_socket h results buffer (on_recv h (take size buffer) st))"
| "recv_from_socket h (WouldBlock # results) buffer st = Some (st, results)"
| "recv_from_socket h (UnknownErrno # results) buffer st = recv_from_socket h results buffer st"
| "recv_from_socket h (OtherErrno errno # results) buffer st =
     recv_from_socket h results buffer (on_error h (''Failed to read from socket: '' @ errno) st)"

definition listener_recv :: "'s event_handler \<Rightarrow> recv_result list \<Rightarrow> 's \<Rightarrow> ('s \<times> recv_result list) option" where
  "listener_recv h results st = recv_from_socket h results (replicate 65535 0) st"

section \<open>The poller's loop\<close>

text \<open>The poller as its owner sees it; \<open>poller_task\<close> clears \<open>poller_running\<close> when it ends.\<close>

record poller =
  epoll_fd :: nat
  poller_running :: bool
  controller_running :: bool

definition Poller_new :: "string + nat \<Rightarrow> poller router_result" where
  "Poller_new epoll_create = (case epoll_create of
     Inl e \<Rightarrow> Err (System e)
   | Inr fd \<Rightarrow> Ok \<lparr>epoll_fd = fd, poller_running = True, controller_running = True\<rparr>)"

text \<open>The descriptor that is closed, and the flags cleared.\<close>

definition drop_poller :: "poller \<Rightarrow> nat \<times> poller" where
  "drop_poller p = (epoll_fd p, p\<lparr>poller_running := False, controller_running := False\<rparr>)"

text \<open>An event of \<open>epoll_wait\<close>: whether it has \<open>EPOLLIN\<close>, and the handler's number.\<close>

type_synonym epoll_event = "bool \<times> u64"

definition poller_process_messages :: "string + epoll_event list \<Rightarrow> epoll_event list router_result" where
  "poller_process_messages wait = (case wait of Inl e \<Rightarrow> Err (System e) | Inr events \<Rightarrow> Ok events)"

text \<open>
  The loop with the two flags; each turn gets whether the owner has not cleared them and what
  \<open>epoll_wait\<close> returns. The result is the batches handed to tasks; at the end \<open>poller_running\<close> is
  false.
\<close>

fun poller_task :: "bool \<Rightarrow> (bool \<times> (string + epoll_event list)) list \<Rightarrow> epoll_event list list \<Rightarrow>
    (bool \<times> epoll_event list list) option" where
  "poller_task False turns batches = Some (False, batches)"
| "poller_task True [] batches = None"
| "poller_task True ((running, wait) # turns) batches =
     (if \<not> running then Some (False, batches)
      else case poller_process_messages wait of
        Ok events \<Rightarrow> poller_task True turns (if events = [] then batches else batches @ [events])
      | Err e \<Rightarrow> poller_task False turns batches
      | Panic \<Rightarrow> None)"

text \<open>The task of a batch: the listeners to run, in the order of the events.\<close>

definition dispatch :: "(u64, 'h) hash_map \<Rightarrow> epoll_event list \<Rightarrow> 'h list" where
  "dispatch handlers events =
     List.map_filter (\<lambda>(readable, data). if readable then hm_get handlers data else None) events"

section \<open>What is sent\<close>

text \<open>The header of every packet sent for a payload of a given length.\<close>

definition sent_header :: "Ipv4Addr \<Rightarrow> Ipv4Addr \<Rightarrow> u8 \<Rightarrow> nat \<Rightarrow> IpV4Header" where
  "sent_header source to protocol n =
     \<lparr>ip_version = ipv4, ip_internet_header_length = 5, ip_type_of_service = 0,
      ip_total_length = word_of_nat (20 + n), ip_identification = 0, ip_flags = Ipv4Flags_new [],
      ip_fragment_offset = 0, ip_time_to_live = 128, ip_protocol = protocol, ip_header_checksum = 0,
      ip_source_address = source, ip_destination_address = to\<rparr>"

lemma send_ipv4_eq:
  "send_ipv4 e rnd source protocol sendto to data =
     (if length data > 65515
      then Err (error_from_ProtocolError (InvalidLength ''IPv4 payload length without fragmentation'' 65515 (length data)))
      else case sendto (IpV4Header_bytes (sent_header source to protocol (length data)) @ data) to of
        Inl err \<Rightarrow> Err (System err) | Inr n \<Rightarrow> Ok n)"
  by (simp add: send_ipv4_def build_eq Let_def built_header_def sent_header_def IpV4HeaderBuilder_new_def
      force_identification_def force_header_checksum_def)

lemma sent_header_unfragmented: "unfragmented (sent_header source to protocol n)"
  by (simp add: unfragmented_def sent_header_def Ipv4Flags_new_def)

text \<open>C12: A payload of at most 65515 bytes goes out as one packet that a receiver's parser reads back as
  the header meant, source, destination and protocol included, with the total length of the whole
  packet and whatever payload; a longer payload fails with a protocol error and nothing is sent.
  Errors of the system come back as such; no length makes the call panic.\<close>

theorem send_outcome:
  "if length data \<le> 65515
   then \<exists>packet h. send_ipv4 e rnd source protocol sendto to data =
          (case sendto packet to of Inl err \<Rightarrow> Err (System err) | Inr n \<Rightarrow> Ok n) \<and>
        length packet = 20 + length data \<and> drop 20 packet = data \<and> IpV4Header_try_from packet = Ok h \<and>
        unat (ip_total_length h) = length packet \<and> ip_source_address h = source \<and>
        ip_destination_address h = to \<and> ip_protocol h = protocol
   else \<exists>text. \<forall>sendto. send_ipv4 e rnd source protocol sendto to data = Err (Protocol text)"
proof (cases "length data \<le> 65515")
  case True
  let ?h = "sent_header source to protocol (length data)"
  have len: "length (IpV4Header_bytes ?h) = 20" by (simp add: IpV4Header_bytes_def Let_def octets_def)
  have "IpV4Header_try_from (IpV4Header_bytes ?h @ data) = Ok ?h"
    by (rule ip_wire.decode_encode) (rule sent_header_unfragmented)
  moreover have "unat (ip_total_length ?h) = 20 + length data"
    using True by (simp add: sent_header_def unat_word_of_nat del: of_nat_add)
  ultimately show ?thesis
    using True len
    by (simp add: send_ipv4_eq)
      (intro exI [of _ "IpV4Header_bytes ?h @ data"] exI [of _ ?h], simp add: sent_header_def)
next
  case False
  then show ?thesis by (auto simp: send_ipv4_eq error_from_ProtocolError_def)
qed

section \<open>What the listener hands over\<close>

definition handle :: "'s event_handler \<Rightarrow> recv_result \<Rightarrow> 's \<Rightarrow> 's" where
  "handle h r st =
     (case r of
        Got datagram \<Rightarrow> on_recv h (take 65535 datagram) st
      | OtherErrno errno \<Rightarrow> on_error h (''Failed to read from socket: '' @ errno) st
      | _ \<Rightarrow> st)"

lemma recv_into:
  assumes "recv_into datagram buffer = (n, buffer')"
  shows "take n buffer' = take (length buffer) datagram" "length buffer' = length buffer"
  using assms by (auto simp: recv_into_def min_def)

lemma recv_from_socket_eq:
  assumes "length buffer = 65535" "WouldBlock \<notin> set results"
  shows "recv_from_socket h results buffer st = None" (is ?none)
    and "recv_from_socket h (results @ WouldBlock # rest) buffer st = Some (fold (handle h) results st, rest)" (is ?some)
proof -
  have "?none \<and> ?some"
    using assms
  proof (induction results arbitrary: buffer st)
    case (Cons r results)
    show ?case
    proof (cases r)
      case (Got datagram)
      obtain n buffer' where into: "recv_into datagram buffer = (n, buffer')" by fastforce
      with recv_into [OF this] Cons Got show ?thesis by (simp add: handle_def)
    qed (use Cons in \<open>simp_all add: handle_def\<close>)
  qed simp
  then show ?none ?some by blast+
qed

text \<open>C14: The listener reads until the socket would block, and then it has handed every datagram to the
  handler once, in order, cut to 65535 bytes and never mixed with bytes of an earlier one, and
  reported every error but the unknown ones. Until then it does not return: on a socket that only
  fails it calls the handler's \<open>on_error\<close> forever.\<close>

theorem listener_reads:
  assumes "WouldBlock \<notin> set results"
  shows "listener_recv h (results @ WouldBlock # rest) st = Some (fold (handle h) results st, rest) \<and>
    listener_recv h results st = None"
  by (simp add: listener_recv_def recv_from_socket_eq [OF length_replicate assms])

definition sample_handler :: "u8 list list event_handler" where
  "sample_handler = \<lparr>on_recv = \<lambda>data seen. seen @ [data], on_error = \<lambda>message seen. seen\<rparr>"

theorem listener_reads_witness:
  "listener_recv sample_handler ([Got [1, 2, 3], OtherErrno ''ENETDOWN'', Got [4]] @ [WouldBlock]) [] = Some ([[1, 2, 3], [4]], [])"
proof -
  have "WouldBlock \<notin> set [Got [1, 2, 3], OtherErrno ''ENETDOWN'', Got [4]]" by simp
  from listener_reads [OF this, of sample_handler "[]" "[]"] show ?thesis by (simp add: handle_def sample_handler_def)
qed

section \<open>How the poller ends\<close>

text \<open>The poller hands out the events of every wait in order, but the first failing \<open>epoll_wait\<close>,
  whatever the reason (an interrupted call included), ends it for good: the flag is cleared and
  no later event is looked at.\<close>

theorem poller_stops:
  assumes "\<forall>(running, wait) \<in> set turns. running \<and> (\<exists>events. wait = Inr events)"
  shows "poller_task True (turns @ (True, Inl e) # later) batches =
    Some (False, batches @ filter (\<lambda>events. events \<noteq> []) (map (\<lambda>(running, wait). case wait of Inl _ \<Rightarrow> [] | Inr events \<Rightarrow> events) turns))"
  using assms
proof (induction turns arbitrary: batches)
  case (Cons t turns)
  from Cons.prems obtain events where "t = (True, Inr events)" by (cases t) auto
  with Cons show ?case by (simp add: poller_process_messages_def)
qed (simp add: poller_process_messages_def)

theorem poller_stops_witness:
  "poller_task True ([(True, Inr [(True, 7)])] @ (True, Inl ''EINTR'') # [(True, Inr [(True, 8)])]) [] = Some (False, [[(True, 7)]])"
proof -
  have "\<forall>(running, wait) \<in> set [(True, Inr [(True, 7 :: u64)] :: string + epoll_event list)]. running \<and> (\<exists>events. wait = Inr events)"
    by simp
  from poller_stops [OF this, of "''EINTR''" "[(True, Inr [(True, 8)])]" "[]"] show ?thesis by simp
qed

section \<open>The life of a socket\<close>

text \<open>
  A socket (\<open>AutoCloseFd\<close>) is closed when nothing holds it any more: the interface returned to the
  caller, the listener in the poller's map, or a task that runs the listener. A listener is
  represented by its socket. \<open>adding\<close> are calls of \<open>add_item\<close> between \<open>epoll_ctl\<close> and the insertion
  (the lock is awaited there), \<open>removals\<close> the tasks that dropped tickets have spawned, \<open>edges\<close> the
  events that the kernel has, or that \<open>epoll_wait\<close> has handed to a task that has not looked its
  listeners up yet: with \<open>EPOLLET\<close> each is reported once.
\<close>

record network =
  open_fds :: "nat list"
  adding :: "(u64 \<times> nat) list"
  held :: "(u64 \<times> nat) list"
  handlers :: "(u64, nat) hash_map"
  removals :: "u64 list"
  edges :: "epoll_event list"
  tasks :: "nat list"

definition network_new :: network where
  "network_new = \<lparr>open_fds = [], adding = [], held = [], handlers = [], removals = [], edges = [], tasks = []\<rparr>"

definition references :: "network \<Rightarrow> nat set" where
  "references st = snd ` set (adding st) \<union> snd ` set (held st) \<union> snd ` set (handlers st) \<union> set (tasks st)"

text \<open>Dropping one reference: the socket is closed with the last.\<close>

definition release :: "nat \<Rightarrow> network \<Rightarrow> network" where
  "release fd st = (if fd \<in> references st then st else st\<lparr>open_fds := removeAll fd (open_fds st)\<rparr>)"

text \<open>The results of the system calls of one \<open>new\<close>; an error is its text.\<close>

record socket_calls =
  sys_socket :: "string + nat"
  set_include_header :: "string option"
  add_membership :: "Ipv4Addr \<Rightarrow> string option"
  bind_to_device :: "string option"
  epoll_add :: "string option"

text \<open>\<open>add_item\<close> up to the insertion; on an error the ticket is dropped.\<close>

definition add_item :: "string option \<Rightarrow> u64 \<Rightarrow> nat \<Rightarrow> network \<Rightarrow> unit router_result \<times> network" where
  "add_item epoll_ctl handle_id fd st =
     (case epoll_ctl of
        Some e \<Rightarrow> (Err (System e), st\<lparr>removals := removals st @ [handle_id]\<rparr>)
      | None \<Rightarrow> (Ok (), st\<lparr>adding := adding st @ [(handle_id, fd)]\<rparr>))"

definition first_error :: "string option list \<Rightarrow> string option" where
  "first_error results = (case filter (\<lambda>r. r \<noteq> None) results of [] \<Rightarrow> None | r # _ \<Rightarrow> r)"

definition network_interface_new ::
  "socket_calls \<Rightarrow> Ipv4Addr list \<Rightarrow> u64 \<Rightarrow> network \<Rightarrow> unit router_result \<times> network" where
  "network_interface_new calls multicast_groups handle_id st =
     (case sys_socket calls of
        Inl e \<Rightarrow> (Err (System e), st)
      | Inr fd \<Rightarrow>
          let st = st\<lparr>open_fds := open_fds st @ [fd]\<rparr> in
          case first_error ([set_include_header calls] @ map (add_membership calls) multicast_groups @ [bind_to_device calls]) of
            Some e \<Rightarrow> (Err (System e), release fd st)
          | None \<Rightarrow>
              (case add_item (epoll_add calls) handle_id fd st of
                 (Ok _, st) \<Rightarrow> (Ok (), st)
               | (Err e, st) \<Rightarrow> (Err e, release fd st)
               | (Panic, st) \<Rightarrow> (Panic, st)))"

text \<open>The rest of \<open>add_item\<close> and of \<open>new\<close>.\<close>

definition insert_handler :: "u64 \<Rightarrow> nat \<Rightarrow> network \<Rightarrow> network" where
  "insert_handler handle_id fd st =
     st\<lparr>adding := remove1 (handle_id, fd) (adding st), handlers := hm_insert handle_id fd (handlers st),
        held := held st @ [(handle_id, fd)]\<rparr>"

definition drop_interface_ticket :: "u64 \<Rightarrow> nat \<Rightarrow> network \<Rightarrow> network" where
  "drop_interface_ticket handle_id fd st =
     release fd (st\<lparr>held := remove1 (handle_id, fd) (held st), removals := removals st @ [handle_id]\<rparr>)"

definition run_removal :: "u64 \<Rightarrow> network \<Rightarrow> network" where
  "run_removal handle_id st =
     (let st' = st\<lparr>removals := remove1 handle_id (removals st), handlers := hm_remove handle_id (handlers st)\<rparr>
      in case hm_get (handlers st) handle_id of None \<Rightarrow> st' | Some fd \<Rightarrow> release fd st')"

text \<open>The task of one \<open>epoll_wait\<close>, which takes at most 100 events, reads the map of listeners and
  starts them.\<close>

definition dispatch_events :: "network \<Rightarrow> network" where
  "dispatch_events st =
     st\<lparr>edges := drop 100 (edges st), tasks := tasks st @ dispatch (handlers st) (take 100 (edges st))\<rparr>"

definition end_task :: "nat \<Rightarrow> network \<Rightarrow> network" where
  "end_task fd st = release fd (st\<lparr>tasks := remove1 fd (tasks st)\<rparr>)"

definition ids_in_use :: "network \<Rightarrow> u64 set" where
  "ids_in_use st = fst ` set (adding st) \<union> fst ` set (held st) \<union> fst ` set (handlers st) \<union> set (removals st)"

text \<open>The kernel does not hand out a socket that is open; the number drawn for a handler is new.\<close>

inductive network_step :: "network \<Rightarrow> network \<Rightarrow> bool" where
  net_new: "sys_socket calls = Inl e \<or> (\<exists>fd. sys_socket calls = Inr fd \<and> fd \<notin> set (open_fds st)) \<Longrightarrow>
    handle_id \<notin> ids_in_use st \<Longrightarrow> network_interface_new calls groups handle_id st = (r, st') \<Longrightarrow> network_step st st'"
| net_insert: "(handle_id, fd) \<in> set (adding st) \<Longrightarrow> network_step st (insert_handler handle_id fd st)"
| net_drop: "(handle_id, fd) \<in> set (held st) \<Longrightarrow> network_step st (drop_interface_ticket handle_id fd st)"
| net_removal: "handle_id \<in> set (removals st) \<Longrightarrow> network_step st (run_removal handle_id st)"
| net_edge: "network_step st (st\<lparr>edges := edges st @ [event]\<rparr>)"
| net_dispatch: "network_step st (dispatch_events st)"
| net_end: "fd \<in> set (tasks st) \<Longrightarrow> network_step st (end_task fd st)"

inductive_cases network_stepE: "network_step st st'"

section \<open>No socket is lost and none is closed in use\<close>

definition sockets_ok :: "network \<Rightarrow> bool" where
  "sockets_ok st \<longleftrightarrow> set (open_fds st) = references st \<and> distinct (open_fds st)"

definition tables_ok :: "network \<Rightarrow> bool" where
  "tables_ok st \<longleftrightarrow>
     hm_wf (handlers st) \<and> distinct (map fst (adding st @ held st)) \<and> distinct (removals st) \<and>
     set (removals st) \<inter> fst ` set (adding st @ held st) = {} \<and>
     fst ` set (adding st) \<inter> fst ` set (handlers st) = {} \<and>
     set (held st) \<subseteq> set (handlers st) \<and>
     set (handlers st) \<subseteq> set (held st) \<union> {(i, fd). i \<in> set (removals st)}"

lemma release_frame [simp]:
  "adding (release fd st) = adding st" "held (release fd st) = held st" "handlers (release fd st) = handlers st"
  "removals (release fd st) = removals st" "tasks (release fd st) = tasks st" "references (release fd st) = references st"
  by (simp_all add: release_def references_def)

lemma tables_release [simp]: "tables_ok (release fd st) = tables_ok st"
  by (simp add: tables_ok_def)

lemma sockets_release:
  assumes "distinct (open_fds st)" "set (open_fds st) = insert fd (references st)"
  shows "sockets_ok (release fd st)"
proof (cases "fd \<in> references st")
  case True
  with assms show ?thesis by (simp add: sockets_ok_def release_def insert_absorb)
next
  case False
  have "set (open_fds (release fd st)) = references st" "distinct (open_fds (release fd st))"
    using assms False by (simp_all add: release_def distinct_removeAll)
  then show ?thesis by (simp add: sockets_ok_def)
qed

lemma set_remove1_distinct: "distinct (map f xs) \<Longrightarrow> set (remove1 x xs) = set xs - {x}"
  by (simp add: distinct_map)

lemma distinct_map_remove1: "distinct (map f xs) \<Longrightarrow> distinct (map f (remove1 x xs))"
  using set_remove1_subset by (induction xs) fastforce+

lemma image_remove1:
  assumes "x \<in> set xs"
  shows "insert (f x) (f ` set (remove1 x xs)) = f ` set xs"
proof -
  have "insert x (set (remove1 x xs)) = set xs" using assms by (induction xs) auto
  then show ?thesis by (metis image_insert)
qed

lemma image_hm_remove:
  assumes "hm_wf m" "hm_get m k = Some v"
  shows "insert v (snd ` set (hm_remove k m)) = snd ` set m"
proof -
  have "set m = insert (k, v) (set (hm_remove k m))"
    using mset_hm_remove [OF assms] by (metis set_mset_add_mset_insert set_mset_mset)
  then show ?thesis by (metis image_insert snd_conv)
qed

lemma fst_remove1: "fst ` set (remove1 x xs) \<subseteq> fst ` set xs"
  by (rule image_mono) (rule set_remove1_subset)

lemma tables_apart:
  assumes "tables_ok st"
  shows "set (removals st) \<inter> fst ` set (adding st) = {}" "set (removals st) \<inter> fst ` set (held st) = {}"
    "fst ` set (adding st) \<inter> fst ` set (handlers st) = {}"
proof -
  have "set (removals st) \<inter> (fst ` set (adding st) \<union> fst ` set (held st)) = {}"
    using assms by (simp add: tables_ok_def image_Un)
  then show "set (removals st) \<inter> fst ` set (adding st) = {}" "set (removals st) \<inter> fst ` set (held st) = {}"
    by blast+
  show "fst ` set (adding st) \<inter> fst ` set (handlers st) = {}" using assms by (simp add: tables_ok_def)
qed

lemma tables_held:
  assumes "tables_ok st"
  shows "distinct (map fst (adding st))" "distinct (map fst (held st))" "fst ` set (adding st) \<inter> fst ` set (held st) = {}"
    "(i, fd) \<in> set (adding st) \<Longrightarrow> (i, fd') \<in> set (adding st) \<Longrightarrow> fd' = fd"
    "(i, fd) \<in> set (held st) \<Longrightarrow> (i, fd') \<in> set (held st) \<Longrightarrow> fd' = fd"
proof -
  show "distinct (map fst (adding st))" "distinct (map fst (held st))" "fst ` set (adding st) \<inter> fst ` set (held st) = {}"
    using assms by (simp_all add: tables_ok_def)
  then show "(i, fd) \<in> set (adding st) \<Longrightarrow> (i, fd') \<in> set (adding st) \<Longrightarrow> fd' = fd"
    "(i, fd) \<in> set (held st) \<Longrightarrow> (i, fd') \<in> set (held st) \<Longrightarrow> fd' = fd"
    by (auto dest: eq_key_imp_eq_value)
qed

text \<open>An interface that cannot be made leaves no socket behind, whichever call failed.\<close>

lemma network_interface_new_cases:
  assumes "network_interface_new calls groups i st = (r, st')" "sockets_ok st"
    and "sys_socket calls = Inl e \<or> (\<exists>fd. sys_socket calls = Inr fd \<and> fd \<notin> set (open_fds st))"
  shows "(\<exists>e. r = Err e \<and> (st' = st \<or> st' = st\<lparr>removals := removals st @ [i]\<rparr>)) \<or>
    (\<exists>fd. fd \<notin> set (open_fds st) \<and> r = Ok () \<and> st' = st\<lparr>open_fds := open_fds st @ [fd], adding := adding st @ [(i, fd)]\<rparr>)"
proof (cases "sys_socket calls")
  case (Inl e)
  with assms(1) show ?thesis by (auto simp: network_interface_new_def)
next
  case (Inr fd)
  with assms(3) have fresh: "fd \<notin> set (open_fds st)" by simp
  then have unused: "fd \<notin> references st" using assms(2) by (simp add: sockets_ok_def)
  have closed: "release fd (st\<lparr>open_fds := open_fds st @ [fd], removals := R\<rparr>) = st\<lparr>removals := R\<rparr>"
      "release fd (st\<lparr>open_fds := open_fds st @ [fd]\<rparr>) = st" for R
    using fresh unused by (simp_all add: release_def references_def)
  show ?thesis
    using assms(1) fresh closed
    by (auto simp: network_interface_new_def Inr Let_def add_item_def split: option.splits)
qed

lemma network_interface_new_ok:
  assumes "network_interface_new calls groups i st = (r, st')" "sockets_ok st" "tables_ok st" "i \<notin> ids_in_use st"
    and "sys_socket calls = Inl e \<or> (\<exists>fd. sys_socket calls = Inr fd \<and> fd \<notin> set (open_fds st))"
  shows "sockets_ok st' \<and> tables_ok st'"
  using network_interface_new_cases [OF assms(1,2,5)]
proof (elim disjE exE conjE)
  assume "st' = st\<lparr>removals := removals st @ [i]\<rparr>"
  moreover have "i \<notin> set (removals st)" "i \<notin> fst ` set (adding st @ held st)" using assms(4) by (auto simp: ids_in_use_def)
  ultimately show ?thesis using assms(2,3) by (auto simp: sockets_ok_def references_def tables_ok_def)
next
  fix fd
  assume fd: "fd \<notin> set (open_fds st)" and st': "st' = st\<lparr>open_fds := open_fds st @ [fd], adding := adding st @ [(i, fd)]\<rparr>"
  have "sockets_ok st'" using assms(2) fd by (auto simp: st' sockets_ok_def references_def)
  moreover have "i \<notin> set (removals st)" "i \<notin> fst ` set (adding st @ held st)" "i \<notin> fst ` set (handlers st)"
    using assms(4) by (auto simp: ids_in_use_def)
  then have "tables_ok st'" using assms(3) by (auto simp: st' tables_ok_def)
  ultimately show ?thesis ..
qed (use assms(2,3) in simp)

lemma insert_handler_ok:
  assumes "(i, fd) \<in> set (adding st)" "sockets_ok st" "tables_ok st"
  shows "sockets_ok (insert_handler i fd st) \<and> tables_ok (insert_handler i fd st)"
proof -
  have d: "set (remove1 (i, fd) (adding st)) = set (adding st) - {(i, fd)}" "distinct (map fst (remove1 (i, fd) (adding st)))"
    by (rule set_remove1_distinct [OF tables_held(1) [OF assms(3)]], rule distinct_map_remove1 [OF tables_held(1) [OF assms(3)]])
  have gone: "i \<notin> fst ` set (remove1 (i, fd) (adding st))"
    using d(1) tables_held(4) [OF assms(3,1)] by auto
  have new: "i \<notin> fst ` set (handlers st)" "i \<notin> set (removals st)" "i \<notin> fst ` set (held st)"
  proof -
    have "i \<in> fst ` set (adding st)" using assms(1) by (rule image_eqI [rotated]) simp
    moreover have "fst ` set (adding st) \<inter> fst ` set (handlers st) = {}" "set (removals st) \<inter> fst ` set (adding st @ held st) = {}"
      using assms(3) by (simp_all add: tables_ok_def)
    ultimately show "i \<notin> fst ` set (handlers st)" "i \<notin> set (removals st)" "i \<notin> fst ` set (held st)"
      using tables_held(3) [OF assms(3)] by auto
  qed
  then have "hm_get (handlers st) i = None" by (simp add: map_of_eq_None_iff)
  then have h: "hm_insert i fd (handlers st) = handlers st @ [(i, fd)]" by (rule hm_insert_fresh)
  have "references (insert_handler i fd st) = references st"
    unfolding references_def insert_handler_def h network.simps image_remove1 [OF assms(1), of snd, symmetric] by auto
  then have "sockets_ok (insert_handler i fd st)"
    using assms(2) by (simp add: sockets_ok_def insert_handler_def)
  moreover have fields: "adding (insert_handler i fd st) = remove1 (i, fd) (adding st)" "held (insert_handler i fd st) = held st @ [(i, fd)]"
      "handlers (insert_handler i fd st) = handlers st @ [(i, fd)]" "removals (insert_handler i fd st) = removals st"
    by (simp_all add: insert_handler_def h)
  have "tables_ok (insert_handler i fd st)"
    unfolding tables_ok_def fields
  proof (intro conjI)
    show "hm_wf (handlers st @ [(i, fd)])" using new(1) assms(3) by (simp add: tables_ok_def)
    show "distinct (map fst (remove1 (i, fd) (adding st) @ held st @ [(i, fd)]))"
      using tables_held(2,3) [OF assms(3)] d gone new(3) by auto
    show "set (removals st) \<inter> fst ` set (remove1 (i, fd) (adding st) @ held st @ [(i, fd)]) = {}"
    proof -
      have "set (removals st) \<inter> fst ` set (remove1 (i, fd) (adding st)) = {}"
        using tables_apart(1) [OF assms(3)] fst_remove1 [of "(i, fd)" "adding st"] by blast
      with tables_apart(2) [OF assms(3)] new(2) show ?thesis by (simp add: image_Un Int_Un_distrib)
    qed
    show "fst ` set (remove1 (i, fd) (adding st)) \<inter> fst ` set (handlers st @ [(i, fd)]) = {}"
    proof -
      have "fst ` set (remove1 (i, fd) (adding st)) \<inter> fst ` set (handlers st) = {}"
        using tables_apart(3) [OF assms(3)] fst_remove1 [of "(i, fd)" "adding st"] by blast
      with gone show ?thesis by (simp add: image_Un Int_Un_distrib)
    qed
  qed (use assms(3) in \<open>auto simp: tables_ok_def\<close>)
  ultimately show ?thesis ..
qed

lemma drop_interface_ticket_ok:
  assumes "(i, fd) \<in> set (held st)" "sockets_ok st" "tables_ok st"
  shows "sockets_ok (drop_interface_ticket i fd st) \<and> tables_ok (drop_interface_ticket i fd st)"
proof -
  let ?st = "st\<lparr>held := remove1 (i, fd) (held st), removals := removals st @ [i]\<rparr>"
  have d: "set (remove1 (i, fd) (held st)) = set (held st) - {(i, fd)}" "distinct (map fst (remove1 (i, fd) (held st)))"
    by (rule set_remove1_distinct [OF tables_held(2) [OF assms(3)]], rule distinct_map_remove1 [OF tables_held(2) [OF assms(3)]])
  have gone: "i \<notin> fst ` set (remove1 (i, fd) (held st))"
    using d(1) tables_held(5) [OF assms(3,1)] by auto
  have new: "i \<notin> set (removals st)" "i \<notin> fst ` set (adding st)"
  proof -
    have "i \<in> fst ` set (held st)" using assms(1) by (rule image_eqI [rotated]) simp
    moreover have "set (removals st) \<inter> fst ` set (adding st @ held st) = {}"
      using assms(3) by (simp add: tables_ok_def)
    ultimately show "i \<notin> set (removals st)" "i \<notin> fst ` set (adding st)"
      using tables_held(3) [OF assms(3)] by auto
  qed
  have "sockets_ok (release fd ?st)"
  proof (rule sockets_release)
    show "set (open_fds ?st) = insert fd (references ?st)"
      using assms(2) image_remove1 [OF assms(1), of snd] by (auto simp: sockets_ok_def references_def)
  qed (use assms(2) in \<open>simp add: sockets_ok_def\<close>)
  moreover have fields: "adding ?st = adding st" "held ?st = remove1 (i, fd) (held st)" "handlers ?st = handlers st"
      "removals ?st = removals st @ [i]"
    by simp_all
  have "tables_ok ?st"
    unfolding tables_ok_def fields
  proof (intro conjI)
    show "distinct (map fst (adding st @ remove1 (i, fd) (held st)))"
      using tables_held(1,3) [OF assms(3)] d by auto
    show "distinct (removals st @ [i])" using new(1) assms(3) by (simp add: tables_ok_def)
    show "set (removals st @ [i]) \<inter> fst ` set (adding st @ remove1 (i, fd) (held st)) = {}"
    proof -
      have "set (removals st) \<inter> fst ` set (remove1 (i, fd) (held st)) = {}"
        using tables_apart(2) [OF assms(3)] fst_remove1 [of "(i, fd)" "held st"] by blast
      with tables_apart(1) [OF assms(3)] gone new(2) show ?thesis
        by (simp add: image_Un Int_Un_distrib Int_Un_distrib2)
    qed
    show "set (remove1 (i, fd) (held st)) \<subseteq> set (handlers st)" using assms(3) d by (auto simp: tables_ok_def)
    show "set (handlers st) \<subseteq> set (remove1 (i, fd) (held st)) \<union> {(j, fd). j \<in> set (removals st @ [i])}"
      using assms(3) d by (auto simp: tables_ok_def)
  qed (use assms(3) in \<open>auto simp: tables_ok_def\<close>)
  ultimately show ?thesis by (simp add: drop_interface_ticket_def)
qed

lemma run_removal_ok:
  assumes "i \<in> set (removals st)" "sockets_ok st" "tables_ok st"
  shows "sockets_ok (run_removal i st) \<and> tables_ok (run_removal i st)"
proof -
  let ?st = "st\<lparr>removals := remove1 i (removals st), handlers := hm_remove i (handlers st)\<rparr>"
  have wf: "hm_wf (handlers st)" using assms(3) by (simp add: tables_ok_def)
  note d = set_hm_remove [OF wf, of i]
  have t: "tables_ok ?st"
  proof -
    have i: "i \<notin> fst ` set (adding st)" "i \<notin> fst ` set (held st)" using assms(1,3) by (auto simp: tables_ok_def)
    have r: "set (remove1 i (removals st)) = set (removals st) - {i}" using assms(3) by (simp add: tables_ok_def)
    have "set (held st) \<subseteq> set (hm_remove i (handlers st))" using assms(3) i(2) d by (auto simp: tables_ok_def)
    moreover have "set (hm_remove i (handlers st)) \<subseteq> set (held st) \<union> {(j, fd). j \<in> set (remove1 i (removals st))}"
      using assms(3) d r by (auto simp: tables_ok_def)
    moreover have "fst ` set (adding st) \<inter> fst ` set (hm_remove i (handlers st)) = {}"
      "set (remove1 i (removals st)) \<inter> fst ` set (adding st @ held st) = {}"
      using assms(3) d r by (auto simp: tables_ok_def)
    ultimately show ?thesis using assms(3) by (simp add: tables_ok_def distinct_remove1)
  qed
  show ?thesis
  proof (cases "hm_get (handlers st) i")
    case None
    with assms(2) t show ?thesis by (simp add: run_removal_def hm_remove_fresh sockets_ok_def references_def)
  next
    case (Some fd)
    have "sockets_ok (release fd ?st)"
    proof (rule sockets_release)
      show "set (open_fds ?st) = insert fd (references ?st)"
        using assms(2) image_hm_remove [OF wf Some] by (auto simp: sockets_ok_def references_def)
    qed (use assms(2) in \<open>simp add: sockets_ok_def\<close>)
    with t Some show ?thesis by (simp add: run_removal_def del: map_of_eq_Some_iff)
  qed
qed

lemma dispatch_sub: "set (dispatch m events) \<subseteq> snd ` set m"
proof
  fix h
  assume "h \<in> set (dispatch m events)"
  then obtain i where "hm_get m i = Some h"
    by (auto simp: dispatch_def List.map_filter_def split: if_splits)
  then show "h \<in> snd ` set m" by (force dest: map_of_SomeD)
qed

lemma network_step_ok:
  assumes "network_step st st'" "sockets_ok st" "tables_ok st"
  shows "sockets_ok st' \<and> tables_ok st'"
  using assms(1)
proof (elim network_stepE)
  fix calls i groups r e
  assume "network_interface_new calls groups i st = (r, st')" "i \<notin> ids_in_use st"
    "sys_socket calls = Inl e \<or> (\<exists>fd. sys_socket calls = Inr fd \<and> fd \<notin> set (open_fds st))"
  with network_interface_new_ok [OF _ assms(2,3)] show ?thesis by blast
next
  assume "st' = dispatch_events st"
  with assms(2,3) dispatch_sub [of "handlers st" "take 100 (edges st)"] show ?thesis
    by (auto simp: dispatch_events_def sockets_ok_def references_def tables_ok_def)
next
  fix fd
  assume fd: "fd \<in> set (tasks st)" and st': "st' = end_task fd st"
  have "sockets_ok st'"
    unfolding st' end_task_def
    using assms(2) fd notin_set_remove1 by (intro sockets_release) (auto simp: sockets_ok_def references_def dest: in_set_remove1)
  with assms(3) show ?thesis by (simp add: st' end_task_def tables_ok_def)
next
  fix event
  assume "st' = st\<lparr>edges := edges st @ [event]\<rparr>"
  with assms(2,3) show ?thesis by (simp add: sockets_ok_def references_def tables_ok_def)
qed (use assms(2,3) insert_handler_ok drop_interface_ticket_ok run_removal_ok in blast)+

section \<open>Every state of a run\<close>

definition network_reach :: "network \<Rightarrow> bool" where
  "network_reach st \<longleftrightarrow> network_step\<^sup>*\<^sup>* network_new st"

interpretation net_machine: machine network_new network_step "\<lambda>st. sockets_ok st \<and> tables_ok st"
proof unfold_locales
  show "sockets_ok network_new \<and> tables_ok network_new"
    by (simp add: network_new_def sockets_ok_def references_def tables_ok_def)
qed (use network_step_ok in blast)

lemma network_reach_ok: "network_reach st \<Longrightarrow> sockets_ok st \<and> tables_ok st"
  unfolding network_reach_def by (rule net_machine.reachable)

lemma network_reach_new: "network_reach network_new"
  by (simp add: network_reach_def)

lemma network_reach_step: "network_reach st \<Longrightarrow> network_step st st' \<Longrightarrow> network_reach st'"
  unfolding network_reach_def by (rule rtranclp.rtrancl_into_rtrancl)

text \<open>C11: In every history of creations (whichever system call fails), insertions, drops, removals, events
  and ending tasks, no socket is listed twice, exactly the sockets that somebody holds are open, and
  every interface held by a caller has its own listener registered under its number. Once the started
  calls, the removals and the tasks are done, the open sockets and the listeners are exactly those
  of the interfaces that the callers hold.\<close>

theorem sockets_accounted:
  assumes "network_reach st"
  shows "distinct (open_fds st) \<and> set (open_fds st) = references st \<and>
    (\<forall>(i, fd) \<in> set (held st). hm_get (handlers st) i = Some fd) \<and>
    (adding st = [] \<and> removals st = [] \<and> tasks st = [] \<longrightarrow>
      set (open_fds st) = snd ` set (held st) \<and> set (handlers st) = set (held st))"
proof -
  note ok = network_reach_ok [OF assms]
  then have wf: "distinct (map fst (handlers st))" and sub: "set (held st) \<subseteq> set (handlers st)"
    and sup: "set (handlers st) \<subseteq> set (held st) \<union> {(i, fd). i \<in> set (removals st)}"
    by (simp_all add: tables_ok_def)
  have "\<forall>(i, fd) \<in> set (held st). hm_get (handlers st) i = Some fd" using wf sub by auto
  moreover have "removals st = [] \<Longrightarrow> set (handlers st) = set (held st)" using sub sup by auto
  ultimately show ?thesis using ok by (simp add: sockets_ok_def references_def)
qed

text \<open>A sample: two interfaces are made, a third fails to bind, the first is dropped and removed while a
  task reads the second.\<close>

definition sample_calls :: "nat \<Rightarrow> string option \<Rightarrow> socket_calls" where
  "sample_calls fd bind =
     \<lparr>sys_socket = Inr fd, set_include_header = None, add_membership = \<lambda>_. None, bind_to_device = bind, epoll_add = None\<rparr>"

definition sample_new :: "nat \<Rightarrow> u64 \<Rightarrow> string option \<Rightarrow> network \<Rightarrow> network" where
  "sample_new fd i bind st = snd (network_interface_new (sample_calls fd bind) [0xE0000005] i st)"

definition sample_network :: network where
  "sample_network =
     (let st = insert_handler 2 6 (sample_new 6 2 None (insert_handler 1 5 (sample_new 5 1 None network_new)));
          st = sample_new 7 3 (Some ''ENODEV'') st;
          st = dispatch_events (st\<lparr>edges := edges st @ [(True, 2)]\<rparr>)
      in run_removal 1 (drop_interface_ticket 1 5 st))"

lemmas sample_simps =
  sample_calls_def sample_new_def network_interface_new_def first_error_def add_item_def insert_handler_def
  drop_interface_ticket_def run_removal_def dispatch_events_def dispatch_def release_def references_def
  network_new_def ids_in_use_def Let_def List.map_filter_def

lemma reach_sample_new:
  assumes "network_reach st" "fd \<notin> set (open_fds st)" "i \<notin> ids_in_use st"
  shows "network_reach (sample_new fd i bind st)"
proof -
  have "sys_socket (sample_calls fd bind) = Inr fd" by (simp add: sample_calls_def)
  with assms(2) have call: "sys_socket (sample_calls fd bind) = Inl e \<or>
      (\<exists>new. sys_socket (sample_calls fd bind) = Inr new \<and> new \<notin> set (open_fds st))" for e
    by blast
  obtain r st' where new: "network_interface_new (sample_calls fd bind) [0xE0000005] i st = (r, st')"
    by (rule prod.exhaust)
  have "network_step st st'"
  proof (rule net_new)
    show "sys_socket (sample_calls fd bind) = Inl [] \<or>
      (\<exists>new. sys_socket (sample_calls fd bind) = Inr new \<and> new \<notin> set (open_fds st))"
      by (rule call)
  qed (use assms(3) new in simp_all)
  with assms(1) have "network_reach st'" by (rule network_reach_step)
  with new show ?thesis by (simp add: sample_new_def)
qed

lemmas reach_intros =
  network_reach_new reach_sample_new network_reach_step [OF _ net_insert] network_reach_step [OF _ net_drop]
  network_reach_step [OF _ net_removal] network_reach_step [OF _ net_edge] network_reach_step [OF _ net_dispatch]

definition net :: "nat list \<Rightarrow> (u64 \<times> nat) list \<Rightarrow> (u64 \<times> nat) list \<Rightarrow> network" where
  "net fds pending interfaces =
     network_new\<lparr>open_fds := fds, adding := pending, held := interfaces, handlers := interfaces\<rparr>"

lemma sample_steps:
  "sample_new 5 1 None network_new = net [5] [(1, 5)] []"
  "insert_handler 1 5 (net [5] [(1, 5)] []) = net [5] [] [(1, 5)]"
  "sample_new 6 2 None (net [5] [] [(1, 5)]) = net [5, 6] [(2, 6)] [(1, 5)]"
  "insert_handler 2 6 (net [5, 6] [(2, 6)] [(1, 5)]) = net [5, 6] [] [(1, 5), (2, 6)]"
  "sample_new 7 3 (Some ''ENODEV'') (net [5, 6] [] [(1, 5), (2, 6)]) = net [5, 6] [] [(1, 5), (2, 6)]"
  by (simp_all add: sample_simps net_def)

lemma sample_network_reach: "network_reach sample_network"
proof -
  have "network_reach (sample_new 5 1 None network_new)"
    by (rule reach_intros) (rule reach_intros, simp_all add: sample_simps)
  then have "network_reach (net [5] [] [(1, 5)])"
    using network_reach_step [OF _ net_insert, of "net [5] [(1, 5)] []" 1 5] by (simp add: sample_steps) (simp add: net_def)
  then have "network_reach (sample_new 6 2 None (net [5] [] [(1, 5)]))"
    by (rule reach_intros) (simp_all add: net_def sample_simps)
  then have "network_reach (net [5, 6] [] [(1, 5), (2, 6)])"
    using network_reach_step [OF _ net_insert, of "net [5, 6] [(2, 6)] [(1, 5)]" 2 6] by (simp add: sample_steps) (simp add: net_def)
  then have "network_reach (sample_new 7 3 (Some ''ENODEV'') (net [5, 6] [] [(1, 5), (2, 6)]))"
    by (rule reach_intros) (simp_all add: net_def sample_simps)
  then show ?thesis
    unfolding sample_network_def Let_def sample_steps
    by (intro reach_intros) (simp_all add: net_def sample_simps)
qed

theorem sockets_accounted_witness:
  "open_fds sample_network = [6] \<and> held sample_network = [(2, 6)] \<and> tasks sample_network = [6] \<and>
    distinct (open_fds sample_network) \<and> set (open_fds sample_network) = references sample_network"
  using sockets_accounted [OF sample_network_reach]
  unfolding sample_network_def Let_def sample_steps by (simp add: net_def sample_simps)

section \<open>Events\<close>

text \<open>C13: A readable event that is looked up after the insertion of the listener runs it once. But
  \<open>add_item\<close> hands the socket to the kernel before it has entered the listener: an event that is looked up in between runs no
  listener and, with edge triggering, is gone, so the socket's data stays unread until more
  arrives.\<close>

theorem early_edge_lost:
  assumes "network_reach st" "(i, fd) \<in> set (adding st)" "edges st = [(True, i)]"
  shows "tasks (insert_handler i fd (dispatch_events st)) = tasks st \<and>
    edges (insert_handler i fd (dispatch_events st)) = [] \<and>
    tasks (dispatch_events (insert_handler i fd st)) = tasks st @ [fd] \<and>
    edges (dispatch_events (insert_handler i fd st)) = [] \<and>
    handlers (insert_handler i fd (dispatch_events st)) = handlers (dispatch_events (insert_handler i fd st))"
proof -
  have "i \<in> fst ` set (adding st)" using assms(2) by (rule image_eqI [rotated]) simp
  with tables_apart(3) network_reach_ok [OF assms(1)] have "i \<notin> fst ` set (handlers st)" by blast
  then have none: "hm_get (handlers st) i = None" by (simp add: map_of_eq_None_iff)
  have "hm_get (hm_insert i fd (handlers st)) i = Some fd" by (simp del: map_of_eq_Some_iff)
  with none show ?thesis
    by (simp add: insert_handler_def dispatch_events_def dispatch_def assms(3) List.map_filter_def del: map_of_eq_Some_iff)
qed

theorem early_edge_lost_witness:
  "tasks (insert_handler 1 5 (dispatch_events ((sample_new 5 1 None network_new)\<lparr>edges := [(True, 1)]\<rparr>))) = [] \<and>
    tasks (dispatch_events (insert_handler 1 5 ((sample_new 5 1 None network_new)\<lparr>edges := [(True, 1)]\<rparr>))) = [5]"
proof -
  let ?st = "sample_new 5 1 None network_new"
  have "network_reach (?st\<lparr>edges := edges ?st @ [(True, 1)]\<rparr>)"
    by (intro reach_intros) (simp_all add: sample_simps)
  moreover have new: "edges ?st = []" "adding ?st = [(1, 5)]" "tasks ?st = []" by (simp_all add: sample_simps)
  ultimately show ?thesis
    using early_edge_lost [of "?st\<lparr>edges := [(True, 1)]\<rparr>" 1 5] by simp
qed

end
