(* ===== verification/Ospf_Header.thy ===== *)
theory Ospf_Header
  imports Ipv4_Packet
begin

text \<open>
  The OSPFv2 packet header, \<open>rusty-router-proto-ospfv2/src/packet/header.rs\<close>: the version, message
  and authentication types with their wire numbers, the authentication header, the header with its
  builder and serializer, and the parser \<open>TryFrom<&[u8]> for OspfHeader\<close> with its own checksum loop.
\<close>

definition PROTOCOL :: string where
  "PROTOCOL = ''OspfV2''"

definition OSPF_V2_HEADER_LENGTH :: u16 where
  "OSPF_V2_HEADER_LENGTH = 24"

section \<open>Enumerations\<close>

datatype OspfVersion = V2

definition OspfVersion_try_from :: "u8 \<Rightarrow> OspfVersion proto_result" where
  "OspfVersion_try_from version =
     (if version = 2 then Ok V2
      else Err (UnsupportedFieldValue PROTOCOL ''Version'' (unat version)))"

fun u8_from_OspfVersion :: "OspfVersion \<Rightarrow> u8" where
  "u8_from_OspfVersion V2 = 2"

datatype OspfMessageType =
    Hello
  | DatabaseDescription
  | LinkStateRequest
  | LinkStateUpdate
  | LinkStateAcknoledgement

definition OspfMessageType_try_from :: "u8 \<Rightarrow> OspfMessageType proto_result" where
  "OspfMessageType_try_from message_type =
     (if message_type = 1 then Ok Hello
      else if message_type = 2 then Ok DatabaseDescription
      else if message_type = 3 then Ok LinkStateRequest
      else if message_type = 4 then Ok LinkStateUpdate
      else if message_type = 5 then Ok LinkStateAcknoledgement
      else Err (UnsupportedFieldValue PROTOCOL ''Type'' (unat message_type)))"

fun u8_from_OspfMessageType :: "OspfMessageType \<Rightarrow> u8" where
  "u8_from_OspfMessageType Hello = 1"
| "u8_from_OspfMessageType DatabaseDescription = 2"
| "u8_from_OspfMessageType LinkStateRequest = 3"
| "u8_from_OspfMessageType LinkStateUpdate = 4"
| "u8_from_OspfMessageType LinkStateAcknoledgement = 5"

datatype OspfAuthenticationType =
    AuthNull
  | AuthSimplePassword
  | AuthCryptographicAuthentication

definition OspfAuthenticationType_try_from :: "u16 \<Rightarrow> OspfAuthenticationType proto_result" where
  "OspfAuthenticationType_try_from authentication_type =
     (if authentication_type = 0 then Ok AuthNull
      else if authentication_type = 1 then Ok AuthSimplePassword
      else if authentication_type = 2 then Ok AuthCryptographicAuthentication
      else Err (UnsupportedFieldValue PROTOCOL ''AuthenticationType'' (unat authentication_type)))"

fun u16_from_OspfAuthenticationType :: "OspfAuthenticationType \<Rightarrow> u16" where
  "u16_from_OspfAuthenticationType AuthNull = 0"
| "u16_from_OspfAuthenticationType AuthSimplePassword = 1"
| "u16_from_OspfAuthenticationType AuthCryptographicAuthentication = 2"

section \<open>The authentication header\<close>

text \<open>An array \<open>[u8; 8]\<close> is a list of eight bytes.\<close>

datatype OspfAuthenticationHeader =
    NullHeader
  | SimplePasswordHeader "u8 list"
  | CryptographicHeader (key_id: u8) (authentication_data_length: u8) (cryptographic_sequence_number: u32)

fun OspfAuthenticationHeader_new ::
  "OspfAuthenticationType \<Rightarrow> u8 list \<Rightarrow> OspfAuthenticationHeader proto_result" where
  "OspfAuthenticationHeader_new AuthNull header = Ok NullHeader"
| "OspfAuthenticationHeader_new AuthSimplePassword header = Ok (SimplePasswordHeader header)"
| "OspfAuthenticationHeader_new AuthCryptographicAuthentication header =
     obind (slice_index header 2) (\<lambda>key.
     obind (slice_index header 3) (\<lambda>len.
     obind (slice_range header 4 8) (\<lambda>s.
     obind (from_be_bytes_macro 4 PROTOCOL ''rusty-router-proto-ospfv2/src/packet/header.rs'' 143 s) (\<lambda>sequence.
     Ok (CryptographicHeader key len sequence)))))"

fun u64_from_OspfAuthenticationHeader :: "OspfAuthenticationHeader \<Rightarrow> u64" where
  "u64_from_OspfAuthenticationHeader NullHeader = 0"
| "u64_from_OspfAuthenticationHeader (SimplePasswordHeader data) = from_be_bytes data"
| "u64_from_OspfAuthenticationHeader (CryptographicHeader key len sequence) =
     (let res = replicate 8 0;
          crypto_data = to_be_bytes 4 sequence
      in from_be_bytes (res[2 := key, 3 := len, 4 := crypto_data ! 0, 5 := crypto_data ! 1,
                            6 := crypto_data ! 2, 7 := crypto_data ! 3]))"

section \<open>The header and its builder\<close>

record OspfHeader =
  ospf_version :: OspfVersion
  ospf_message_type :: OspfMessageType
  ospf_packet_length :: u16
  ospf_router_id :: Ipv4Addr
  ospf_area_id :: Ipv4Addr
  ospf_checksum :: u16
  ospf_authentication_type :: OspfAuthenticationType
  ospf_authentication_header :: OspfAuthenticationHeader

record OspfHeaderBuilder =
  hb_message_type :: OspfMessageType
  hb_packet_length :: u16
  hb_router_id :: Ipv4Addr
  hb_area_id :: Ipv4Addr
  hb_checksum :: u16

definition OspfHeaderBuilder_new ::
  "OspfMessageType \<Rightarrow> u16 \<Rightarrow> Ipv4Addr \<Rightarrow> Ipv4Addr \<Rightarrow> OspfHeaderBuilder" where
  "OspfHeaderBuilder_new message_type packet_length router_id area_id =
     \<lparr>hb_message_type = message_type, hb_packet_length = packet_length,
      hb_router_id = router_id, hb_area_id = area_id, hb_checksum = 0\<rparr>"

definition with_checksum :: "u16 \<Rightarrow> OspfHeaderBuilder \<Rightarrow> OspfHeaderBuilder" where
  "with_checksum c b = b\<lparr>hb_checksum := c\<rparr>"

definition OspfHeaderBuilder_build :: "OspfHeaderBuilder \<Rightarrow> OspfHeader" where
  "OspfHeaderBuilder_build b =
     \<lparr>ospf_version = V2, ospf_message_type = hb_message_type b,
      ospf_packet_length = hb_packet_length b, ospf_router_id = hb_router_id b,
      ospf_area_id = hb_area_id b, ospf_checksum = hb_checksum b,
      ospf_authentication_type = AuthNull, ospf_authentication_header = NullHeader\<rparr>"

definition OspfHeader_bytes :: "OspfHeader \<Rightarrow> u8 list" where
  "OspfHeader_bytes h =
     [u8_from_OspfVersion (ospf_version h), u8_from_OspfMessageType (ospf_message_type h)]
     @ to_be_bytes 2 (ospf_packet_length h)
     @ octets (ospf_router_id h)
     @ octets (ospf_area_id h)
     @ to_be_bytes 2 (ospf_checksum h)
     @ to_be_bytes 2 (u16_from_OspfAuthenticationType (ospf_authentication_type h))
     @ to_be_bytes 8 (u64_from_OspfAuthenticationHeader (ospf_authentication_header h))"

section \<open>The parser\<close>

definition ospf_read :: "nat \<Rightarrow> nat \<Rightarrow> u8 list \<Rightarrow> nat \<Rightarrow> nat \<Rightarrow> ('a::len word) proto_result" where
  "ospf_read n line data a b =
     obind (slice_range data a b)
       (from_be_bytes_macro n PROTOCOL ''rusty-router-proto-ospfv2/src/packet/header.rs'' line)"

text \<open>The body of the checksum loop: the checksum field and the authentication data are skipped.\<close>

definition skipped :: "nat \<Rightarrow> bool" where
  "skipped i \<longleftrightarrow> i \<ge> 12 \<and> i < 14 \<or> i \<ge> 16 \<and> i < 24"

definition ospf_sum_step :: "u8 list \<Rightarrow> nat \<Rightarrow> u64 \<Rightarrow> u64 proto_result" where
  "ospf_sum_step data i agg =
     (if skipped i then Ok agg
      else obind (slice_index data i) (\<lambda>b. checked_add agg (push_bit (8 * (1 - i mod 2)) (ucast b))))"

definition ospf_checksum_aggregator :: "OspfAuthenticationType \<Rightarrow> u8 list \<Rightarrow> u64 proto_result" where
  "ospf_checksum_aggregator authentication_type data =
     (if authentication_type \<noteq> AuthCryptographicAuthentication
      then obind (ofold (ospf_sum_step data) [0..<length data] 0) (\<lambda>agg.
           obind (checked_add agg (drop_bit 16 agg)) (\<lambda>agg.
           Ok (agg XOR 0x000000000000FFFF)))
      else Ok 0)"

definition OspfHeader_try_from :: "u8 list \<Rightarrow> OspfHeader proto_result" where
  "OspfHeader_try_from data =
     (if length data < 24 then Err (InvalidHeaderLength PROTOCOL 24 (length data)) else
      obind (ospf_read 2 270 data 2 4) (\<lambda>packet_length :: u16.
      if packet_length < 24 then Err (InvalidHeaderLength PROTOCOL 24 (length data)) else
      if length data < unat packet_length
      then Err (InvalidMinimumLength PROTOCOL (unat packet_length) (length data)) else
      if packet_length mod 4 \<noteq> 0 then Err (InvalidBitBoundary PROTOCOL (unat packet_length)) else
      obind (slice_range data 0 (unat packet_length)) (\<lambda>data.
      obind (ospf_read 2 291 data 14 16) (\<lambda>authentication_number.
      obind (OspfAuthenticationType_try_from authentication_number) (\<lambda>authentication_type.
      obind (ospf_checksum_aggregator authentication_type data) (\<lambda>checksum_aggregator.
      obind (ospf_read 2 310 data 12 14) (\<lambda>checksum :: u16.
      let expected_checksum = ucast (checksum_aggregator AND 0x000000000000FFFF) in
      if checksum \<noteq> expected_checksum then Err (InvalidChecksum PROTOCOL expected_checksum checksum) else
      obind (obind (slice_index data 0) OspfVersion_try_from) (\<lambda>version.
      obind (obind (slice_index data 1) OspfMessageType_try_from) (\<lambda>message_type.
      obind (ospf_read 4 323 data 4 8) (\<lambda>router_id.
      obind (ospf_read 4 324 data 8 12) (\<lambda>area_id.
      obind (obind (obind (slice_range data 16 24)
               (try_into_array 8 PROTOCOL ''rusty-router-proto-ospfv2/src/packet/header.rs'' 329))
               (OspfAuthenticationHeader_new authentication_type)) (\<lambda>authentication_header.
      Ok \<lparr>ospf_version = version, ospf_message_type = message_type,
          ospf_packet_length = packet_length, ospf_router_id = router_id, ospf_area_id = area_id,
          ospf_checksum = checksum, ospf_authentication_type = authentication_type,
          ospf_authentication_header = authentication_header\<rparr>))))))))))))"

section \<open>Wire numbers\<close>

lemma OspfVersion_round_trip [simp]: "OspfVersion_try_from (u8_from_OspfVersion v) = Ok v"
  by (cases v) (simp add: OspfVersion_try_from_def)

lemma OspfMessageType_round_trip [simp]: "OspfMessageType_try_from (u8_from_OspfMessageType t) = Ok t"
  by (cases t) (simp_all add: OspfMessageType_try_from_def)

lemma OspfAuthenticationType_round_trip [simp]:
  "OspfAuthenticationType_try_from (u16_from_OspfAuthenticationType t) = Ok t"
  by (cases t) (simp_all add: OspfAuthenticationType_try_from_def)

lemma OspfMessageType_try_from_Ok:
  "OspfMessageType_try_from n = Ok t \<longleftrightarrow> n = u8_from_OspfMessageType t"
  by (cases t) (auto simp: OspfMessageType_try_from_def)

lemma OspfAuthenticationType_try_from_Ok:
  "OspfAuthenticationType_try_from n = Ok t \<longleftrightarrow> n = u16_from_OspfAuthenticationType t"
  by (cases t) (auto simp: OspfAuthenticationType_try_from_def)

lemma OspfVersion_try_from_Ok: "OspfVersion_try_from n = Ok v \<longleftrightarrow> n = 2"
  by (cases v) (simp add: OspfVersion_try_from_def)

lemma try_from_not_Panic [simp]:
  "OspfVersion_try_from n \<noteq> Panic" "OspfMessageType_try_from n \<noteq> Panic"
  "OspfAuthenticationType_try_from a \<noteq> Panic"
  by (simp_all add: OspfVersion_try_from_def OspfMessageType_try_from_def OspfAuthenticationType_try_from_def)

text \<open>The bytes that an authentication header of each type carries.\<close>

fun auth_fields :: "OspfAuthenticationType \<Rightarrow> u8 list \<Rightarrow> OspfAuthenticationHeader" where
  "auth_fields AuthNull s = NullHeader"
| "auth_fields AuthSimplePassword s = SimplePasswordHeader s"
| "auth_fields AuthCryptographicAuthentication s =
     CryptographicHeader (s ! 2) (s ! 3) (from_be_bytes [s ! 4, s ! 5, s ! 6, s ! 7])"

lemma OspfAuthenticationHeader_new_eq:
  "length s = 8 \<Longrightarrow> OspfAuthenticationHeader_new t s = Ok (auth_fields t s)"
  using take_4_drop [of 4 s] by (cases t) simp_all

text \<open>Which headers belong to which authentication type.\<close>

fun auth_matches :: "OspfAuthenticationType \<Rightarrow> OspfAuthenticationHeader \<Rightarrow> bool" where
  "auth_matches AuthNull NullHeader = True"
| "auth_matches AuthSimplePassword (SimplePasswordHeader s) = (length s = 8)"
| "auth_matches AuthCryptographicAuthentication (CryptographicHeader _ _ _) = True"
| "auth_matches _ _ = False"

lemma replicate_8_0: "replicate 8 0 = [0, 0, 0, 0, 0, 0, 0, 0 :: u8]"
  by (simp add: eval_nat_numeral)

lemma auth_header_round_trip:
  "auth_matches t h \<Longrightarrow> auth_fields t (to_be_bytes 8 (u64_from_OspfAuthenticationHeader h)) = h"
proof (induction t h rule: auth_matches.induct)
  case (3 key len sequence)
  obtain a b c e where s: "to_be_bytes 4 sequence = [a, b, c, e]"
    by (simp add: to_be_bytes_evals)
  have "to_be_bytes 8 (u64_from_OspfAuthenticationHeader (CryptographicHeader key len sequence))
     = [0, 0, key, len, a, b, c, e]"
    by (simp add: Let_def replicate_8_0 s to_be_from_be_bytes)
  then show ?case
    using from_be_to_be_bytes_widths(3) [of sequence] s by simp
qed (simp_all add: to_be_from_be_bytes)

text \<open>Authentication headers survive the wire: the header that the parser makes from the
  eight bytes written for a header of the matching type is that header, for all three types.\<close>

theorem ospf_auth_round_trip:
  assumes "auth_matches t h"
  shows "OspfAuthenticationHeader_new t (to_be_bytes 8 (u64_from_OspfAuthenticationHeader h)) = Ok h"
  using auth_header_round_trip [OF assms] by (simp add: OspfAuthenticationHeader_new_eq)

theorem ospf_auth_round_trip_witness:
  "OspfAuthenticationHeader_new AuthCryptographicAuthentication
     (to_be_bytes 8 (u64_from_OspfAuthenticationHeader (CryptographicHeader 98 234 4261418500)))
   = Ok (CryptographicHeader 98 234 4261418500)"
  by (rule ospf_auth_round_trip) simp

section \<open>The checksum loop\<close>

text \<open>The packet as the loop sees it: checksum field and authentication data read as zero.\<close>

definition ospf_blank :: "u8 list \<Rightarrow> u8 list" where
  "ospf_blank d = take 12 d @ [0, 0] @ take 2 (drop 14 d) @ replicate 8 0 @ drop 24 d"

definition ospf_sum :: "u8 list \<Rightarrow> nat \<Rightarrow> nat" where
  "ospf_sum d n = (\<Sum>i<n. if skipped i then 0 else unat (d ! i) * byte_weight i)"

lemma ospf_blank_nth:
  "24 \<le> length d \<Longrightarrow> i < length d \<Longrightarrow> ospf_blank d ! i = (if skipped i then 0 else d ! i)"
  by (auto simp: ospf_blank_def skipped_def nth_append nth_Cons' less_diff_conv2)

lemma length_ospf_blank [simp]: "24 \<le> length d \<Longrightarrow> length (ospf_blank d) = length d"
  by (simp add: ospf_blank_def)

lemma ospf_sum_blank: "24 \<le> length d \<Longrightarrow> ospf_sum d (length d) = ones_sum (ospf_blank d)"
  unfolding ospf_sum_def ones_sum_index
  by (rule sum.cong) (simp_all add: ospf_blank_nth)

lemma byte_weight_le: "byte_weight i \<le> 256"
  by (simp add: byte_weight_def mod2_eq_if)

lemma ospf_sum_le: "ospf_sum d n \<le> n * 65280"
proof -
  have "(if skipped i then 0 else unat (d ! i) * byte_weight i) \<le> 65280" for i
  proof -
    have "unat (d ! i) * byte_weight i \<le> 255 * 256"
      using unat_byte_less [of "d ! i"] by (intro mult_le_mono byte_weight_le) linarith
    then show ?thesis by simp
  qed
  then have "ospf_sum d n \<le> (\<Sum>i<n. 65280)" unfolding ospf_sum_def by (rule sum_mono)
  then show ?thesis by simp
qed

lemma unat_shifted_byte: "unat (push_bit (8 * (1 - i mod 2)) (ucast (b :: u8)) :: u64) = unat b * byte_weight i"
proof -
  have "unat b * byte_weight i < 256 * 257"
    using byte_weight_le [of i] by (intro mult_strict_mono) simp_all
  then show ?thesis
    using less_trans [OF unat_byte_less [of b], of "2 ^ 64"]
    by (subst unsigned_push_bit_eq)
      (simp add: unsigned_ucast_eq push_bit_eq_mult take_bit_eq_mod byte_weight_def power_mult)
qed

lemma ofold_ospf_sum_step:
  "n \<le> length d \<Longrightarrow> length d < 2 ^ 16 \<Longrightarrow>
   ofold (ospf_sum_step d) [0..<n] 0 = Ok (word_of_nat (ospf_sum d n))"
proof (induction n)
  case (Suc n)
  have le: "ospf_sum d (Suc n) < 2 ^ 64"
    using ospf_sum_le [of d "Suc n"] Suc.prems by simp
  show ?case
  proof (cases "skipped n")
    case True
    then have "ospf_sum d (Suc n) = ospf_sum d n" by (simp add: ospf_sum_def)
    with True Suc show ?thesis by (simp add: ofold_snoc ospf_sum_step_def)
  next
    case False
    let ?w = "push_bit (8 * (1 - n mod 2)) (ucast (d ! n)) :: u64"
    have step: "ospf_sum d (Suc n) = ospf_sum d n + unat ?w"
      unfolding unat_shifted_byte using False by (simp add: ospf_sum_def)
    have "checked_add (word_of_nat (ospf_sum d n)) ?w = (Ok (word_of_nat (ospf_sum d (Suc n))) :: u64 proto_result)"
      using le step by (simp add: checked_add_def unat_word_of_nat)
    with False Suc show ?thesis by (simp add: ofold_snoc ospf_sum_step_def)
  qed
qed (simp add: ospf_sum_def)

text \<open>The value the parser expects in the checksum field: one fold of the sum, then the complement.\<close>

definition single_fold :: "u8 list \<Rightarrow> u16" where
  "single_fold p = NOT (word_of_nat (half 65536 (ones_sum p)))"

definition ospf_expected :: "OspfAuthenticationType \<Rightarrow> u8 list \<Rightarrow> u16" where
  "ospf_expected t d = (if t = AuthCryptographicAuthentication then 0 else single_fold (ospf_blank d))"

lemma invert_low_16: "ucast ((w XOR 0xFFFF) AND 0xFFFF) = (NOT (ucast (w :: u64)) :: u16)"
proof -
  have m: "(0xFFFF :: u64) = mask 16" by (simp add: mask_numeral)
  show ?thesis
    unfolding m by (rule bit_word_eqI) (auto simp: bit_simps)
qed

lemma ucast_word_of_nat_16: "ucast (word_of_nat n :: u64) = (word_of_nat n :: u16)"
  by (rule bit_word_eqI) (auto simp: bit_simps)

lemma ospf_checksum_aggregator_eq:
  assumes "24 \<le> length d" "length d < 2 ^ 16"
  shows "\<exists>agg. ospf_checksum_aggregator t d = Ok agg \<and> ucast (agg AND 0xFFFF) = ospf_expected t d"
proof (cases "t = AuthCryptographicAuthentication")
  case True
  then show ?thesis by (simp add: ospf_checksum_aggregator_def ospf_expected_def)
next
  case False
  let ?S = "ospf_sum d (length d)" and ?w = "word_of_nat (ospf_sum d (length d)) :: u64"
  have S: "?S < 2 ^ 33" using ospf_sum_le [of d "length d"] assms(2) by simp
  have u: "unat ?w = ?S" using S by (simp add: unat_word_of_nat)
  have "?S + ?S div 65536 \<le> 2 * 2 ^ 33" using S div_le_dividend [of ?S 65536] by simp
  then have "?S + ?S div 65536 < 2 ^ 64" by (rule le_less_trans) simp
  then have add: "checked_add ?w (drop_bit 16 ?w) = (Ok (word_of_nat (?S + ?S div 65536)) :: u64 proto_result)"
    unfolding checked_add_Ok_iff by (subst unat_word_of_nat) (simp_all add: u unat_drop_bit)
  have "(word_of_nat (?S + ?S div 65536) :: u16) = word_of_nat (half 65536 ?S)"
    by (rule word_of_nat_eq_iff [THEN iffD2]) (simp add: take_bit_eq_mod mod_add_left_eq)
  with False add show ?thesis
    by (simp add: ospf_checksum_aggregator_def ofold_ospf_sum_step [OF order_refl assms(2)] assms invert_low_16
        ucast_word_of_nat_16 ospf_expected_def single_fold_def ospf_sum_blank del: of_nat_add)
qed

section \<open>What the parser computes\<close>

definition ospf_fields :: "u16 \<Rightarrow> OspfMessageType \<Rightarrow> OspfAuthenticationType \<Rightarrow> u8 list \<Rightarrow> OspfHeader" where
  "ospf_fields packet_length message_type t d =
     \<lparr>ospf_version = V2, ospf_message_type = message_type, ospf_packet_length = packet_length,
      ospf_router_id = from_be_bytes [d ! 4, d ! 5, d ! 6, d ! 7],
      ospf_area_id = from_be_bytes [d ! 8, d ! 9, d ! 10, d ! 11],
      ospf_checksum = from_be_bytes [d ! 12, d ! 13], ospf_authentication_type = t,
      ospf_authentication_header = auth_fields t (take 8 (drop 16 d))\<rparr>"

definition ospf_length_field :: "u8 list \<Rightarrow> u16" where
  "ospf_length_field d = from_be_bytes [d ! 2, d ! 3]"

text \<open>The packet the length field delimits; the bytes behind it are ignored.\<close>

definition ospf_packet :: "u8 list \<Rightarrow> u8 list" where
  "ospf_packet d = take (unat (ospf_length_field d)) d"

definition ospf_body_spec :: "u16 \<Rightarrow> u8 list \<Rightarrow> OspfHeader proto_result" where
  "ospf_body_spec plen p =
     (case OspfAuthenticationType_try_from (from_be_bytes [p ! 14, p ! 15]) of
        Err e \<Rightarrow> Err e
      | Panic \<Rightarrow> Panic
      | Ok t \<Rightarrow>
         let actual = from_be_bytes [p ! 12, p ! 13]; expected = ospf_expected t p in
         if actual \<noteq> expected then Err (InvalidChecksum PROTOCOL expected actual)
         else if p ! 0 \<noteq> 2 then Err (UnsupportedFieldValue PROTOCOL ''Version'' (unat (p ! 0)))
         else (case OspfMessageType_try_from (p ! 1) of
             Err e \<Rightarrow> Err e
           | Panic \<Rightarrow> Panic
           | Ok m \<Rightarrow> Ok (ospf_fields plen m t p)))"

definition ospf_parse_spec :: "u8 list \<Rightarrow> OspfHeader proto_result" where
  "ospf_parse_spec d =
     (let len = length d; plen = unat (ospf_length_field d) in
      if len < 24 \<or> plen < 24 then Err (InvalidHeaderLength PROTOCOL 24 len)
      else if len < plen then Err (InvalidMinimumLength PROTOCOL plen len)
      else if plen mod 4 \<noteq> 0 then Err (InvalidBitBoundary PROTOCOL plen)
      else ospf_body_spec (ospf_length_field d) (ospf_packet d))"

lemma ospf_read_eq:
  "a + n = b \<Longrightarrow> b \<le> length data \<Longrightarrow> ospf_read n line data a b = Ok (from_be_bytes (take n (drop a data)))"
  by (auto simp: ospf_read_def)

lemma length_ospf_packet: "unat (ospf_length_field d) \<le> length d \<Longrightarrow> length (ospf_packet d) = unat (ospf_length_field d)"
  by (simp add: ospf_packet_def)

lemma u16_mod_4: "(w :: u16) mod 4 = 0 \<longleftrightarrow> unat w mod 4 = 0"
  by (simp add: word_unat_eq_iff unat_mod_distrib)

text \<open>The part of the parser behind the length checks, on the delimited packet.\<close>

definition ospf_body :: "u16 \<Rightarrow> u8 list \<Rightarrow> OspfHeader proto_result" where
  "ospf_body packet_length data =
     obind (ospf_read 2 291 data 14 16) (\<lambda>authentication_number.
      obind (OspfAuthenticationType_try_from authentication_number) (\<lambda>authentication_type.
      obind (ospf_checksum_aggregator authentication_type data) (\<lambda>checksum_aggregator.
      obind (ospf_read 2 310 data 12 14) (\<lambda>checksum :: u16.
      let expected_checksum = ucast (checksum_aggregator AND 0x000000000000FFFF) in
      if checksum \<noteq> expected_checksum then Err (InvalidChecksum PROTOCOL expected_checksum checksum) else
      obind (obind (slice_index data 0) OspfVersion_try_from) (\<lambda>version.
      obind (obind (slice_index data 1) OspfMessageType_try_from) (\<lambda>message_type.
      obind (ospf_read 4 323 data 4 8) (\<lambda>router_id.
      obind (ospf_read 4 324 data 8 12) (\<lambda>area_id.
      obind (obind (obind (slice_range data 16 24)
               (try_into_array 8 PROTOCOL ''rusty-router-proto-ospfv2/src/packet/header.rs'' 329))
               (OspfAuthenticationHeader_new authentication_type)) (\<lambda>authentication_header.
      Ok \<lparr>ospf_version = version, ospf_message_type = message_type,
          ospf_packet_length = packet_length, ospf_router_id = router_id, ospf_area_id = area_id,
          ospf_checksum = checksum, ospf_authentication_type = authentication_type,
          ospf_authentication_header = authentication_header\<rparr>)))))))))"

lemma ospf_body_eq:
  assumes "24 \<le> length p" "length p < 2 ^ 16"
  shows "ospf_body plen p = ospf_body_spec plen p"
proof (cases "OspfAuthenticationType_try_from (from_be_bytes [p ! 14, p ! 15])")
  case (Ok t)
  obtain agg where agg: "ospf_checksum_aggregator t p = Ok agg" "ucast (agg AND 0xFFFF) = ospf_expected t p"
    using ospf_checksum_aggregator_eq [OF assms] by blast
  have ne: "p \<noteq> []" and l: "Suc 0 < length p" using assms by auto
  have v: "OspfVersion_try_from (p ! 0) = (if p ! 0 = 2 then Ok V2
      else Err (UnsupportedFieldValue PROTOCOL ''Version'' (unat (p ! 0))))"
    by (simp add: OspfVersion_try_from_def)
  show ?thesis
    using assms Ok agg ne l
    by (cases "OspfMessageType_try_from (p ! 1)")
      (simp_all add: ospf_body_def ospf_body_spec_def ospf_read_eq take_2_drop take_4_drop Let_def v
        OspfAuthenticationHeader_new_eq ospf_fields_def)
qed (use assms in \<open>simp_all add: ospf_body_def ospf_body_spec_def ospf_read_eq take_2_drop\<close>)

lemma OspfHeader_try_from_eq: "OspfHeader_try_from d = ospf_parse_spec d"
proof (cases "length d < 24")
  case True
  then show ?thesis by (simp add: OspfHeader_try_from_def ospf_parse_spec_def Let_def)
next
  case False
  let ?l = "ospf_length_field d"
  have rd: "ospf_read 2 270 d 2 4 = Ok ?l"
    using False by (simp add: ospf_read_eq take_2_drop ospf_length_field_def)
  have body: "24 \<le> unat ?l \<Longrightarrow> unat ?l \<le> length d \<Longrightarrow>
      ospf_body ?l (take (unat ?l) d) = ospf_body_spec ?l (ospf_packet d)"
    using ospf_body_eq [of "ospf_packet d" ?l] unat_less_2p [of ?l]
    by (simp add: length_ospf_packet ospf_packet_def)
  show ?thesis
    using False body
    by (auto simp: OspfHeader_try_from_def ospf_parse_spec_def rd Let_def word_less_nat_alt u16_mod_4
        ospf_body_def [symmetric, unfolded Let_def])
qed

text \<open>C31: Parsing an OSPF header never panics on any bytes and equals the reference parser: the length,
  truncation and alignment checks in this order, then authentication type, checksum over the packet that
  the length field delimits (with its checksum and authentication fields read as zero), version and
  message type. In particular the 64-bit sum of the checksum loop cannot overflow.\<close>

theorem ospf_parse: "OspfHeader_try_from d = ospf_parse_spec d"
  by (rule OspfHeader_try_from_eq)

text \<open>A parser that succeeds has seen a packet of this shape.\<close>

definition ospf_well_formed :: "OspfAuthenticationType \<Rightarrow> OspfMessageType \<Rightarrow> u8 list \<Rightarrow> bool" where
  "ospf_well_formed t m d \<longleftrightarrow>
     24 \<le> unat (ospf_length_field d) \<and> unat (ospf_length_field d) \<le> length d \<and>
     unat (ospf_length_field d) mod 4 = 0 \<and>
     from_be_bytes [d ! 14, d ! 15] = u16_from_OspfAuthenticationType t \<and>
     d ! 0 = 2 \<and> d ! 1 = u8_from_OspfMessageType m"

lemma ospf_packet_nth: "i < unat (ospf_length_field d) \<Longrightarrow> ospf_packet d ! i = d ! i"
  by (simp add: ospf_packet_def)

lemma ospf_parse_well_formed:
  assumes "ospf_well_formed t m d"
  shows "OspfHeader_try_from d =
    (let actual = from_be_bytes [d ! 12, d ! 13]; expected = ospf_expected t (ospf_packet d) in
     if actual \<noteq> expected then Err (InvalidChecksum PROTOCOL expected actual)
     else Ok (ospf_fields (ospf_length_field d) m t (ospf_packet d)))"
  using assms
  by (simp add: OspfHeader_try_from_eq ospf_parse_spec_def ospf_body_spec_def ospf_well_formed_def Let_def
      ospf_packet_nth)

lemma ones_sum_less: "length p < 2 ^ 16 \<Longrightarrow> ones_sum p < 2 ^ 32"
proof -
  assume "length p < 2 ^ 16"
  have "ones_sum p \<le> (\<Sum>i<length p. 255 * byte_weight i)"
    unfolding ones_sum_index
    using unat_byte_less by (intro sum_mono mult_right_mono) (simp_all add: less_Suc_eq_le [symmetric])
  also have "\<dots> \<le> (\<Sum>i<length p. 255 * 256)"
    by (intro sum_mono mult_left_mono byte_weight_le) simp
  finally show ?thesis using \<open>length p < 2 ^ 16\<close> by simp
qed

text \<open>One fold is the Internet checksum exactly when it leaves no carry.\<close>

lemma single_fold_eq_iff:
  assumes "length p < 2 ^ 16"
  shows "single_fold p = internet_checksum p \<longleftrightarrow> half 65536 (ones_sum p) < 65536"
proof -
  let ?S = "ones_sum p"
  have q: "?S div 65536 < 65536" using ones_sum_less [OF assms] by (simp add: div_less_iff_less_mult)
  have eq: "single_fold p = internet_checksum p \<longleftrightarrow> half 65536 ?S mod 65536 = carry_fold ?S"
    using carry_fold_less [of ?S]
    by (simp add: single_fold_def internet_checksum_def word_of_nat_eq_iff take_bit_eq_mod del: of_nat_add)
  show ?thesis
  proof (cases "half 65536 ?S < 65536")
    case True
    then have "carry_fold ?S = half 65536 ?S"
      by (cases "?S < 65536") (simp_all add: carry_fold.simps [of ?S])
    with True eq show ?thesis by simp
  next
    case False
    then have big: "\<not> ?S < 65536" by (cases "?S < 65536") simp_all
    obtain r where r: "half 65536 ?S = 65536 + r" "r < 65535"
      using that [of "half 65536 ?S - 65536"] mod_less_divisor [of 65536 ?S] False q by simp
    have "carry_fold ?S = carry_fold (65536 + r)"
      using big r by (subst carry_fold.simps) simp
    also have "\<dots> = r + 1"
      using r by (subst carry_fold.simps) simp
    finally show ?thesis using eq False r by simp
  qed
qed

text \<open>C34: The parser's own checksum folds its sum once and drops the carry of that fold. A well-formed
  packet without cryptographic authentication whose checksum field holds the Internet checksum of the
  packet, as the protocol prescribes, is therefore accepted exactly when the fold leaves no carry;
  when it does, the valid packet is refused with \<open>InvalidChecksum\<close>.\<close>

theorem ospf_checksum_carry:
  assumes "ospf_well_formed t m d" "t \<noteq> AuthCryptographicAuthentication"
    and "from_be_bytes [d ! 12, d ! 13] = internet_checksum (ospf_blank (ospf_packet d))"
  shows "OspfHeader_try_from d =
    (if half 65536 (ones_sum (ospf_blank (ospf_packet d))) < 65536
     then Ok (ospf_fields (ospf_length_field d) m t (ospf_packet d))
     else Err (InvalidChecksum PROTOCOL (single_fold (ospf_blank (ospf_packet d)))
                 (internet_checksum (ospf_blank (ospf_packet d)))))"
proof -
  have "24 \<le> length (ospf_packet d)" "length (ospf_packet d) < 2 ^ 16"
    using assms(1) unat_less_2p [of "ospf_length_field d"]
    by (simp_all add: ospf_well_formed_def length_ospf_packet)
  then have "single_fold (ospf_blank (ospf_packet d)) = internet_checksum (ospf_blank (ospf_packet d))
     \<longleftrightarrow> half 65536 (ones_sum (ospf_blank (ospf_packet d))) < 65536"
    by (intro single_fold_eq_iff) simp
  then show ?thesis
    using assms(2,3) by (auto simp: ospf_parse_well_formed [OF assms(1)] ospf_expected_def Let_def)
qed

definition refused_packet :: "u8 list" where
  "refused_packet = [2, 1, 0, 24, 255, 255, 255, 255, 255, 255, 0xFD, 0xE8, 0xFF, 0xFD, 0, 0,
                     0, 0, 0, 0, 0, 0, 0, 0]"

lemma refused_packet_shape:
  "ospf_well_formed AuthNull Hello refused_packet"
  "ospf_packet refused_packet = refused_packet"
  "ones_sum (ospf_blank refused_packet) = 262142"
  "from_be_bytes [refused_packet ! 12, refused_packet ! 13] = (0xFFFD :: u16)"
proof -
  have l: "ospf_length_field refused_packet = 24"
    by (simp add: ospf_length_field_def refused_packet_def from_be_bytes_def be_nat_def)
  show "ospf_well_formed AuthNull Hello refused_packet"
    by (simp add: ospf_well_formed_def l) (simp add: refused_packet_def from_be_bytes_def be_nat_def)
  show "ospf_packet refused_packet = refused_packet"
    by (simp add: ospf_packet_def l) (simp add: refused_packet_def)
  show "ones_sum (ospf_blank refused_packet) = 262142"
    by (simp add: ospf_blank_def refused_packet_def replicate_8_0)
  show "from_be_bytes [refused_packet ! 12, refused_packet ! 13] = (0xFFFD :: u16)"
    by (simp add: refused_packet_def from_be_bytes_def be_nat_def)
qed

theorem ospf_checksum_carry_witness:
  "from_be_bytes [refused_packet ! 12, refused_packet ! 13] = internet_checksum (ospf_blank refused_packet) \<and>
   OspfHeader_try_from refused_packet = Err (InvalidChecksum PROTOCOL 0xFFFE 0xFFFD)"
proof -
  have c: "internet_checksum (ospf_blank refused_packet) = 0xFFFD" "single_fold (ospf_blank refused_packet) = 0xFFFE"
    by (simp_all add: internet_checksum_def single_fold_def refused_packet_shape carry_fold.simps)
  show ?thesis
    using ospf_checksum_carry [OF refused_packet_shape(1)] c
    by (simp add: refused_packet_shape)
qed

section \<open>Serializing\<close>

lemma length_OspfHeader_bytes [simp]: "length (OspfHeader_bytes h) = 24"
  by (simp add: OspfHeader_bytes_def octets_def)

definition ospf_wire :: "OspfHeader \<Rightarrow> u8 list \<Rightarrow> bool" where
  "ospf_wire h rest \<longleftrightarrow>
     auth_matches (ospf_authentication_type h) (ospf_authentication_header h) \<and>
     unat (ospf_packet_length h) = 24 + length rest \<and> length rest mod 4 = 0 \<and>
     ospf_checksum h = ospf_expected (ospf_authentication_type h) (OspfHeader_bytes h @ rest)"

lemma to_be_bytes_2_cases:
  obtains a b where "to_be_bytes 2 (x :: u16) = [a, b]" "from_be_bytes [a, b] = x"
  using from_be_to_be_bytes_widths(2) [of x] by (auto simp: to_be_bytes_evals)

lemma to_be_bytes_4_cases:
  obtains a b c d where "to_be_bytes 4 (x :: u32) = [a, b, c, d]" "from_be_bytes [a, b, c, d] = x"
  using from_be_to_be_bytes_widths(3) [of x] by (auto simp: to_be_bytes_evals)

lemma OspfHeader_bytes_shape:
  fixes h rest tail
  defines "d \<equiv> OspfHeader_bytes h @ rest"
  shows "ospf_length_field d = ospf_packet_length h"
    and "d ! 0 = 2" "d ! 1 = u8_from_OspfMessageType (ospf_message_type h)"
    and "from_be_bytes [d ! 12, d ! 13] = ospf_checksum h"
    and "from_be_bytes [d ! 14, d ! 15] = u16_from_OspfAuthenticationType (ospf_authentication_type h)"
    and "auth_matches (ospf_authentication_type h) (ospf_authentication_header h) \<Longrightarrow>
       ospf_fields (ospf_packet_length h) (ospf_message_type h) (ospf_authentication_type h) d = h"
proof -
  obtain l1 l2 where l: "to_be_bytes 2 (ospf_packet_length h) = [l1, l2]"
      "from_be_bytes [l1, l2] = ospf_packet_length h" by (rule to_be_bytes_2_cases)
  obtain c1 c2 where c: "to_be_bytes 2 (ospf_checksum h) = [c1, c2]"
      "from_be_bytes [c1, c2] = ospf_checksum h" by (rule to_be_bytes_2_cases)
  obtain a1 a2 where a: "to_be_bytes 2 (u16_from_OspfAuthenticationType (ospf_authentication_type h)) = [a1, a2]"
      "from_be_bytes [a1, a2] = u16_from_OspfAuthenticationType (ospf_authentication_type h)"
    by (rule to_be_bytes_2_cases)
  obtain r1 r2 r3 r4 where r: "octets (ospf_router_id h) = [r1, r2, r3, r4]"
      "from_be_bytes [r1, r2, r3, r4] = ospf_router_id h"
    unfolding octets_def by (rule to_be_bytes_4_cases)
  obtain e1 e2 e3 e4 where e: "octets (ospf_area_id h) = [e1, e2, e3, e4]"
      "from_be_bytes [e1, e2, e3, e4] = ospf_area_id h"
    unfolding octets_def by (rule to_be_bytes_4_cases)
  have v: "u8_from_OspfVersion (ospf_version h) = 2" "ospf_version h = V2" by (cases "ospf_version h"; simp)+
  have d: "d = [2, u8_from_OspfMessageType (ospf_message_type h), l1, l2, r1, r2, r3, r4, e1, e2, e3, e4,
      c1, c2, a1, a2] @ to_be_bytes 8 (u64_from_OspfAuthenticationHeader (ospf_authentication_header h)) @ rest"
    by (simp add: d_def OspfHeader_bytes_def l c a r e v)
  show "ospf_length_field d = ospf_packet_length h" "d ! 0 = 2"
    "d ! 1 = u8_from_OspfMessageType (ospf_message_type h)"
    "from_be_bytes [d ! 12, d ! 13] = ospf_checksum h"
    "from_be_bytes [d ! 14, d ! 15] = u16_from_OspfAuthenticationType (ospf_authentication_type h)"
    by (simp_all add: d ospf_length_field_def l c a)
  assume "auth_matches (ospf_authentication_type h) (ospf_authentication_header h)"
  then show "ospf_fields (ospf_packet_length h) (ospf_message_type h) (ospf_authentication_type h) d = h"
    using auth_header_round_trip by (simp add: d ospf_fields_def c r e v)
qed

lemma OspfHeader_bytes_parse:
  assumes "auth_matches (ospf_authentication_type h) (ospf_authentication_header h)"
    and "unat (ospf_packet_length h) = 24 + length rest" and "length rest mod 4 = 0"
  shows "OspfHeader_try_from ((OspfHeader_bytes h @ rest) @ trailing) =
    (let expected = ospf_expected (ospf_authentication_type h) (OspfHeader_bytes h @ rest) in
     if ospf_checksum h \<noteq> expected then Err (InvalidChecksum PROTOCOL expected (ospf_checksum h))
     else Ok h)"
proof -
  let ?d = "OspfHeader_bytes h @ rest" and ?t = "OspfHeader_bytes h @ rest @ trailing"
  note s = OspfHeader_bytes_shape [of h rest] and t = OspfHeader_bytes_shape [of h "rest @ trailing"]
  have "(24 + length rest) mod 4 = length rest mod 4" by presburger
  then have "ospf_well_formed (ospf_authentication_type h) (ospf_message_type h) ?t"
    using assms t(1-5) by (simp add: ospf_well_formed_def)
  moreover have "ospf_packet ?t = ?d" using assms(2) t(1) by (simp add: ospf_packet_def)
  ultimately show ?thesis
    using ospf_parse_well_formed t(1,4) s(6) assms(1) by (simp add: Let_def)
qed

lemma OspfHeader_round_trip:
  assumes "ospf_wire h rest"
  shows "OspfHeader_try_from ((OspfHeader_bytes h @ rest) @ trailing) = Ok h"
  using assms OspfHeader_bytes_parse [of h rest trailing] by (simp add: ospf_wire_def)

text \<open>A header written by the serializer, in front of the payload its length field announces
  and with the checksum the parser computes, is parsed back to the same header whatever bytes
  follow the packet: version, type, length, identifiers, checksum and authentication.\<close>

theorem ospf_header_round_trip:
  assumes "ospf_wire h rest"
  shows "OspfHeader_try_from ((OspfHeader_bytes h @ rest) @ trailing) = Ok h"
  by (rule OspfHeader_round_trip [OF assms])

lemma to_be_bytes_8_0: "to_be_bytes 8 (0 :: u64) = [0, 0, 0, 0, 0, 0, 0, 0]"
  by (simp add: to_be_bytes_def to_le_bytes_numeral)

definition sample_header :: OspfHeader where
  "sample_header = OspfHeaderBuilder_build
     (with_checksum 32485 (OspfHeaderBuilder_new Hello 24 0x7F000001 0))"

lemma sample_header_bytes:
  "OspfHeader_bytes sample_header
     = [2, 1, 0, 24, 127, 0, 0, 1, 0, 0, 0, 0, 126, 229, 0, 0, 0, 0, 0, 0, 0, 0, 0, 0]"
  by (simp add: sample_header_def OspfHeader_bytes_def OspfHeaderBuilder_build_def with_checksum_def
      OspfHeaderBuilder_new_def octets_def to_be_bytes_evals to_be_bytes_8_0)

theorem ospf_header_round_trip_witness:
  "OspfHeader_try_from (OspfHeader_bytes sample_header @ [9, 9]) = Ok sample_header"
proof -
  have "ones_sum (ospf_blank (OspfHeader_bytes sample_header)) = 33050"
    by (simp add: sample_header_bytes ospf_blank_def replicate_8_0)
  then have "ospf_wire sample_header []"
    by (simp add: ospf_wire_def ospf_expected_def single_fold_def)
      (simp add: sample_header_def OspfHeaderBuilder_build_def with_checksum_def OspfHeaderBuilder_new_def)
  from ospf_header_round_trip [OF this, of "[9, 9]"] show ?thesis by simp
qed

end
