(* ===== verification/Ospf_Hello.thy ===== *)
theory Ospf_Hello
  imports Ospf_Header
begin

text \<open>
  The OSPFv2 hello packet, \<open>rusty-router-proto-ospfv2/src/packet/hello.rs\<close>: the packet, its builder, its
  serializer and its parser. The source holds an unresolved merge of two versions of the packet's
  fields; the side called \<open>Updated upstream\<close>, which the builder, the parser and the serializer use,
  is modelled.
\<close>

section \<open>The packet\<close>

record OspfHelloPacket =
  hello_header :: OspfHeader
  hello_network_mask :: Ipv4Netmask
  hello_interval :: u16
  hello_options :: u8
  hello_router_priority :: u8
  hello_router_dead_interval :: u32
  hello_designated_router :: Ipv4Addr
  hello_backup_designated_router :: Ipv4Addr
  hello_neighbors :: "Ipv4Addr list"

text \<open>The serializer: its result is a \<open>Result\<close> that is always \<open>Ok\<close>.\<close>

definition OspfHelloPacket_payload :: "OspfHelloPacket \<Rightarrow> u8 list" where
  "OspfHelloPacket_payload p =
     to_be_bytes 4 (netmask_number (hello_network_mask p))
     @ to_be_bytes 2 (hello_interval p)
     @ [hello_options p, hello_router_priority p]
     @ to_be_bytes 4 (hello_router_dead_interval p)
     @ octets (hello_designated_router p)
     @ octets (hello_backup_designated_router p)
     @ concat (map octets (hello_neighbors p))"

definition OspfHelloPacket_bytes :: "OspfHelloPacket \<Rightarrow> u8 list proto_result" where
  "OspfHelloPacket_bytes p = Ok (OspfHeader_bytes (hello_header p) @ OspfHelloPacket_payload p)"

section \<open>The builder\<close>

record OspfHelloPacketBuilder =
  hpb_router_id :: Ipv4Addr
  hpb_area_id :: Ipv4Addr
  hpb_network_mask :: Ipv4Netmask
  hpb_hello_interval :: u16
  hpb_options :: u8
  hpb_router_priority :: u8
  hpb_router_dead_interval :: u32
  hpb_designated_router :: Ipv4Addr
  hpb_backup_designated_router :: Ipv4Addr
  hpb_neighbors :: "Ipv4Addr list"

definition OspfHelloPacketBuilder_new ::
  "Ipv4Addr \<Rightarrow> Ipv4Addr \<Rightarrow> Ipv4Netmask \<Rightarrow> u16 \<Rightarrow> u8 \<Rightarrow> u8 \<Rightarrow> u32 \<Rightarrow> Ipv4Addr \<Rightarrow> Ipv4Addr \<Rightarrow> Ipv4Addr list
   \<Rightarrow> OspfHelloPacketBuilder" where
  "OspfHelloPacketBuilder_new router_id area_id network_mask interval options router_priority
     router_dead_interval designated_router backup_designated_router neighbors =
     \<lparr>hpb_router_id = router_id, hpb_area_id = area_id, hpb_network_mask = network_mask,
      hpb_hello_interval = interval, hpb_options = options, hpb_router_priority = router_priority,
      hpb_router_dead_interval = router_dead_interval, hpb_designated_router = designated_router,
      hpb_backup_designated_router = backup_designated_router, hpb_neighbors = neighbors\<rparr>"

definition OspfHelloPacketBuilder_build :: "endian \<Rightarrow> OspfHelloPacketBuilder \<Rightarrow> OspfHelloPacket proto_result" where
  "OspfHelloPacketBuilder_build e b =
     (if length (hpb_neighbors b) > (65536 - unat OSPF_V2_HEADER_LENGTH - 20) div 4 - 1
      then Err (UnsupportedFieldValue PROTOCOL ''Neighbor List Length'' (length (hpb_neighbors b)))
      else
        obind (checked_mul 4 (word_of_nat (length (hpb_neighbors b)))) (\<lambda>list_length :: u16.
        obind (checked_add OSPF_V2_HEADER_LENGTH 20) (\<lambda>fixed_length.
        obind (checked_add fixed_length list_length) (\<lambda>packet_length.
        let header_builder =
              OspfHeaderBuilder_new Hello packet_length (hpb_router_id b) (hpb_area_id b);
            packet =
              \<lparr>hello_header = OspfHeaderBuilder_build header_builder,
               hello_network_mask = hpb_network_mask b, hello_interval = hpb_hello_interval b,
               hello_options = hpb_options b, hello_router_priority = hpb_router_priority b,
               hello_router_dead_interval = hpb_router_dead_interval b,
               hello_designated_router = hpb_designated_router b,
               hello_backup_designated_router = hpb_backup_designated_router b,
               hello_neighbors = hpb_neighbors b\<rparr>
        in
        obind (OspfHelloPacket_bytes packet) (\<lambda>bytes.
        obind (checksum e bytes) (\<lambda>c.
        Ok (packet\<lparr>hello_header := OspfHeaderBuilder_build (with_checksum c header_builder)\<rparr>)))))))"

section \<open>The parser\<close>

definition hello_read :: "nat \<Rightarrow> nat \<Rightarrow> u8 list \<Rightarrow> nat \<Rightarrow> nat \<Rightarrow> ('a::len word) proto_result" where
  "hello_read n line data a b =
     obind (slice_range data a b)
       (from_be_bytes_macro n PROTOCOL ''rusty-router-proto-ospfv2/src/packet/hello.rs'' line)"

text \<open>The \<open>while\<close> loop that reads the neighbors; the measure is what is left of the packet.\<close>

function neighbors_loop :: "u8 list \<Rightarrow> nat \<Rightarrow> nat \<Rightarrow> Ipv4Addr list \<Rightarrow> Ipv4Addr list proto_result" where
  "neighbors_loop data len i neighbors =
     (if i < len then
        obind (hello_read 4 179 data i (i + 4)) (\<lambda>neighbor.
        neighbors_loop data len (i + 4) (neighbors @ [neighbor]))
      else Ok neighbors)"
  by pat_completeness auto
termination
  by (relation "measure (\<lambda>(data, len, i, neighbors). len - i)") auto

declare neighbors_loop.simps [simp del]

definition OspfHelloPacket_try_from :: "u8 list \<Rightarrow> OspfHelloPacket proto_result" where
  "OspfHelloPacket_try_from data =
     obind (OspfHeader_try_from data) (\<lambda>header.
     let len = ospf_packet_length header in
     if len < 44 then Err (InvalidMinimumLength PROTOCOL 44 (unat len))
     else if len mod 4 \<noteq> 0 then Err (InvalidBitBoundary PROTOCOL (unat len))
     else if ospf_authentication_type header \<noteq> AuthNull
     then Err (UnsupportedFieldValue PROTOCOL ''AuthType''
                 (unat (u16_from_OspfAuthenticationType (ospf_authentication_type header))))
     else
       obind (hello_read 4 167 data 24 28) (\<lambda>mask.
       let network_mask = Ipv4Netmask_new mask in
       obind (hello_read 2 168 data 28 30) (\<lambda>interval.
       obind (slice_index data 30) (\<lambda>options.
       obind (slice_index data 31) (\<lambda>router_priority.
       obind (hello_read 4 171 data 32 36) (\<lambda>router_dead_interval.
       obind (hello_read 4 172 data 36 40) (\<lambda>designated_router.
       obind (hello_read 4 173 data 40 44) (\<lambda>backup_designated_router.
       obind (neighbors_loop data (unat len) 44 []) (\<lambda>neighbors.
       Ok \<lparr>hello_header = header, hello_network_mask = network_mask, hello_interval = interval,
           hello_options = options, hello_router_priority = router_priority,
           hello_router_dead_interval = router_dead_interval,
           hello_designated_router = designated_router,
           hello_backup_designated_router = backup_designated_router,
           hello_neighbors = neighbors\<rparr>)))))))))"

section \<open>What the parser computes\<close>

definition be_u32_at :: "u8 list \<Rightarrow> nat \<Rightarrow> u32" where
  "be_u32_at d i = from_be_bytes (take 4 (drop i d))"

definition neighbors_at :: "u8 list \<Rightarrow> nat \<Rightarrow> nat \<Rightarrow> Ipv4Addr list" where
  "neighbors_at d i n = map (\<lambda>k. be_u32_at d (i + 4 * k)) [0..<n]"

lemma neighbors_at_Suc: "neighbors_at d i (Suc n) = be_u32_at d i # neighbors_at d (i + 4) n"
  unfolding neighbors_at_def by (simp add: upt_conv_Cons map_Suc_upt [symmetric] algebra_simps del: upt_Suc)

lemma hello_read_eq:
  "a + n = b \<Longrightarrow> b \<le> length d \<Longrightarrow> hello_read n line d a b = Ok (from_be_bytes (take n (drop a d)))"
  by (auto simp: hello_read_def)

lemma neighbors_loop_eq:
  "i + 4 * n \<le> length d \<Longrightarrow>
   neighbors_loop d (i + 4 * n) i acc = Ok (acc @ neighbors_at d i n)"
proof (induction n arbitrary: i acc)
  case 0
  then show ?case by (simp add: neighbors_loop.simps neighbors_at_def)
next
  case (Suc n)
  have "neighbors_loop d (i + 4 * Suc n) i acc =
      neighbors_loop d ((i + 4) + 4 * n) (i + 4) (acc @ [be_u32_at d i])"
    using Suc.prems by (subst neighbors_loop.simps) (simp add: hello_read_eq be_u32_at_def add.assoc)
  then show ?case using Suc.prems by (simp only: Suc.IH) (simp add: Suc.IH neighbors_at_Suc)
qed

definition hello_fields :: "OspfHeader \<Rightarrow> u8 list \<Rightarrow> OspfHelloPacket" where
  "hello_fields h d =
     \<lparr>hello_header = h, hello_network_mask = Ipv4Netmask_new (be_u32_at d 24),
      hello_interval = from_be_bytes [d ! 28, d ! 29], hello_options = d ! 30,
      hello_router_priority = d ! 31, hello_router_dead_interval = be_u32_at d 32,
      hello_designated_router = be_u32_at d 36, hello_backup_designated_router = be_u32_at d 40,
      hello_neighbors = neighbors_at d 44 ((unat (ospf_packet_length h) - 44) div 4)\<rparr>"

definition hello_parse_spec :: "u8 list \<Rightarrow> OspfHelloPacket proto_result" where
  "hello_parse_spec d =
     (case ospf_parse_spec d of
        Err e \<Rightarrow> Err e
      | Panic \<Rightarrow> Panic
      | Ok h \<Rightarrow>
          if unat (ospf_packet_length h) < 44
          then Err (InvalidMinimumLength PROTOCOL 44 (unat (ospf_packet_length h)))
          else if ospf_authentication_type h \<noteq> AuthNull
          then Err (UnsupportedFieldValue PROTOCOL ''AuthType''
                      (unat (u16_from_OspfAuthenticationType (ospf_authentication_type h))))
          else Ok (hello_fields h d))"

lemma ospf_parse_OkD:
  "ospf_parse_spec d = Ok h \<Longrightarrow>
   ospf_packet_length h = ospf_length_field d \<and> unat (ospf_packet_length h) \<le> length d \<and>
   unat (ospf_packet_length h) mod 4 = 0"
  by (auto simp: ospf_parse_spec_def ospf_body_spec_def Let_def ospf_fields_def
      split: if_splits outcome.splits)

lemma ospf_parse_not_Panic: "ospf_parse_spec d \<noteq> Panic"
  by (auto simp: ospf_parse_spec_def ospf_body_spec_def Let_def split: outcome.splits)

lemma hello_length: "x mod 4 = 0 \<Longrightarrow> \<not> x < 44 \<Longrightarrow> 44 + 4 * ((x - 44) div 4) = x" for x :: nat
  by presburger

lemma OspfHelloPacket_try_from_eq: "OspfHelloPacket_try_from d = hello_parse_spec d"
proof (cases "ospf_parse_spec d")
  case (Ok h)
  let ?l = "unat (ospf_packet_length h)"
  have h: "ospf_packet_length h = ospf_length_field d" "?l \<le> length d" "?l mod 4 = 0"
    using ospf_parse_OkD [OF Ok] by auto
  show ?thesis
  proof (cases "?l < 44")
    case True
    with Ok show ?thesis
      by (simp add: OspfHelloPacket_try_from_def hello_parse_spec_def OspfHeader_try_from_eq word_less_nat_alt)
  next
    case False
    have l: "44 + 4 * ((?l - 44) div 4) = ?l"
      using h(3) False by (rule hello_length)
    have "neighbors_loop d ?l 44 [] = Ok (neighbors_at d 44 ((?l - 44) div 4))"
      using neighbors_loop_eq [of 44 "(?l - 44) div 4" d "[]"] l h by simp
    then show ?thesis
      using h False Ok
      by (simp add: OspfHelloPacket_try_from_def hello_parse_spec_def OspfHeader_try_from_eq
          word_less_nat_alt u16_mod_4 hello_read_eq take_2_drop be_u32_at_def hello_fields_def)
  qed
qed (simp_all add: OspfHelloPacket_try_from_def hello_parse_spec_def OspfHeader_try_from_eq)

text \<open>C32: Parsing a hello packet never panics: the result is the header's error, a packet too short for
  the hello fields, an authentication type other than null, or the packet with exactly the neighbors
  that the length field leaves room for; the loop reads no byte outside the packet and the code's
  second alignment check cannot fail.\<close>

theorem hello_parse: "OspfHelloPacket_try_from d = hello_parse_spec d"
  by (rule OspfHelloPacket_try_from_eq)

lemma hello_parse_not_Panic: "hello_parse_spec d \<noteq> Panic"
  using ospf_parse_not_Panic by (auto simp: hello_parse_spec_def split: outcome.splits)

section \<open>What the builder makes\<close>

abbreviation hello_wire :: "OspfHelloPacket \<Rightarrow> u8 list" where
  "hello_wire p \<equiv> OspfHeader_bytes (hello_header p) @ OspfHelloPacket_payload p"

lemma length_octets [simp]: "length (octets a) = 4"
  by (simp add: octets_def)

lemma length_concat_octets [simp]: "length (concat (map octets ns)) = 4 * length ns"
  by (induction ns) simp_all

lemma length_payload [simp]: "length (OspfHelloPacket_payload p) = 20 + 4 * length (hello_neighbors p)"
  by (simp add: OspfHelloPacket_payload_def)

text \<open>The packet of a builder, with a given checksum.\<close>

definition hello_built :: "u16 \<Rightarrow> OspfHelloPacketBuilder \<Rightarrow> OspfHelloPacket" where
  "hello_built c b =
     \<lparr>hello_header = OspfHeaderBuilder_build (with_checksum c
        (OspfHeaderBuilder_new Hello (word_of_nat (44 + 4 * length (hpb_neighbors b)))
           (hpb_router_id b) (hpb_area_id b))),
      hello_network_mask = hpb_network_mask b, hello_interval = hpb_hello_interval b,
      hello_options = hpb_options b, hello_router_priority = hpb_router_priority b,
      hello_router_dead_interval = hpb_router_dead_interval b,
      hello_designated_router = hpb_designated_router b,
      hello_backup_designated_router = hpb_backup_designated_router b,
      hello_neighbors = hpb_neighbors b\<rparr>"

lemma hello_lengths:
  assumes "n \<le> 16372"
  shows "checked_mul 4 (word_of_nat n) = (Ok (word_of_nat (4 * n)) :: u16 proto_result)"
    and "checked_add 44 (word_of_nat (4 * n)) = (Ok (word_of_nat (44 + 4 * n)) :: u16 proto_result)"
proof -
  have n: "unat (word_of_nat n :: u16) = n" "unat (word_of_nat (4 * n) :: u16) = 4 * n"
    using assms by (simp_all add: unat_word_of_nat del: of_nat_mult)
  show "checked_mul 4 (word_of_nat n) = (Ok (word_of_nat (4 * n)) :: u16 proto_result)"
    using n(1) assms by (simp add: checked_mul_def)
  show "checked_add 44 (word_of_nat (4 * n)) = (Ok (word_of_nat (44 + 4 * n)) :: u16 proto_result)"
    using n(2) assms by (simp add: checked_add_def)
qed

lemma hello_build_eq:
  "OspfHelloPacketBuilder_build e b =
     (let n = length (hpb_neighbors b) in
      if n > 16372 then Err (UnsupportedFieldValue PROTOCOL ''Neighbor List Length'' n)
      else obind (checksum e (hello_wire (hello_built 0 b))) (\<lambda>c. Ok (hello_built c b)))"
proof (cases "length (hpb_neighbors b) > 16372")
  case False
  have "checked_add 24 20 = (Ok 44 :: u16 proto_result)" by (simp add: checked_add_def)
  with False show ?thesis
    by (simp add: OspfHelloPacketBuilder_build_def OSPF_V2_HEADER_LENGTH_def hello_lengths Let_def
        OspfHelloPacket_bytes_def hello_built_def with_checksum_def OspfHeaderBuilder_new_def
        OspfHelloPacket_payload_def del: of_nat_add of_nat_mult)
qed (simp add: OspfHelloPacketBuilder_build_def OSPF_V2_HEADER_LENGTH_def)

lemma hello_build_OkD:
  assumes "OspfHelloPacketBuilder_build e b = Ok p"
  shows "length (hpb_neighbors b) \<le> 16372 \<and> p = hello_built (internet_checksum (hello_wire (hello_built 0 b))) b"
  using assms
  by (auto simp: hello_build_eq Let_def obind_eq_Ok dest: checksum_OkD split: if_splits)

text \<open>The built packet as the receiver's test and as the parser's checksum loop see it.\<close>

lemma hello_built_parts:
  obtains xs ys where "\<And>c. hello_wire (hello_built c b) = xs @ to_be_bytes 2 c @ ys"
    and "length xs = 12" "take 10 ys = [0, 0] @ replicate 8 0"
proof
  let ?l = "word_of_nat (44 + 4 * length (hpb_neighbors b)) :: u16"
  show "hello_wire (hello_built c b) =
     ([2, 1] @ to_be_bytes 2 ?l @ octets (hpb_router_id b) @ octets (hpb_area_id b)) @ to_be_bytes 2 c @
     (to_be_bytes 2 (0 :: u16) @ to_be_bytes 8 (0 :: u64) @ OspfHelloPacket_payload (hello_built 0 b))" for c
    by (simp add: hello_built_def OspfHeader_bytes_def OspfHeaderBuilder_build_def with_checksum_def
        OspfHeaderBuilder_new_def OspfHelloPacket_payload_def del: of_nat_add of_nat_mult)
qed (simp_all add: to_be_bytes_8_0 to_be_bytes_evals replicate_8_0)

lemma hello_built_verify:
  "internet_checksum (hello_wire (hello_built (internet_checksum (hello_wire (hello_built 0 b))) b)) = 0"
proof -
  obtain xs ys where w: "\<And>c. hello_wire (hello_built c b) = xs @ to_be_bytes 2 c @ ys" "length xs = 12"
    using hello_built_parts [of b] by blast
  show ?thesis
    using w(2) internet_checksum_patch [of xs _ ys] by (simp add: w(1) to_be_bytes_2_0)
qed

lemma hello_built_blank: "ospf_blank (hello_wire (hello_built c b)) = hello_wire (hello_built 0 b)"
proof -
  obtain xs ys where w: "\<And>c. hello_wire (hello_built c b) = xs @ to_be_bytes 2 c @ ys" "length xs = 12"
      "take 10 ys = [0, 0] @ replicate 8 0"
    using hello_built_parts [of b] by blast
  have "take 2 ys @ replicate 8 0 @ drop 10 ys = take 10 ys @ drop 10 ys"
    using w(3) take_take [of 2 10 ys] by (simp del: append_take_drop_id take_take)
  then show ?thesis by (simp add: w(1,2) ospf_blank_def to_be_bytes_2_0 to_be_bytes_evals)
qed

lemma hello_built_length:
  assumes "length (hpb_neighbors b) \<le> 16372"
  shows "unat (ospf_packet_length (hello_header (hello_built c b))) = length (hello_wire (hello_built c b))"
proof -
  have "hello_neighbors (hello_built c b) = hpb_neighbors b" by (simp add: hello_built_def)
  then have "length (hello_wire (hello_built c b)) = 44 + 4 * length (hpb_neighbors b)" by simp
  moreover have "unat (ospf_packet_length (hello_header (hello_built c b))) = 44 + 4 * length (hpb_neighbors b)"
    unfolding hello_built_def OspfHeaderBuilder_build_def with_checksum_def OspfHeaderBuilder_new_def
    using assms by (simp add: unat_word_of_nat del: of_nat_add of_nat_mult)
  ultimately show ?thesis by simp
qed

lemma hello_blank_fits:
  assumes "length (hpb_neighbors b) \<le> 16372" "e = Big \<or> odd (length (hpb_neighbors b))"
  shows "sum_fits e (hello_wire (hello_built 0 b))"
proof -
  let ?n = "length (hpb_neighbors b)"
  have "hello_neighbors (hello_built 0 b) = hpb_neighbors b" by (simp add: hello_built_def)
  then have l: "length (hello_wire (hello_built 0 b)) = 44 + 4 * ?n" by simp
  have "\<exists>k. ?n = 2 * k + 1 \<Longrightarrow> (44 + 4 * ?n) mod 8 = 0" by auto
  then have "e = Big \<or> (44 + 4 * ?n) mod 8 = 0" using assms(2) by (auto elim: oddE)
  then show ?thesis using assms(1) by (intro sum_fits_safe) (auto simp: l simp del: length_append)
qed

lemma hello_build_cases:
  fixes b :: OspfHelloPacketBuilder
  defines "n \<equiv> length (hpb_neighbors b)" and "blank \<equiv> hello_wire (hello_built 0 b)"
  shows "n > 16372 \<Longrightarrow> OspfHelloPacketBuilder_build e b = Err (UnsupportedFieldValue PROTOCOL ''Neighbor List Length'' n)"
    and "n \<le> 16372 \<Longrightarrow> sum_fits e blank \<Longrightarrow> \<exists>p c. OspfHelloPacketBuilder_build e b = Ok p \<and> p = hello_built c b \<and>
      unat (ospf_packet_length (hello_header p)) = length (hello_wire p) \<and> internet_checksum (hello_wire p) = 0"
    and "n \<le> 16372 \<Longrightarrow> \<not> sum_fits e blank \<Longrightarrow> OspfHelloPacketBuilder_build e b = Panic"
    and "n \<le> 16372 \<Longrightarrow> e = Big \<or> odd n \<Longrightarrow> sum_fits e blank"
proof -
  show "n > 16372 \<Longrightarrow> OspfHelloPacketBuilder_build e b = Err (UnsupportedFieldValue PROTOCOL ''Neighbor List Length'' n)"
    by (simp add: hello_build_eq n_def)
  show "n \<le> 16372 \<Longrightarrow> e = Big \<or> odd n \<Longrightarrow> sum_fits e blank"
    unfolding n_def blank_def by (rule hello_blank_fits)
  show "n \<le> 16372 \<Longrightarrow> \<not> sum_fits e blank \<Longrightarrow> OspfHelloPacketBuilder_build e b = Panic"
    by (simp add: hello_build_eq checksum_fits n_def blank_def)
  show "\<exists>p c. OspfHelloPacketBuilder_build e b = Ok p \<and> p = hello_built c b \<and>
      unat (ospf_packet_length (hello_header p)) = length (hello_wire p) \<and> internet_checksum (hello_wire p) = 0"
    if "n \<le> 16372" "sum_fits e blank"
  proof (intro exI conjI)
    let ?c = "internet_checksum (hello_wire (hello_built 0 b))"
    show "OspfHelloPacketBuilder_build e b = Ok (hello_built ?c b)"
      using that by (simp add: hello_build_eq checksum_fits n_def blank_def)
    show "unat (ospf_packet_length (hello_header (hello_built ?c b))) = length (hello_wire (hello_built ?c b))"
      using that(1) unfolding n_def by (rule hello_built_length)
    show "internet_checksum (hello_wire (hello_built ?c b)) = 0" by (rule hello_built_verify)
  qed (rule refl)
qed

text \<open>C36: The builder refuses more than 16372 neighbors, the most that a 16-bit packet length leaves room
  for, and its length arithmetic never overflows. Otherwise the result is a packet with the builder's
  values, the length of its serialized form in the header, and a checksum that the receiver's test of the
  protocol accepts; the builder panics exactly when the 128-bit sum of the checksum does not fit, which
  cannot be on a big-endian machine nor with an odd number of neighbors.\<close>

theorem hello_build:
  fixes b :: OspfHelloPacketBuilder
  defines "n \<equiv> length (hpb_neighbors b)" and "blank \<equiv> hello_wire (hello_built 0 b)"
  shows "(n > 16372 \<longrightarrow> OspfHelloPacketBuilder_build e b =
            Err (UnsupportedFieldValue PROTOCOL ''Neighbor List Length'' n)) \<and>
         (n \<le> 16372 \<and> sum_fits e blank \<longrightarrow> (\<exists>p c. OspfHelloPacketBuilder_build e b = Ok p \<and> p = hello_built c b \<and>
            unat (ospf_packet_length (hello_header p)) = length (hello_wire p) \<and>
            internet_checksum (hello_wire p) = 0)) \<and>
         (n \<le> 16372 \<and> \<not> sum_fits e blank \<longrightarrow> OspfHelloPacketBuilder_build e b = Panic) \<and>
         (n \<le> 16372 \<and> (e = Big \<or> odd n) \<longrightarrow> sum_fits e blank)"
  using hello_build_cases [of b e] unfolding n_def blank_def by blast

text \<open>A builder on a router whose packet, see below, its own parser refuses.\<close>

definition refused_builder :: OspfHelloPacketBuilder where
  "refused_builder = OspfHelloPacketBuilder_new 0xFFFFFFFF 64674 (Ipv4Netmask_new 0xFFFFFF00) 10 2 1 40 0 0 []"

theorem hello_build_witness:
  "\<exists>p c. OspfHelloPacketBuilder_build Big refused_builder = Ok p \<and> p = hello_built c refused_builder \<and>
     unat (ospf_packet_length (hello_header p)) = length (hello_wire p) \<and>
     internet_checksum (hello_wire p) = 0"
  using hello_build [where b = refused_builder and e = Big] by (simp add: refused_builder_def OspfHelloPacketBuilder_new_def)

section \<open>Round trip\<close>

lemma octets_be_u32: "from_be_bytes (octets a) = (a :: u32)"
  by (simp add: octets_def)

lemma be_u32_at_append [simp]:
  "length xs = i \<Longrightarrow> be_u32_at (xs @ octets a @ ys) i = a"
  "length xs = i \<Longrightarrow> be_u32_at (xs @ to_be_bytes 4 a @ ys) i = a"
  by (simp_all add: be_u32_at_def octets_be_u32)

lemma neighbors_at_octets:
  "length xs = i \<Longrightarrow> neighbors_at (xs @ concat (map octets ns) @ ys) i (length ns) = ns"
proof (induction ns arbitrary: xs i)
  case Nil
  then show ?case by (simp add: neighbors_at_def)
next
  case (Cons a ns)
  have "neighbors_at ((xs @ octets a) @ concat (map octets ns) @ ys) (i + 4) (length ns) = ns"
    using Cons.prems by (intro Cons.IH) simp
  then show ?case using Cons.prems by (simp add: neighbors_at_Suc)
qed

definition hello_valid :: "OspfHelloPacket \<Rightarrow> bool" where
  "hello_valid p \<longleftrightarrow>
     ospf_version (hello_header p) = V2 \<and> ospf_authentication_type (hello_header p) = AuthNull \<and>
     ospf_authentication_header (hello_header p) = NullHeader \<and>
     unat (ospf_packet_length (hello_header p)) = 44 + 4 * length (hello_neighbors p) \<and>
     Ipv4Netmask_new (netmask_number (hello_network_mask p)) = hello_network_mask p"

lemma hello_fields_wire:
  assumes "hello_valid p"
  shows "hello_fields (hello_header p) (hello_wire p @ trailing) = p"
proof -
  let ?H = "OspfHeader_bytes (hello_header p)" and ?M = "to_be_bytes 4 (netmask_number (hello_network_mask p))"
    and ?D = "to_be_bytes 4 (hello_router_dead_interval p)" and ?R = "octets (hello_designated_router p)"
    and ?B = "octets (hello_backup_designated_router p)" and ?N = "concat (map octets (hello_neighbors p))"
  obtain i1 i2 where i: "to_be_bytes 2 (hello_interval p) = [i1, i2]" "from_be_bytes [i1, i2] = hello_interval p"
    by (rule to_be_bytes_2_cases)
  let ?O = "[i1, i2, hello_options p, hello_router_priority p]"
  let ?d = "hello_wire p @ trailing"
  have d: "?d = ?H @ ?M @ ?O @ ?D @ ?R @ ?B @ ?N @ trailing"
    by (simp add: OspfHelloPacket_payload_def i)
  have "be_u32_at ?d 24 = netmask_number (hello_network_mask p)"
    "be_u32_at ?d 32 = hello_router_dead_interval p"
    "be_u32_at ?d 36 = hello_designated_router p"
    "be_u32_at ?d 40 = hello_backup_designated_router p"
    "neighbors_at ?d 44 (length (hello_neighbors p)) = hello_neighbors p"
    unfolding d
    using be_u32_at_append(2) [of ?H 24] be_u32_at_append(2) [of "?H @ ?M @ ?O" 32]
      be_u32_at_append(1) [of "?H @ ?M @ ?O @ ?D" 36] be_u32_at_append(1) [of "?H @ ?M @ ?O @ ?D @ ?R" 40]
      neighbors_at_octets [of "?H @ ?M @ ?O @ ?D @ ?R @ ?B" 44]
    by simp_all
  moreover have "?d ! 28 = i1" "?d ! 29 = i2" "?d ! 30 = hello_options p" "?d ! 31 = hello_router_priority p"
    unfolding d by (simp_all add: nth_append)
  ultimately show ?thesis
    using assms i(2) by (simp add: hello_fields_def hello_valid_def)
qed

lemma hello_valid_header:
  assumes "hello_valid p"
  shows "OspfHeader_try_from (hello_wire p @ trailing) =
    (let expected = single_fold (ospf_blank (hello_wire p)); actual = ospf_checksum (hello_header p) in
     if actual \<noteq> expected then Err (InvalidChecksum PROTOCOL expected actual) else Ok (hello_header p))"
proof -
  have "(20 + 4 * n) mod 4 = 0" for n :: nat by presburger
  then show ?thesis
    using assms OspfHeader_bytes_parse [of "hello_header p" "OspfHelloPacket_payload p" trailing]
    by (simp add: hello_valid_def ospf_expected_def Let_def)
qed

lemma hello_valid_parse:
  assumes "hello_valid p"
  shows "OspfHelloPacket_try_from (hello_wire p @ trailing) =
    (let expected = single_fold (ospf_blank (hello_wire p)); actual = ospf_checksum (hello_header p) in
     if actual \<noteq> expected then Err (InvalidChecksum PROTOCOL expected actual) else Ok p)"
  using hello_valid_header [OF assms, of trailing] assms hello_fields_wire [OF assms, of trailing]
  by (auto simp: OspfHelloPacket_try_from_eq hello_parse_spec_def OspfHeader_try_from_eq Let_def hello_valid_def
      split: if_splits)

text \<open>Packets whose checksum the parser accepts travel: the wire format of hello packets.\<close>

definition hello_sendable :: "OspfHelloPacket \<Rightarrow> bool" where
  "hello_sendable p \<longleftrightarrow> hello_valid p \<and> ospf_checksum (hello_header p) = single_fold (ospf_blank (hello_wire p))"

interpretation hello_format: wire_format hello_wire OspfHelloPacket_try_from hello_sendable
  by unfold_locales (simp only: hello_sendable_def hello_valid_parse Let_def simp_thms if_False)

interpretation ospf_format: wire_format
  "\<lambda>(h, rest). OspfHeader_bytes h @ rest"
  "\<lambda>d. obind (OspfHeader_try_from d) (\<lambda>h. Ok (h, drop 24 (take (unat (ospf_packet_length h)) d)))"
  "\<lambda>(h, rest). ospf_wire h rest"
  by unfold_locales (auto simp: OspfHeader_round_trip [simplified] ospf_wire_def)

lemma hello_built_valid:
  assumes "length (hpb_neighbors b) \<le> 16372" "hpb_network_mask b = Ipv4Netmask_new m"
  shows "hello_valid (hello_built c b)"
proof -
  have "netmask_number (Ipv4Netmask_new m) = m" for m
    by (simp add: Ipv4Netmask_new_def split: option.split)
  then show ?thesis
    using assms unfolding hello_valid_def hello_built_def OspfHeaderBuilder_build_def with_checksum_def
      OspfHeaderBuilder_new_def
    by (simp add: unat_word_of_nat del: of_nat_add of_nat_mult)
qed

lemma hello_self_parse:
  assumes "OspfHelloPacketBuilder_build e b = Ok p" and "hpb_network_mask b = Ipv4Netmask_new m"
  shows "OspfHelloPacket_try_from (hello_wire p @ trailing) =
    (let s = ospf_blank (hello_wire p) in
     if half 65536 (ones_sum s) < 65536 then Ok p
     else Err (InvalidChecksum PROTOCOL (single_fold s) (internet_checksum s)))"
proof -
  define c where "c = internet_checksum (hello_wire (hello_built 0 b))"
  have n: "length (hpb_neighbors b) \<le> 16372" and p: "p = hello_built c b"
    using hello_build_OkD [OF assms(1)] by (simp_all add: c_def)
  have len: "length (hello_wire (hello_built 0 b)) < 2 ^ 16"
    using n by (simp add: hello_built_def)
  have "ospf_checksum (hello_header p) = c"
    by (simp add: p hello_built_def OspfHeaderBuilder_build_def with_checksum_def)
  then show ?thesis
    using hello_valid_parse [OF hello_built_valid [OF n assms(2)], of c trailing] single_fold_eq_iff [OF len]
    by (auto simp: p hello_built_blank c_def Let_def)
qed

text \<open>C33: A hello packet that this router builds and sends is parsed back to the packet it was, unless
  the one fold of the parser's checksum leaves a carry: then the router refuses its own packet, with
  the two checksums in the error. Bytes behind the packet do not matter.\<close>

theorem hello_round_trip:
  assumes "OspfHelloPacketBuilder_build e b = Ok p" and "hpb_network_mask b = Ipv4Netmask_new m"
  shows "OspfHelloPacket_try_from (hello_wire p @ trailing) =
    (let s = ospf_blank (hello_wire p) in
     if half 65536 (ones_sum s) < 65536 then Ok p
     else Err (InvalidChecksum PROTOCOL (single_fold s) (internet_checksum s)))"
  using assms by (rule hello_self_parse)

lemma refused_builder_sum:
  "hpb_network_mask refused_builder = Ipv4Netmask_new 0xFFFFFF00"
  "ones_sum (hello_wire (hello_built 0 refused_builder)) = 327679"
proof -
  have m: "netmask_number (Ipv4Netmask_new 0xFFFFFF00) = 0xFFFFFF00"
    by (simp add: Ipv4Netmask_new_def split: option.split)
  show "hpb_network_mask refused_builder = Ipv4Netmask_new 0xFFFFFF00"
    by (simp add: refused_builder_def OspfHelloPacketBuilder_new_def)
  show "ones_sum (hello_wire (hello_built 0 refused_builder)) = 327679"
    by (simp add: hello_built_def OspfHeader_bytes_def OspfHeaderBuilder_build_def with_checksum_def
        OspfHeaderBuilder_new_def OspfHelloPacket_payload_def refused_builder_def
        OspfHelloPacketBuilder_new_def octets_def to_be_bytes_evals to_be_bytes_8_0 m)
qed

theorem hello_round_trip_witness:
  "\<exists>p. OspfHelloPacketBuilder_build Big refused_builder = Ok p \<and>
     OspfHelloPacket_try_from (hello_wire p) = Err (InvalidChecksum PROTOCOL 0xFFFC 0xFFFB)"
proof -
  let ?b = refused_builder and ?c = "internet_checksum (hello_wire (hello_built 0 refused_builder))"
  have "length (hello_wire (hello_built 0 ?b)) < 2 ^ 63"
    by (simp add: hello_built_def refused_builder_def OspfHelloPacketBuilder_new_def)
  then have b: "OspfHelloPacketBuilder_build Big ?b = Ok (hello_built ?c ?b)"
    by (simp add: hello_build_eq checksum_Ok refused_builder_def OspfHelloPacketBuilder_new_def del: length_append)
  have "single_fold (hello_wire (hello_built 0 ?b)) = 0xFFFC" "?c = 0xFFFB"
    by (simp_all add: single_fold_def internet_checksum_def refused_builder_sum carry_fold.simps)
  then show ?thesis
    using b hello_round_trip [OF b refused_builder_sum(1), of "[]"]
    by (simp add: hello_built_blank refused_builder_sum Let_def)
qed

end
