(* ===== verification/Netlink_Processor.thy ===== *)
theory Netlink_Processor
  imports Router_Config
begin

text \<open>
  The netlink message processor, \<open>rusty-router-platform-linux/src/netlink/processor.rs\<close>: which
  link status and which address a kernel message reports. The message types belong to the crates
  \<open>netlink-packet-core\<close> and \<open>netlink-packet-route\<close>; the datatypes below keep the variants and
  fields that the program looks at, and one constructor for all the others. The two address family
  numbers are constants of that crate and are arguments here.
\<close>

section \<open>Messages\<close>

datatype link_state = StateUp | StateDown | OtherState

datatype link_nla = IfName string | OperState link_state | OtherLinkNla

record LinkMessage =
  interface_family :: u8
  lm_index :: u32
  link_nlas :: "link_nla list"

datatype address_nla = AddressNla "u8 list" | OtherAddressNla

record AddressMessage =
  am_family :: u8
  prefix_len :: u8
  am_index :: u32
  address_nlas :: "address_nla list"

datatype RtnlMessage =
    NewLink LinkMessage
  | DelLink LinkMessage
  | NewAddress AddressMessage
  | DelAddress AddressMessage
  | OtherRtnl

datatype NetlinkPayload = InnerMessage RtnlMessage | Done | OtherPayload

record NetlinkMessage =
  nl_length :: u32
  nl_flags :: u16
  sequence_number :: u32
  payload :: NetlinkPayload

record address_families =
  AF_INET :: u16
  AF_INET6 :: u16

section \<open>The processor\<close>

record NetlinkMessageProcessor =
  device_links :: "(string, string) hash_map"

text \<open>Two links may name one device; then the one that is iterated last gives the device its name.\<close>

definition NetlinkMessageProcessor_new :: "order_choice \<Rightarrow> Router \<Rightarrow> NetlinkMessageProcessor" where
  "NetlinkMessageProcessor_new f config =
     \<lparr>device_links = hm_collect (map (\<lambda>(name, link). (link_device link, name)) (iter_order f (network_links config)))\<rparr>"

fun link_attribute ::
  "link_nla \<Rightarrow> string option \<times> NetworkLinkOperationalState \<Rightarrow> string option \<times> NetworkLinkOperationalState" where
  "link_attribute (IfName ifname) (device, state) = (Some ifname, state)"
| "link_attribute (OperState s) (device, state) =
     (device, (case s of StateUp \<Rightarrow> Up | StateDown \<Rightarrow> Down | OtherState \<Rightarrow> Unknown))"
| "link_attribute OtherLinkNla (device, state) = (device, state)"

definition process_link ::
  "NetlinkMessageProcessor \<Rightarrow> LinkMessage \<Rightarrow> (u64 \<times> NetworkLinkStatus) option" where
  "process_link p msg =
     (if interface_family msg \<noteq> 0 then None
      else
        let index = ucast (lm_index msg);
            (device, state) = fold link_attribute (link_nlas msg) (None, Unknown)
        in case device of
             None \<Rightarrow> None
           | Some device \<Rightarrow>
               Some (index, \<lparr>link_name = hm_get (device_links p) device, status_device = device,
                             operational_state = state\<rparr>))"

fun process_link_message ::
  "NetlinkMessageProcessor \<Rightarrow> NetlinkPayload \<Rightarrow> (u64 \<times> NetworkLinkStatus) option" where
  "process_link_message p (InnerMessage (NewLink msg)) = process_link p msg"
| "process_link_message p (InnerMessage (DelLink msg)) = process_link p msg"
| "process_link_message p _ = None"

fun inet_attribute :: "address_nla \<Rightarrow> IpAddr option \<Rightarrow> IpAddr option" where
  "inet_attribute (AddressNla data) address =
     (if length data = 4 then Some (V4 (from_be_bytes [data ! 0, data ! 1, data ! 2, data ! 3])) else address)"
| "inet_attribute OtherAddressNla address = address"

fun inet6_attribute :: "address_nla \<Rightarrow> IpAddr option \<Rightarrow> IpAddr option" where
  "inet6_attribute (AddressNla data) address =
     (if length data = 16
      then Some (V6 (from_be_bytes
             [data ! 0, data ! 1, data ! 2, data ! 3, data ! 4, data ! 5, data ! 6, data ! 7,
              data ! 8, data ! 9, data ! 10, data ! 11, data ! 12, data ! 13, data ! 14, data ! 15]))
      else address)"
| "inet6_attribute OtherAddressNla address = address"

definition process_address ::
  "address_families \<Rightarrow> AddressMessage \<Rightarrow> (u64 \<times> IpAddress) option" where
  "process_address af msg =
     (let index = ucast (am_index msg);
          prefix = ucast (prefix_len msg);
          address = None;
          address = (if ucast (am_family msg) = AF_INET af then fold inet_attribute (address_nlas msg) address else address);
          address = (if ucast (am_family msg) = AF_INET6 af then fold inet6_attribute (address_nlas msg) address else address)
      in case address of None \<Rightarrow> None | Some address \<Rightarrow> Some (index, IpAddress address prefix))"

fun process_address_message ::
  "address_families \<Rightarrow> NetlinkPayload \<Rightarrow> (u64 \<times> IpAddress) option" where
  "process_address_message af (InnerMessage (NewAddress msg)) = process_address af msg"
| "process_address_message af (InnerMessage (DelAddress msg)) = process_address af msg"
| "process_address_message af _ = None"

section \<open>What the processor reports\<close>

text \<open>The configured name of a device.\<close>

lemma device_links_sound:
  assumes "config_ok config" "hm_get (device_links (NetlinkMessageProcessor_new f config)) d = Some n"
  shows "\<exists>link. hm_get (network_links config) n = Some link \<and> link_device link = d"
proof -
  have "(d, n) \<in> set (map (\<lambda>(name, link). (link_device link, name)) (network_links config))"
    using assms(2) by (auto simp: NetlinkMessageProcessor_new_def hm_get_collect dest!: map_of_SomeD)
  with assms(1) show ?thesis by (auto simp: config_ok_def)
qed

lemma device_links_complete:
  "hm_get (network_links config) n = Some link \<Longrightarrow>
   hm_get (device_links (NetlinkMessageProcessor_new f config)) (link_device link) \<noteq> None"
proof -
  assume "hm_get (network_links config) n = Some link"
  then have "(link_device link, n) \<in> set (map (\<lambda>(name, link). (link_device link, name)) (iter_order f (network_links config)))"
    by (force dest: map_of_SomeD)
  then have "link_device link \<in> fst ` set (rev (map (\<lambda>(name, link). (link_device link, name)) (iter_order f (network_links config))))"
    by (metis fst_conv image_eqI set_rev)
  then show ?thesis
    by (simp only: NetlinkMessageProcessor_new_def NetlinkMessageProcessor.simps hm_get_collect map_of_eq_None_iff) simp
qed

lemma device_links_none:
  "hm_get (device_links (NetlinkMessageProcessor_new f config)) d = None \<Longrightarrow>
   hm_get (network_links config) n = Some link \<Longrightarrow> link_device link \<noteq> d"
  using device_links_complete by metis

text \<open>The last attribute of a kind, with a default.\<close>

definition last_or :: "'a \<Rightarrow> 'a list \<Rightarrow> 'a" where
  "last_or d xs = (if xs = [] then d else last xs)"

lemma last_or_simps [simp]: "last_or d [] = d" "last_or d (x # xs) = last_or x xs"
  by (simp_all add: last_or_def)

fun nla_names :: "link_nla list \<Rightarrow> string list" where
  "nla_names [] = []"
| "nla_names (IfName n # xs) = n # nla_names xs"
| "nla_names (_ # xs) = nla_names xs"

fun nla_states :: "link_nla list \<Rightarrow> NetworkLinkOperationalState list" where
  "nla_states [] = []"
| "nla_states (OperState s # xs) =
     (case s of StateUp \<Rightarrow> Up | StateDown \<Rightarrow> Down | OtherState \<Rightarrow> Unknown) # nla_states xs"
| "nla_states (_ # xs) = nla_states xs"

lemma fold_link_attribute:
  "fold link_attribute xs (d, s) = (last_or d (map Some (nla_names xs)), last_or s (nla_states xs))"
proof (induction xs arbitrary: d s)
  case (Cons x xs)
  then show ?case by (cases x) simp_all
qed simp

fun link_message :: "NetlinkPayload \<Rightarrow> LinkMessage option" where
  "link_message (InnerMessage (NewLink msg)) = Some msg"
| "link_message (InnerMessage (DelLink msg)) = Some msg"
| "link_message _ = None"

lemma process_link_message_eq:
  "process_link_message p m = Option.bind (link_message m) (process_link p)"
  by (cases "(p, m)" rule: process_link_message.cases) simp_all

lemma process_link_eq:
  "process_link p msg =
     (if interface_family msg = 0 \<and> nla_names (link_nlas msg) \<noteq> []
      then Some (ucast (lm_index msg),
             \<lparr>link_name = hm_get (device_links p) (last (nla_names (link_nlas msg))),
              status_device = last (nla_names (link_nlas msg)),
              operational_state = last_or Unknown (nla_states (link_nlas msg))\<rparr>)
      else None)"
  by (auto simp: process_link_def fold_link_attribute last_or_def last_map Let_def split: option.splits)

text \<open>C40: A kernel message reports a link exactly when it announces or removes a link of family 0 and
  carries a name; the report has the last name and the last state in the message (\<open>Unknown\<close>
  without one), and its configured name is one that the configuration gives to that device,
  missing only when the configuration has no link for the device, whatever the iteration order.\<close>

theorem link_report:
  assumes "config_ok config"
  shows "case process_link_message (NetlinkMessageProcessor_new f config) m of
      None \<Rightarrow> (\<forall>msg. link_message m = Some msg \<longrightarrow> interface_family msg \<noteq> 0 \<or> nla_names (link_nlas msg) = [])
    | Some (index, s) \<Rightarrow> \<exists>msg. link_message m = Some msg \<and> interface_family msg = 0 \<and>
        unat index = unat (lm_index msg) \<and> status_device s = last (nla_names (link_nlas msg)) \<and>
        operational_state s = last_or Unknown (nla_states (link_nlas msg)) \<and>
        (case link_name s of
           None \<Rightarrow> \<forall>n link. hm_get (network_links config) n = Some link \<longrightarrow> link_device link \<noteq> status_device s
         | Some n \<Rightarrow> \<exists>link. hm_get (network_links config) n = Some link \<and> link_device link = status_device s)"
proof (cases "process_link_message (NetlinkMessageProcessor_new f config) m")
  case None
  then show ?thesis by (auto simp: process_link_message_eq process_link_eq split: if_splits)
next
  case (Some r)
  have u: "unat (ucast w :: u64) = unat w" for w :: u32
    using unat_less_2p [of w] by (simp add: unsigned_ucast_eq take_bit_eq_mod)
  obtain index s where r: "r = (index, s)" by (cases r)
  from Some obtain msg where "link_message m = Some msg" "process_link (NetlinkMessageProcessor_new f config) msg = Some (index, s)"
    by (auto simp: process_link_message_eq r bind_eq_Some_conv)
  moreover have "case link_name s of
           None \<Rightarrow> \<forall>n link. hm_get (network_links config) n = Some link \<longrightarrow> link_device link \<noteq> status_device s
         | Some n \<Rightarrow> \<exists>link. hm_get (network_links config) n = Some link \<and> link_device link = status_device s"
    using calculation(2) device_links_sound [OF assms, of f] device_links_none [of f config]
    by (auto simp: process_link_eq split: if_splits option.splits simp del: map_of_eq_Some_iff)
  ultimately show ?thesis
    using Some by (auto simp: r process_link_eq u split: if_splits)
qed

definition sample_config :: Router where
  "sample_config =
     \<lparr>network_links = [(''lan'', \<lparr>link_device = ''eth0'', network_link_type = GenericInterface\<rparr>)],
      network_interfaces = [(''Inside'', \<lparr>interface_vrf = None, interface_network_link = ''lan'', interface_ip_addresses = []\<rparr>)],
      vrfs = []\<rparr>"

lemma sample_config_ok: "config_ok sample_config"
  by (simp add: config_ok_def sample_config_def)

definition sample_link_message :: LinkMessage where
  "sample_link_message = \<lparr>interface_family = 0, lm_index = 2, link_nlas = [OtherLinkNla, IfName ''eth0'', OperState StateUp]\<rparr>"

theorem link_report_witness:
  "\<exists>s. process_link_message (NetlinkMessageProcessor_new (\<lambda>_. 0) sample_config) (InnerMessage (NewLink sample_link_message))
       = Some (2, s) \<and> status_device s = ''eth0'' \<and> link_name s = Some ''lan'' \<and> operational_state s = Up"
  using link_report [OF sample_config_ok, of "InnerMessage (NewLink sample_link_message)" "\<lambda>_. 0"]
  by (auto simp: process_link_eq sample_link_message_def NetlinkMessageProcessor_new_def sample_config_def
      hm_collect_def insert_at_def split: option.splits)

section \<open>Addresses\<close>

fun nla_addresses :: "nat \<Rightarrow> address_nla list \<Rightarrow> u8 list list" where
  "nla_addresses n [] = []"
| "nla_addresses n (AddressNla data # xs) = (if length data = n then data # nla_addresses n xs else nla_addresses n xs)"
| "nla_addresses n (OtherAddressNla # xs) = nla_addresses n xs"

lemma list_of_nth_4: "length data = 4 \<Longrightarrow> [data ! 0, data ! 1, data ! 2, data ! 3] = data"
  using map_nth [of data] by (simp add: upt_conv_Cons eval_nat_numeral)

lemma list_of_nth_16:
  "length data = 16 \<Longrightarrow>
   [data ! 0, data ! 1, data ! 2, data ! 3, data ! 4, data ! 5, data ! 6, data ! 7,
    data ! 8, data ! 9, data ! 10, data ! 11, data ! 12, data ! 13, data ! 14, data ! 15] = data"
  using map_nth [of data] by (simp add: upt_conv_Cons eval_nat_numeral)

lemma fold_inet_attribute:
  "fold inet_attribute xs a = last_or a (map (\<lambda>d. Some (V4 (from_be_bytes d))) (nla_addresses 4 xs))"
proof (induction xs arbitrary: a)
  case (Cons x xs)
  then show ?case by (cases x) (simp_all add: list_of_nth_4 del: One_nat_def)
qed simp

lemma fold_inet6_attribute:
  "fold inet6_attribute xs a = last_or a (map (\<lambda>d. Some (V6 (from_be_bytes d))) (nla_addresses 16 xs))"
proof (induction xs arbitrary: a)
  case (Cons x xs)
  then show ?case by (cases x) (simp_all add: list_of_nth_16 del: One_nat_def)
qed simp

fun address_message :: "NetlinkPayload \<Rightarrow> AddressMessage option" where
  "address_message (InnerMessage (NewAddress msg)) = Some msg"
| "address_message (InnerMessage (DelAddress msg)) = Some msg"
| "address_message _ = None"

lemma process_address_message_eq:
  "process_address_message af m = Option.bind (address_message m) (process_address af)"
  by (cases "(af, m)" rule: process_address_message.cases) simp_all

text \<open>The address that a message of a family reports: its last address of the family's length.\<close>

definition reported_address :: "address_families \<Rightarrow> AddressMessage \<Rightarrow> IpAddr option" where
  "reported_address af msg =
     (let v4 = nla_addresses 4 (address_nlas msg); v6 = nla_addresses 16 (address_nlas msg) in
      if ucast (am_family msg) = AF_INET af \<and> v4 \<noteq> [] then Some (V4 (from_be_bytes (last v4)))
      else if ucast (am_family msg) = AF_INET6 af \<and> v6 \<noteq> [] then Some (V6 (from_be_bytes (last v6)))
      else None)"

lemma process_address_eq:
  assumes "AF_INET af \<noteq> AF_INET6 af"
  shows "process_address af msg =
    map_option (\<lambda>a. (ucast (am_index msg), IpAddress a (ucast (prefix_len msg)))) (reported_address af msg)"
  using assms
  by (auto simp: process_address_def reported_address_def fold_inet_attribute fold_inet6_attribute last_or_def
      last_map Let_def split: option.splits)

text \<open>A kernel message reports an address exactly when it announces or removes one of family
  \<open>AF_INET\<close> or \<open>AF_INET6\<close> with an attribute of that family's length, four or sixteen bytes:
  the last such attribute, most significant byte first, with the message's prefix length, and
  attributes of any other length are skipped without a panic.\<close>

theorem address_report:
  assumes "AF_INET af \<noteq> AF_INET6 af"
  shows "process_address_message af m =
    Option.bind (address_message m) (\<lambda>msg.
      map_option (\<lambda>a. (ucast (am_index msg), IpAddress a (ucast (prefix_len msg)))) (reported_address af msg))"
  unfolding process_address_message_eq process_address_eq [OF assms] ..

theorem address_report_witness:
  "process_address_message \<lparr>AF_INET = 2, AF_INET6 = 10\<rparr>
     (InnerMessage (NewAddress \<lparr>am_family = 2, prefix_len = 24, am_index = 7,
        address_nlas = [AddressNla [1, 2], AddressNla [10, 0, 0, 1], OtherAddressNla]\<rparr>))
   = Some (7, IpAddress (V4 0x0A000001) 24)"
  by (subst address_report) (simp_all add: reported_address_def from_be_bytes_def be_nat_def)

end
