(* ===== verification/Interface_Database.thy ===== *)
theory Interface_Database
  imports Router_Config
begin

text \<open>
  The interface manager's database, \<open>rusty-router-platform-linux/src/interface/model.rs\<close> and
  \<open>database.rs\<close>: the items with their canonical identifiers, and for links and for interfaces a
  table of items with three indexes, by name, by device index and by device name. The source writes
  the two tables out with the same operations; here an operation is defined once on a table and
  once more on the database for each of the two.
\<close>

section \<open>Items\<close>

record CanonicalNetworkId =
  net_id :: "u64 option"
  net_name :: "string option"
  net_device :: "string option"

definition CanonicalNetworkId_new :: "u64 option \<Rightarrow> string option \<Rightarrow> string option \<Rightarrow> CanonicalNetworkId" where
  "CanonicalNetworkId_new i n d = \<lparr>net_id = i, net_name = n, net_device = d\<rparr>"

text \<open>An \<open>Instant\<close> is a number of nanoseconds; the clock's value is an argument.\<close>

type_synonym instant = nat

record 'a NetworkStatusItem =
  item_id :: CanonicalNetworkId
  status :: 'a
  refreshed :: instant

definition NetworkStatusItem_new :: "instant \<Rightarrow> CanonicalNetworkId \<Rightarrow> 'a \<Rightarrow> 'a NetworkStatusItem" where
  "NetworkStatusItem_new now i s = \<lparr>item_id = i, status = s, refreshed = now\<rparr>"

section \<open>A table\<close>

record 'a status_table =
  next_index :: u64
  by_name :: "(string, u64) hash_map"
  by_device_index :: "(u64, u64) hash_map"
  by_device_name :: "(string, u64) hash_map"
  items :: "(u64, 'a NetworkStatusItem) hash_map"

definition empty_table :: "'a status_table" where
  "empty_table = \<lparr>next_index = 0, by_name = [], by_device_index = [], by_device_name = [], items = []\<rparr>"

text \<open>The chains \<open>and_then(index.remove).and_then(items.remove)\<close>, one for each index.\<close>

definition take_item :: "u64 \<Rightarrow> 'a status_table \<Rightarrow> 'a NetworkStatusItem option \<times> 'a status_table" where
  "take_item index t =
     (case hm_get (items t) index of
        None \<Rightarrow> (None, t)
      | Some item \<Rightarrow> (Some item, t\<lparr>items := hm_remove index (items t)\<rparr>))"

definition take_by_name :: "string option \<Rightarrow> 'a status_table \<Rightarrow> 'a NetworkStatusItem option \<times> 'a status_table" where
  "take_by_name key t =
     (case key of None \<Rightarrow> (None, t) | Some name \<Rightarrow>
        (case hm_get (by_name t) name of
           None \<Rightarrow> (None, t)
         | Some index \<Rightarrow> take_item index (t\<lparr>by_name := hm_remove name (by_name t)\<rparr>)))"

definition take_by_device_name :: "string option \<Rightarrow> 'a status_table \<Rightarrow> 'a NetworkStatusItem option \<times> 'a status_table" where
  "take_by_device_name key t =
     (case key of None \<Rightarrow> (None, t) | Some name \<Rightarrow>
        (case hm_get (by_device_name t) name of
           None \<Rightarrow> (None, t)
         | Some index \<Rightarrow> take_item index (t\<lparr>by_device_name := hm_remove name (by_device_name t)\<rparr>)))"

definition take_by_device_index :: "u64 option \<Rightarrow> 'a status_table \<Rightarrow> 'a NetworkStatusItem option \<times> 'a status_table" where
  "take_by_device_index key t =
     (case key of None \<Rightarrow> (None, t) | Some device_index \<Rightarrow>
        (case hm_get (by_device_index t) device_index of
           None \<Rightarrow> (None, t)
         | Some index \<Rightarrow> take_item index (t\<lparr>by_device_index := hm_remove device_index (by_device_index t)\<rparr>)))"

lemma length_take_item:
  "take_item index t = (Some item, t') \<Longrightarrow> length (items t') < length (items t)"
  "take_item index t = (None, t') \<Longrightarrow> length (items t') \<le> length (items t)"
  by (auto simp: take_item_def length_hm_remove split: option.splits)

lemma length_take:
  "take_by_name n t = (Some item, t') \<Longrightarrow> length (items t') < length (items t)"
  "take_by_name n t = (None, t') \<Longrightarrow> length (items t') \<le> length (items t)"
  "take_by_device_name n t = (Some item, t') \<Longrightarrow> length (items t') < length (items t)"
  "take_by_device_name n t = (None, t') \<Longrightarrow> length (items t') \<le> length (items t)"
  "take_by_device_index i t = (Some item, t') \<Longrightarrow> length (items t') < length (items t)"
  "take_by_device_index i t = (None, t') \<Longrightarrow> length (items t') \<le> length (items t)"
  by (auto simp: take_by_name_def take_by_device_name_def take_by_device_index_def
      dest: length_take_item split: option.splits)

text \<open>
  The removal, which calls itself on the identifier of every item that it removes. An item leaves
  the table before the call, so the number of items is a measure, but the later calls run
  on what the earlier ones left: the domain is shown to be everything by the bound below.
\<close>

function remove_status_item ::
  "CanonicalNetworkId \<Rightarrow> 'a status_table \<times> 'a NetworkStatusItem list \<Rightarrow> 'a status_table \<times> 'a NetworkStatusItem list" where
  "remove_status_item i (t, deleted) =
     (let (t, deleted) =
            (case take_by_name (net_name i) t of
               (None, t) \<Rightarrow> (t, deleted)
             | (Some item, t) \<Rightarrow>
                 let (t, deleted) = remove_status_item (item_id item) (t, deleted)
                 in (t, deleted @ [item]));
          (t, deleted) =
            (case take_by_device_name (net_device i) t of
               (None, t) \<Rightarrow> (t, deleted)
             | (Some item, t) \<Rightarrow>
                 let (t, deleted) = remove_status_item (item_id item) (t, deleted)
                 in (t, deleted @ [item]));
          (t, deleted) =
            (case take_by_device_index (net_id i) t of
               (None, t) \<Rightarrow> (t, deleted)
             | (Some item, t) \<Rightarrow>
                 let (t, deleted) = remove_status_item (item_id item) (t, deleted)
                 in (t, deleted @ [item]))
      in (t, deleted))"
  by pat_completeness auto

lemma stage_bound:
  assumes "(case p of (None, t) \<Rightarrow> (t, d)
     | (Some item, t) \<Rightarrow> let (t, d) = R (item_id item) (t, d) in (t, d @ [item])) = (t', d')"
    and "length (items (snd p)) \<le> n"
    and "\<And>x t item. (x, t) = p \<Longrightarrow> x = Some item \<Longrightarrow>
      length (items (fst (R (item_id item) (t, d)))) \<le> length (items (fst (t, d)))"
  shows "length (items t') \<le> n"
proof (cases p)
  case (Pair x t)
  with assms show ?thesis
    by (cases x) (auto simp: Let_def split: prod.splits intro: le_trans)
qed

lemma length_take_le:
  "length (items (snd (take_by_name n t))) \<le> length (items t)"
  "length (items (snd (take_by_device_name n t))) \<le> length (items t)"
  "length (items (snd (take_by_device_index i t))) \<le> length (items t)"
  using length_take(1,2) [of n t] length_take(3,4) [of n t] length_take(5,6) [of i t]
  by (metis not_None_eq less_imp_le prod.collapse)+

lemma remove_status_item_bound:
  "remove_status_item_dom (i, td) \<Longrightarrow> length (items (fst (remove_status_item i td))) \<le> length (items (fst td))"
proof (induction i td rule: remove_status_item.pinduct)
  case (1 i t deleted)
  let ?stage = "\<lambda>p d. case p of (None, t) \<Rightarrow> (t, d)
     | (Some item, t) \<Rightarrow> let (t, d) = remove_status_item (item_id item) (t, d) in (t, d @ [item])"
  obtain t1 d1 where s1: "?stage (take_by_name (net_name i) t) deleted = (t1, d1)" by fastforce
  obtain t2 d2 where s2: "?stage (take_by_device_name (net_device i) t1) d1 = (t2, d2)" by fastforce
  obtain t3 d3 where s3: "?stage (take_by_device_index (net_id i) t2) d2 = (t3, d3)" by fastforce
  have r: "remove_status_item i (t, deleted) = (t3, d3)"
    using 1(1) s1 s2 s3 by (simp add: remove_status_item.psimps Let_def)
  have "length (items t1) \<le> length (items t)"
    by (rule stage_bound [OF s1 length_take_le(1) 1(2)])
  moreover have "length (items t2) \<le> length (items t1)"
    by (rule stage_bound [OF s2 length_take_le(2) 1(3) [OF s1 [symmetric] refl]])
  moreover have "length (items t3) \<le> length (items t2)"
    by (rule stage_bound [OF s3 length_take_le(3) 1(4) [OF s1 [symmetric] refl s2 [symmetric] refl]])
  ultimately show ?case by (simp add: r)
qed

lemmas stage_dom_bound = stage_bound [where R = remove_status_item, OF sym _ remove_status_item_bound]

termination remove_status_item
proof (relation "measure (\<lambda>(i, (t, d)). length (items t))")
  let ?stage = "\<lambda>p d. case p of (None, t) \<Rightarrow> (t, d)
     | (Some item, t) \<Rightarrow> let (t, d) = remove_status_item (item_id item) (t, d) in (t, d @ [item])"
  fix i :: CanonicalNetworkId and t :: "'a status_table" and deleted
  {
    fix x y x2
    assume "(x, y) = take_by_name (net_name i) t" "x = Some x2"
    then show "((item_id x2, y, deleted), i, t, deleted) \<in> measure (\<lambda>(i, t, d). length (items t))"
      by (auto dest: length_take [OF sym])
  }
  fix x xa y
  assume x: "x = ?stage (take_by_name (net_name i) t) deleted" "(xa, y) = x"
  {
    fix xb ya x2
    assume *: "(xb, ya) = take_by_device_name (net_device i) xa" "xb = Some x2"
      "\<And>x y x2. (x, y) = take_by_name (net_name i) t \<Longrightarrow> x = Some x2 \<Longrightarrow>
        remove_status_item_dom (item_id x2, y, deleted)"
    from trans [OF x(2,1)] have "length (items xa) \<le> length (items t)"
      by (rule stage_dom_bound [OF _ length_take_le(1)]) (rule *(3))
    moreover have "length (items ya) < length (items xa)" using *(1,2) by (auto dest: length_take [OF sym])
    ultimately show "((item_id x2, ya, y), i, t, deleted) \<in> measure (\<lambda>(i, t, d). length (items t))"
      by simp
  }
  {
    fix xb xc ya xd yb x2
    assume *: "xb = ?stage (take_by_device_name (net_device i) xa) y" "(xc, ya) = xb"
      "(xd, yb) = take_by_device_index (net_id i) xc" "xd = Some x2"
      "\<And>xb ya x2. (xb, ya) = take_by_device_name (net_device i) xa \<Longrightarrow> xb = Some x2 \<Longrightarrow>
        remove_status_item_dom (item_id x2, ya, y)"
      "\<And>x y x2. (x, y) = take_by_name (net_name i) t \<Longrightarrow> x = Some x2 \<Longrightarrow>
        remove_status_item_dom (item_id x2, y, deleted)"
    from trans [OF x(2,1)] have "length (items xa) \<le> length (items t)"
      by (rule stage_dom_bound [OF _ length_take_le(1)]) (rule *(6))
    moreover from trans [OF *(2,1)] have "length (items xc) \<le> length (items xa)"
      by (rule stage_dom_bound [OF _ length_take_le(2)]) (rule *(5))
    moreover have "length (items yb) < length (items xc)" using *(3,4) by (auto dest: length_take [OF sym])
    ultimately show "((item_id x2, yb, ya), i, t, deleted) \<in> measure (\<lambda>(i, t, d). length (items t))"
      by simp
  }
qed simp

text \<open>
  The insertion takes the next index, with an overflow check on the counter. The two tables enter
  the new index in a different order, which matters to neither.
\<close>

definition index_name :: "string option \<Rightarrow> u64 \<Rightarrow> 'a status_table \<Rightarrow> 'a status_table" where
  "index_name key index t =
     (case key of None \<Rightarrow> t | Some name \<Rightarrow> t\<lparr>by_name := hm_insert name index (by_name t)\<rparr>)"

definition index_device_index :: "u64 option \<Rightarrow> u64 \<Rightarrow> 'a status_table \<Rightarrow> 'a status_table" where
  "index_device_index key index t =
     (case key of None \<Rightarrow> t
      | Some device_index \<Rightarrow> t\<lparr>by_device_index := hm_insert device_index index (by_device_index t)\<rparr>)"

definition index_device_name :: "string option \<Rightarrow> u64 \<Rightarrow> 'a status_table \<Rightarrow> 'a status_table" where
  "index_device_name key index t =
     (case key of None \<Rightarrow> t
      | Some name \<Rightarrow> t\<lparr>by_device_name := hm_insert name index (by_device_name t)\<rparr>)"

definition set_status_item ::
  "'a NetworkStatusItem \<Rightarrow> 'a status_table \<Rightarrow> ('a status_table \<times> 'a NetworkStatusItem list) router_result" where
  "set_status_item item t =
     (let (t, deleted_items) = remove_status_item (item_id item) (t, []);
          index = next_index t
      in obind (checked_add index 1) (\<lambda>n.
      let t = t\<lparr>next_index := n\<rparr>;
          t = index_name (net_name (item_id item)) index t;
          t = index_device_index (net_id (item_id item)) index t;
          t = index_device_name (net_device (item_id item)) index t
      in Ok (t\<lparr>items := hm_insert index item (items t)\<rparr>, deleted_items)))"

definition take_status_items :: "order_choice \<Rightarrow> 'a status_table \<Rightarrow> 'a NetworkStatusItem list \<times> 'a status_table" where
  "take_status_items f t =
     (iter_order f (map snd (items t)),
      t\<lparr>next_index := 0, by_name := [], by_device_name := [], by_device_index := [], items := []\<rparr>)"

definition list_status :: "order_choice \<Rightarrow> ('a \<Rightarrow> string option) \<Rightarrow> 'a status_table \<Rightarrow> 'a list" where
  "list_status f get_name t = sort_key get_name (map status (iter_order f (map snd (items t))))"

definition get_status_item_by_device_index :: "u64 \<Rightarrow> 'a status_table \<Rightarrow> 'a NetworkStatusItem option" where
  "get_status_item_by_device_index device_index t =
     Option.bind (hm_get (by_device_index t) device_index) (hm_get (items t))"

section \<open>The database\<close>

record InterfaceManagerDatabase =
  links :: "NetworkLinkStatus status_table"
  interfaces :: "NetworkInterfaceStatus status_table"

type_synonym link_item = "NetworkLinkStatus NetworkStatusItem"
type_synonym interface_item = "NetworkInterfaceStatus NetworkStatusItem"

definition InterfaceManagerDatabase_new :: InterfaceManagerDatabase where
  "InterfaceManagerDatabase_new = \<lparr>links = empty_table, interfaces = empty_table\<rparr>"

definition list_link_status :: "order_choice \<Rightarrow> InterfaceManagerDatabase \<Rightarrow> NetworkLinkStatus list" where
  "list_link_status f db = list_status f link_name (links db)"

definition take_link_status_items ::
  "order_choice \<Rightarrow> InterfaceManagerDatabase \<Rightarrow> link_item list \<times> InterfaceManagerDatabase" where
  "take_link_status_items f db =
     (let (taken, t) = take_status_items f (links db) in (taken, db\<lparr>links := t\<rparr>))"

definition remove_link_status_item ::
  "CanonicalNetworkId \<Rightarrow> InterfaceManagerDatabase \<Rightarrow> link_item list \<Rightarrow> InterfaceManagerDatabase \<times> link_item list" where
  "remove_link_status_item i db deleted =
     (let (t, deleted) = remove_status_item i (links db, deleted) in (db\<lparr>links := t\<rparr>, deleted))"

definition set_link_status_item ::
  "link_item \<Rightarrow> InterfaceManagerDatabase \<Rightarrow> (InterfaceManagerDatabase \<times> link_item list) router_result" where
  "set_link_status_item link db =
     obind (set_status_item link (links db)) (\<lambda>(t, deleted). Ok (db\<lparr>links := t\<rparr>, deleted))"

definition list_interface_status :: "order_choice \<Rightarrow> InterfaceManagerDatabase \<Rightarrow> NetworkInterfaceStatus list" where
  "list_interface_status f db = list_status f interface_name (interfaces db)"

definition get_interface_status_item_by_device_index ::
  "u64 \<Rightarrow> InterfaceManagerDatabase \<Rightarrow> interface_item option" where
  "get_interface_status_item_by_device_index device_index db =
     get_status_item_by_device_index device_index (interfaces db)"

definition take_interface_status_items ::
  "order_choice \<Rightarrow> InterfaceManagerDatabase \<Rightarrow> interface_item list \<times> InterfaceManagerDatabase" where
  "take_interface_status_items f db =
     (let (taken, t) = take_status_items f (interfaces db) in (taken, db\<lparr>interfaces := t\<rparr>))"

definition remove_interface_status_item ::
  "CanonicalNetworkId \<Rightarrow> InterfaceManagerDatabase \<Rightarrow> interface_item list \<Rightarrow>
   InterfaceManagerDatabase \<times> interface_item list" where
  "remove_interface_status_item i db deleted =
     (let (t, deleted) = remove_status_item i (interfaces db, deleted) in (db\<lparr>interfaces := t\<rparr>, deleted))"

definition set_interface_status_item ::
  "interface_item \<Rightarrow> InterfaceManagerDatabase \<Rightarrow> (InterfaceManagerDatabase \<times> interface_item list) router_result" where
  "set_interface_status_item interface db =
     obind (set_status_item interface (interfaces db)) (\<lambda>(t, deleted). Ok (db\<lparr>interfaces := t\<rparr>, deleted))"

section \<open>The invariant of a table\<close>

text \<open>An index holds exactly the keys of the items, each with the number of the item that has it.\<close>

definition agrees ::
  "(CanonicalNetworkId \<Rightarrow> 'k option) \<Rightarrow> ('k, u64) hash_map \<Rightarrow> (u64, 'a NetworkStatusItem) hash_map \<Rightarrow> bool" where
  "agrees key m its \<longleftrightarrow>
     (\<forall>k index. hm_get m k = Some index \<longleftrightarrow>
        (\<exists>item. hm_get its index = Some item \<and> key (item_id item) = Some k))"

definition table_ok :: "'a status_table \<Rightarrow> bool" where
  "table_ok t \<longleftrightarrow>
     hm_wf (by_name t) \<and> hm_wf (by_device_index t) \<and> hm_wf (by_device_name t) \<and> hm_wf (items t) \<and>
     agrees net_name (by_name t) (items t) \<and> agrees net_id (by_device_index t) (items t) \<and>
     agrees net_device (by_device_name t) (items t) \<and>
     (\<forall>index item. hm_get (items t) index = Some item \<longrightarrow> index < next_index t)"

text \<open>The abstract state: the items.\<close>

definition item_bag :: "'a status_table \<Rightarrow> 'a NetworkStatusItem multiset" where
  "item_bag t = mset (map snd (items t))"

definition same_key :: "'k option \<Rightarrow> 'k option \<Rightarrow> bool" where
  "same_key k l \<longleftrightarrow> k \<noteq> None \<and> k = l"

definition conflicts :: "CanonicalNetworkId \<Rightarrow> CanonicalNetworkId \<Rightarrow> bool" where
  "conflicts i j \<longleftrightarrow> same_key (net_name i) (net_name j) \<or> same_key (net_device i) (net_device j) \<or>
     same_key (net_id i) (net_id j)"

fun hm_remove_opt :: "'k option \<Rightarrow> ('k, 'v) hash_map \<Rightarrow> ('k, 'v) hash_map" where
  "hm_remove_opt None m = m"
| "hm_remove_opt (Some k) m = hm_remove k m"

fun hm_insert_opt :: "'k option \<Rightarrow> 'v \<Rightarrow> ('k, 'v) hash_map \<Rightarrow> ('k, 'v) hash_map" where
  "hm_insert_opt None v m = m"
| "hm_insert_opt (Some k) v m = hm_insert k v m"

lemma agrees_unique:
  "agrees key m its \<Longrightarrow> hm_get its i = Some a \<Longrightarrow> hm_get its j = Some b \<Longrightarrow>
   same_key (key (item_id a)) (key (item_id b)) \<Longrightarrow> i = j"
  unfolding agrees_def same_key_def by (metis not_None_eq option.inject)

lemma agrees_remove:
  "agrees key m its \<Longrightarrow> hm_get its index = Some item \<Longrightarrow>
   agrees key (hm_remove_opt (key (item_id item)) m) (hm_remove index its)"
  unfolding agrees_def by (cases "key (item_id item)") (auto, (metis option.inject option.distinct(1))+)

lemma agrees_insert:
  "agrees key m its \<Longrightarrow> hm_get its index = None \<Longrightarrow>
   (\<And>j b. hm_get its j = Some b \<Longrightarrow> \<not> same_key (key (item_id item)) (key (item_id b))) \<Longrightarrow>
   agrees key (hm_insert_opt (key (item_id item)) index m) (hm_insert index item its)"
  unfolding agrees_def same_key_def
  by (cases "key (item_id item)") (auto, (metis option.inject option.distinct(1))+)

lemma agrees_lookup:
  "agrees key m its \<Longrightarrow> hm_get m k = Some index \<Longrightarrow>
   \<exists>item. hm_get its index = Some item \<and> key (item_id item) = Some k"
  by (simp add: agrees_def)

lemma agrees_absent:
  "agrees key m its \<Longrightarrow> hm_get m k = None \<Longrightarrow> hm_get its j = Some b \<Longrightarrow> key (item_id b) \<noteq> Some k"
  unfolding agrees_def by (metis option.distinct(1))

text \<open>A table without one of its items.\<close>

definition drop_entry :: "u64 \<Rightarrow> 'a NetworkStatusItem \<Rightarrow> 'a status_table \<Rightarrow> 'a status_table" where
  "drop_entry index item t =
     t\<lparr>by_name := hm_remove_opt (net_name (item_id item)) (by_name t),
       by_device_index := hm_remove_opt (net_id (item_id item)) (by_device_index t),
       by_device_name := hm_remove_opt (net_device (item_id item)) (by_device_name t),
       items := hm_remove index (items t)\<rparr>"

lemma hm_wf_remove_opt [simp]: "hm_wf m \<Longrightarrow> hm_wf (hm_remove_opt k m)"
  by (cases k) simp_all

lemma hm_wf_insert_opt [simp]: "hm_wf m \<Longrightarrow> hm_wf (hm_insert_opt k v m)"
  by (cases k) simp_all

lemma table_ok_drop_entry:
  assumes "table_ok t" "hm_get (items t) index = Some item"
  shows "table_ok (drop_entry index item t)"
proof -
  have a: "agrees net_name (by_name t) (items t)" "agrees net_id (by_device_index t) (items t)"
      "agrees net_device (by_device_name t) (items t)" and "hm_wf (items t)"
    using assms(1) by (simp_all add: table_ok_def)
  with a [THEN agrees_remove [OF _ assms(2)]] assms(1) show ?thesis
    by (auto simp: table_ok_def drop_entry_def set_hm_remove)
qed

lemma item_bag_drop_entry:
  assumes "table_ok t" "hm_get (items t) index = Some item"
  shows "item_bag t = add_mset item (item_bag (drop_entry index item t))"
proof -
  have "hm_wf (items t)" using assms(1) by (simp add: table_ok_def)
  from mset_hm_remove [OF this assms(2)]
  have "image_mset snd (add_mset (index, item) (mset (hm_remove index (items t)))) = item_bag t"
    by (simp add: item_bag_def)
  then show ?thesis by (simp add: item_bag_def drop_entry_def)
qed

lemma in_item_bag: "table_ok t \<Longrightarrow> a \<in># item_bag t \<longleftrightarrow> (\<exists>index. hm_get (items t) index = Some a)"
  by (force simp: item_bag_def table_ok_def hm_get_iff)

lemma table_ok_empty [simp]: "table_ok empty_table"
  by (simp add: table_ok_def empty_table_def agrees_def)

lemma item_bag_empty [simp]: "item_bag empty_table = {#}"
  by (simp add: item_bag_def empty_table_def)

section \<open>Removal\<close>

text \<open>Removal on an identifier whose index entries lead to no item only clears these entries.\<close>

definition dangling :: "'k option \<Rightarrow> ('k, u64) hash_map \<Rightarrow> (u64, 'a NetworkStatusItem) hash_map \<Rightarrow> bool" where
  "dangling k m its \<longleftrightarrow> (\<forall>x index. k = Some x \<longrightarrow> hm_get m x = Some index \<longrightarrow> hm_get its index = None)"

definition clear_keys :: "CanonicalNetworkId \<Rightarrow> 'a status_table \<Rightarrow> 'a status_table" where
  "clear_keys i t =
     t\<lparr>by_name := hm_remove_opt (net_name i) (by_name t),
       by_device_index := hm_remove_opt (net_id i) (by_device_index t),
       by_device_name := hm_remove_opt (net_device i) (by_device_name t)\<rparr>"

lemma take_dangling:
  "dangling n (by_name t) (items t) \<Longrightarrow>
   take_by_name n t = (None, t\<lparr>by_name := hm_remove_opt n (by_name t)\<rparr>)"
  "dangling n (by_device_name t) (items t) \<Longrightarrow>
   take_by_device_name n t = (None, t\<lparr>by_device_name := hm_remove_opt n (by_device_name t)\<rparr>)"
  "dangling i (by_device_index t) (items t) \<Longrightarrow>
   take_by_device_index i t = (None, t\<lparr>by_device_index := hm_remove_opt i (by_device_index t)\<rparr>)"
  unfolding take_by_name_def take_by_device_name_def take_by_device_index_def take_item_def dangling_def
  by (auto split: option.splits simp: hm_remove_fresh simp del: map_of_eq_None_iff)

lemma remove_dangling:
  assumes "dangling (net_name i) (by_name t) (items t)"
    and "dangling (net_device i) (by_device_name t) (items t)"
    and "dangling (net_id i) (by_device_index t) (items t)"
  shows "remove_status_item i (t, deleted) = (clear_keys i t, deleted)"
  using assms by (simp add: take_dangling clear_keys_def)

declare remove_status_item.simps [simp del]

text \<open>In a consistent table each stage takes the one item with its key and all that belongs to it.\<close>

definition without_key :: "(CanonicalNetworkId \<Rightarrow> 'k option) \<Rightarrow> 'k option \<Rightarrow> 'a NetworkStatusItem multiset
    \<Rightarrow> 'a NetworkStatusItem multiset" where
  "without_key key k M = filter_mset (\<lambda>a. \<not> same_key k (key (item_id a))) M"

definition removal_stage ::
  "('a status_table \<Rightarrow> 'a NetworkStatusItem option \<times> 'a status_table) \<Rightarrow>
   'a status_table \<times> 'a NetworkStatusItem list \<Rightarrow> 'a status_table \<times> 'a NetworkStatusItem list" where
  "removal_stage take_by = (\<lambda>(t, deleted).
     case take_by t of
       (None, t) \<Rightarrow> (t, deleted)
     | (Some item, t) \<Rightarrow>
         let (t, deleted) = remove_status_item (item_id item) (t, deleted) in (t, deleted @ [item]))"

lemma remove_stages:
  "remove_status_item i td =
     removal_stage (take_by_device_index (net_id i))
       (removal_stage (take_by_device_name (net_device i))
         (removal_stage (take_by_name (net_name i)) td))"
  by (cases td) (simp add: remove_status_item.simps removal_stage_def Let_def split: prod.split)

text \<open>What a stage does to a consistent table.\<close>

definition stage_ok ::
  "(CanonicalNetworkId \<Rightarrow> 'k option) \<Rightarrow> 'k option \<Rightarrow> 'a status_table \<times> 'a NetworkStatusItem list \<Rightarrow>
   'a status_table \<times> 'a NetworkStatusItem list \<Rightarrow> bool" where
  "stage_ok key k td td' \<longleftrightarrow>
     table_ok (fst td') \<and> next_index (fst td') = next_index (fst td) \<and>
     item_bag (fst td') = without_key key k (item_bag (fst td)) \<and>
     mset (snd td') + item_bag (fst td') = mset (snd td) + item_bag (fst td) \<and>
     take (length (snd td)) (snd td') = snd td"

lemma stage_none:
  assumes "table_ok t" "\<And>a. a \<in># item_bag t \<Longrightarrow> \<not> same_key k (key (item_id a))"
  shows "stage_ok key k (t, deleted) (t, deleted)"
  using assms filter_mset_cong [of "item_bag t" "item_bag t" "\<lambda>a. \<not> same_key k (key (item_id a))" "\<lambda>_. True"]
  by (simp add: stage_ok_def without_key_def)

lemma stage_some:
  assumes ok: "table_ok t" and item: "hm_get (items t) index = Some item"
    and key: "same_key k (key (item_id item))"
    and ag: "agrees key m (items t)"
  shows "stage_ok key k (t, deleted) (drop_entry index item t, deleted @ [item])"
proof -
  have "\<not> same_key k (key (item_id a))" if a: "a \<in># item_bag (drop_entry index item t)" for a
  proof
    assume s: "same_key k (key (item_id a))"
    obtain j where j: "hm_get (items (drop_entry index item t)) j = Some a"
      using a in_item_bag [OF table_ok_drop_entry [OF ok item]] by blast
    then have "j \<noteq> index" "hm_get (items t) j = Some a"
      by (auto simp: drop_entry_def simp del: map_of_eq_Some_iff split: if_splits)
    with agrees_unique [OF ag item this(2)] key s show False by (auto simp: same_key_def)
  qed
  then have "without_key key k (item_bag (drop_entry index item t)) = item_bag (drop_entry index item t)"
    by (simp add: without_key_def filter_mset_eq_conv)
  then show ?thesis
    using table_ok_drop_entry [OF ok item] key item_bag_drop_entry [OF ok item]
    by (simp add: stage_ok_def without_key_def drop_entry_def)
qed

lemma dangling_removed:
  "agrees key m its \<Longrightarrow> hm_get its index = Some item \<Longrightarrow>
   dangling (key (item_id item)) m (hm_remove index its)"
  unfolding dangling_def agrees_def by (auto, metis option.inject)

lemma dangling_opt: "dangling k (hm_remove_opt k m) its"
  by (cases k) (simp_all add: dangling_def)

lemma hm_remove_opt_idem [simp]: "hm_remove_opt k (hm_remove_opt k m) = hm_remove_opt k m"
  by (cases k) (simp_all add: AList.delete_idem)

lemma remove_taken:
  assumes "table_ok t" "hm_get (items t) index = Some item"
  defines "i \<equiv> item_id item" and "its \<equiv> hm_remove index (items t)"
  shows "remove_status_item i (t\<lparr>by_name := hm_remove_opt (net_name i) (by_name t), items := its\<rparr>, deleted)
       = (drop_entry index item t, deleted)"
    and "remove_status_item i (t\<lparr>by_device_name := hm_remove_opt (net_device i) (by_device_name t), items := its\<rparr>, deleted)
       = (drop_entry index item t, deleted)"
    and "remove_status_item i (t\<lparr>by_device_index := hm_remove_opt (net_id i) (by_device_index t), items := its\<rparr>, deleted)
       = (drop_entry index item t, deleted)"
proof -
  have "dangling (net_name i) (by_name t) its" "dangling (net_id i) (by_device_index t) its"
      "dangling (net_device i) (by_device_name t) its"
    using assms by (auto simp: table_ok_def intro: dangling_removed simp del: map_of_eq_Some_iff)
  note d = this [unfolded i_def its_def] dangling_opt
  show "remove_status_item i (t\<lparr>by_name := hm_remove_opt (net_name i) (by_name t), items := its\<rparr>, deleted)
       = (drop_entry index item t, deleted)"
    "remove_status_item i (t\<lparr>by_device_name := hm_remove_opt (net_device i) (by_device_name t), items := its\<rparr>, deleted)
       = (drop_entry index item t, deleted)"
    "remove_status_item i (t\<lparr>by_device_index := hm_remove_opt (net_id i) (by_device_index t), items := its\<rparr>, deleted)
       = (drop_entry index item t, deleted)"
    unfolding i_def its_def by (subst remove_dangling; simp add: d clear_keys_def drop_entry_def)+
qed

lemma take_found:
  "k = Some x \<Longrightarrow> hm_get (by_name t) x = Some index \<Longrightarrow> hm_get (items t) index = Some item \<Longrightarrow>
   take_by_name k t = (Some item, t\<lparr>by_name := hm_remove_opt k (by_name t), items := hm_remove index (items t)\<rparr>)"
  "k = Some x \<Longrightarrow> hm_get (by_device_name t) x = Some index \<Longrightarrow> hm_get (items t) index = Some item \<Longrightarrow>
   take_by_device_name k t =
     (Some item, t\<lparr>by_device_name := hm_remove_opt k (by_device_name t), items := hm_remove index (items t)\<rparr>)"
  "l = Some y \<Longrightarrow> hm_get (by_device_index t) y = Some index \<Longrightarrow> hm_get (items t) index = Some item \<Longrightarrow>
   take_by_device_index l t =
     (Some item, t\<lparr>by_device_index := hm_remove_opt l (by_device_index t), items := hm_remove index (items t)\<rparr>)"
  by (simp_all add: take_by_name_def take_by_device_name_def take_by_device_index_def take_item_def
      del: map_of_eq_Some_iff)

lemma take_missed:
  "k = None \<or> hm_get (by_name t) (the k) = None \<Longrightarrow> take_by_name k t = (None, t)"
  "k = None \<or> hm_get (by_device_name t) (the k) = None \<Longrightarrow> take_by_device_name k t = (None, t)"
  "l = None \<or> hm_get (by_device_index t) (the l) = None \<Longrightarrow> take_by_device_index l t = (None, t)"
  by (auto simp: take_by_name_def take_by_device_name_def take_by_device_index_def
      simp del: map_of_eq_None_iff split: option.split)

text \<open>The three stages, each with the lookup of its index.\<close>

lemma stage_cases:
  assumes ok: "table_ok t" and ag: "agrees key m (items t)"
    and none: "k = None \<or> hm_get m (the k) = None \<Longrightarrow> take_by t = (None, t)"
    and some: "\<And>x index item. k = Some x \<Longrightarrow> hm_get m x = Some index \<Longrightarrow>
      hm_get (items t) index = Some item \<Longrightarrow> key (item_id item) = k \<Longrightarrow>
      \<exists>t1. take_by t = (Some item, t1) \<and>
        remove_status_item (item_id item) (t1, deleted) = (drop_entry index item t, deleted)"
  shows "stage_ok key k (t, deleted) (removal_stage take_by (t, deleted))"
proof (cases "k = None \<or> hm_get m (the k) = None")
  case True
  have "\<not> same_key k (key (item_id a))" if "a \<in># item_bag t" for a
    using True that agrees_absent [OF ag] in_item_bag [OF ok] by (auto simp: same_key_def)
  with ok have "stage_ok key k (t, deleted) (t, deleted)" by (rule stage_none)
  then show ?thesis using none [OF True] by (simp add: removal_stage_def)
next
  case False
  then obtain x index where x: "k = Some x" "hm_get m x = Some index" by auto
  from agrees_lookup [OF ag x(2)] obtain item
    where item: "hm_get (items t) index = Some item" "key (item_id item) = k" using x(1) by auto
  from some [OF x item] obtain t1 where "take_by t = (Some item, t1)"
    "remove_status_item (item_id item) (t1, deleted) = (drop_entry index item t, deleted)" by blast
  then show ?thesis
    using stage_some [OF ok item(1) _ ag, of k deleted] x(1) item(2)
    by (simp add: removal_stage_def same_key_def)
qed

lemma removal_stages_ok:
  assumes "table_ok t"
  shows "stage_ok net_name n (t, deleted) (removal_stage (take_by_name n) (t, deleted))"
    and "stage_ok net_device d (t, deleted) (removal_stage (take_by_device_name d) (t, deleted))"
    and "stage_ok net_id i (t, deleted) (removal_stage (take_by_device_index i) (t, deleted))"
proof -
  have a: "agrees net_name (by_name t) (items t)" "agrees net_device (by_device_name t) (items t)"
      "agrees net_id (by_device_index t) (items t)"
    using assms by (simp_all add: table_ok_def)
  note taken = remove_taken [OF assms, of _ _ deleted]
  show "stage_ok net_name n (t, deleted) (removal_stage (take_by_name n) (t, deleted))"
    by (rule stage_cases [OF assms a(1)]) (erule take_missed(1), metis take_found(1) taken(1))
  show "stage_ok net_device d (t, deleted) (removal_stage (take_by_device_name d) (t, deleted))"
    by (rule stage_cases [OF assms a(2)]) (erule take_missed(2), metis take_found(2) taken(2))
  show "stage_ok net_id i (t, deleted) (removal_stage (take_by_device_index i) (t, deleted))"
    by (rule stage_cases [OF assms a(3)]) (erule take_missed(3), metis take_found(3) taken(3))
qed

lemma stage_ok_cases:
  "stage_ok key k (t, deleted) td' \<Longrightarrow> \<exists>t' d'. td' = (t', d') \<and> table_ok t' \<and> next_index t' = next_index t \<and>
     item_bag t' = without_key key k (item_bag t) \<and>
     mset d' + item_bag t' = mset deleted + item_bag t \<and> take (length deleted) d' = deleted"
  by (cases td') (auto simp: stage_ok_def)

text \<open>What removal does: the conflicting items go, in a table that stays consistent.\<close>

definition removal_ok ::
  "CanonicalNetworkId \<Rightarrow> 'a status_table \<Rightarrow> 'a NetworkStatusItem list \<Rightarrow>
   'a status_table \<times> 'a NetworkStatusItem list \<Rightarrow> bool" where
  "removal_ok i t deleted td' \<longleftrightarrow>
     (\<exists>t' removed. td' = (t', deleted @ removed) \<and> table_ok t' \<and> next_index t' = next_index t \<and>
        item_bag t' = filter_mset (\<lambda>a. \<not> conflicts i (item_id a)) (item_bag t) \<and>
        mset removed = filter_mset (\<lambda>a. conflicts i (item_id a)) (item_bag t))"

lemma remove_status_item_ok:
  assumes "table_ok t"
  shows "removal_ok i t deleted (remove_status_item i (t, deleted))"
proof -
  obtain t1 d1 where 1: "removal_stage (take_by_name (net_name i)) (t, deleted) = (t1, d1)" "table_ok t1"
      "next_index t1 = next_index t" "item_bag t1 = without_key net_name (net_name i) (item_bag t)"
      "mset d1 + item_bag t1 = mset deleted + item_bag t" "take (length deleted) d1 = deleted"
    using stage_ok_cases [OF removal_stages_ok(1) [OF assms]] by blast
  obtain t2 d2 where 2: "removal_stage (take_by_device_name (net_device i)) (t1, d1) = (t2, d2)" "table_ok t2"
      "next_index t2 = next_index t1" "item_bag t2 = without_key net_device (net_device i) (item_bag t1)"
      "mset d2 + item_bag t2 = mset d1 + item_bag t1" "take (length d1) d2 = d1"
    using stage_ok_cases [OF removal_stages_ok(2) [OF 1(2)]] by blast
  obtain t3 d3 where 3: "removal_stage (take_by_device_index (net_id i)) (t2, d2) = (t3, d3)" "table_ok t3"
      "next_index t3 = next_index t2" "item_bag t3 = without_key net_id (net_id i) (item_bag t2)"
      "mset d3 + item_bag t3 = mset d2 + item_bag t2" "take (length d2) d3 = d2"
    using stage_ok_cases [OF removal_stages_ok(3) [OF 2(2)]] by blast
  have prefix: "d3 = deleted @ drop (length deleted) d3"
    using 1(6) 2(6) 3(6) by (metis append_take_drop_id drop_append append_assoc append_eq_conv_conj)
  have bag: "item_bag t3 = filter_mset (\<lambda>a. \<not> conflicts i (item_id a)) (item_bag t)"
    by (simp add: 1(4) 2(4) 3(4) without_key_def filter_filter_mset conflicts_def conj_ac)
  have "mset d3 + item_bag t3 = mset deleted + item_bag t" using 1(5) 2(5) 3(5) by simp
  moreover have "mset d3 = mset deleted + mset (drop (length deleted) d3)"
    by (subst prefix) (simp only: mset_append)
  ultimately have "mset (drop (length deleted) d3) + item_bag t3 = item_bag t"
    by (simp add: add.assoc)
  moreover have "filter_mset (\<lambda>a. conflicts i (item_id a)) (item_bag t) + item_bag t3 = item_bag t"
    unfolding bag by (rule multiset_partition [symmetric])
  ultimately have "mset (drop (length deleted) d3) = filter_mset (\<lambda>a. conflicts i (item_id a)) (item_bag t)"
    by (metis add_right_cancel)
  then show ?thesis
    unfolding removal_ok_def remove_stages 1(1) 2(1) 3(1) using prefix 1(3) 2(3) 3(2,3) bag by metis
qed

section \<open>Insertion\<close>

text \<open>The abstract insertion: the conflicting items are replaced by the new one.\<close>

definition put_item :: "'a NetworkStatusItem \<Rightarrow> 'a NetworkStatusItem multiset \<Rightarrow> 'a NetworkStatusItem multiset" where
  "put_item item M = add_mset item (filter_mset (\<lambda>a. \<not> conflicts (item_id item) (item_id a)) M)"

definition insert_entry :: "u64 \<Rightarrow> 'a NetworkStatusItem \<Rightarrow> 'a status_table \<Rightarrow> 'a status_table" where
  "insert_entry index item t =
     t\<lparr>by_name := hm_insert_opt (net_name (item_id item)) index (by_name t),
       by_device_index := hm_insert_opt (net_id (item_id item)) index (by_device_index t),
       by_device_name := hm_insert_opt (net_device (item_id item)) index (by_device_name t),
       items := hm_insert index item (items t)\<rparr>"

lemma set_status_item_eq:
  "set_status_item item t =
     (case remove_status_item (item_id item) (t, []) of (t, deleted) \<Rightarrow>
        obind (checked_add (next_index t) 1) (\<lambda>n.
          Ok (insert_entry (next_index t) item (t\<lparr>next_index := n\<rparr>), deleted)))"
  by (cases "net_name (item_id item)"; cases "net_id (item_id item)"; cases "net_device (item_id item)")
    (simp_all add: set_status_item_def Let_def index_name_def index_device_index_def index_device_name_def
      insert_entry_def split: prod.split)

lemma agrees_put:
  assumes "table_ok t" "agrees key m (items t)" "hm_get (items t) index = None"
    and "\<And>a. a \<in># item_bag t \<Longrightarrow> \<not> same_key (key (item_id item)) (key (item_id a))"
  shows "agrees key (hm_insert_opt (key (item_id item)) index m) (hm_insert index item (items t))"
  using assms(2,3)
proof (rule agrees_insert)
  fix j b
  assume "hm_get (items t) j = Some b"
  with assms(1,4) show "\<not> same_key (key (item_id item)) (key (item_id b))" by (metis in_item_bag)
qed

lemma insert_entry_ok:
  assumes "table_ok t" "next_index t < n" and "\<And>a. a \<in># item_bag t \<Longrightarrow> \<not> conflicts (item_id item) (item_id a)"
  shows "table_ok (insert_entry (next_index t) item (t\<lparr>next_index := n\<rparr>))"
    and "item_bag (insert_entry (next_index t) item (t\<lparr>next_index := n\<rparr>)) = add_mset item (item_bag t)"
proof -
  have fresh: "hm_get (items t) (next_index t) = None"
    using assms(1) by (metis table_ok_def less_irrefl not_None_eq)
  have a: "agrees net_name (by_name t) (items t)" "agrees net_device (by_device_name t) (items t)"
      "agrees net_id (by_device_index t) (items t)"
    using assms(1) by (simp_all add: table_ok_def)
  note put = agrees_put [OF assms(1) _ fresh]
  have "agrees net_name (hm_insert_opt (net_name (item_id item)) (next_index t) (by_name t))
      (hm_insert (next_index t) item (items t))"
    by (rule put [OF a(1)]) (use assms(3) in \<open>auto simp: conflicts_def\<close>)
  moreover have "agrees net_device (hm_insert_opt (net_device (item_id item)) (next_index t) (by_device_name t))
      (hm_insert (next_index t) item (items t))"
    by (rule put [OF a(2)]) (use assms(3) in \<open>auto simp: conflicts_def\<close>)
  moreover have "agrees net_id (hm_insert_opt (net_id (item_id item)) (next_index t) (by_device_index t))
      (hm_insert (next_index t) item (items t))"
    by (rule put [OF a(3)]) (use assms(3) in \<open>auto simp: conflicts_def\<close>)
  moreover have "index < n" if "hm_get (hm_insert (next_index t) item (items t)) index = Some b" for index b
    using that assms(1,2) by (auto simp: table_ok_def split: if_splits intro: less_trans simp del: map_of_eq_Some_iff)
  ultimately show "table_ok (insert_entry (next_index t) item (t\<lparr>next_index := n\<rparr>))"
    using assms(1) by (simp add: table_ok_def insert_entry_def)
  show "item_bag (insert_entry (next_index t) item (t\<lparr>next_index := n\<rparr>)) = add_mset item (item_bag t)"
    by (simp add: item_bag_def insert_entry_def hm_insert_fresh [OF fresh])
qed

lemma set_status_item_ok:
  assumes "table_ok t"
  shows "set_status_item item t = Panic \<and> next_index t = - 1 \<or>
    (\<exists>t' deleted. set_status_item item t = Ok (t', deleted) \<and> next_index t \<noteq> - 1 \<and> next_index t' = next_index t + 1 \<and>
       table_ok t' \<and> item_bag t' = put_item item (item_bag t) \<and>
       mset deleted = filter_mset (\<lambda>a. conflicts (item_id item) (item_id a)) (item_bag t))"
proof -
  obtain t1 removed where r: "remove_status_item (item_id item) (t, []) = (t1, removed)" "table_ok t1"
      "next_index t1 = next_index t"
      "item_bag t1 = filter_mset (\<lambda>a. \<not> conflicts (item_id item) (item_id a)) (item_bag t)"
      "mset removed = filter_mset (\<lambda>a. conflicts (item_id item) (item_id a)) (item_bag t)"
    using remove_status_item_ok [OF assms, of "item_id item" "[]"] by (auto simp: removal_ok_def)
  have max: "next_index t = - 1 \<longleftrightarrow> \<not> unat (next_index t) + unat (1 :: u64) < 2 ^ 64"
    using unat_less_2p [of "next_index t"]
    by (auto simp: word_unat_eq_iff unsigned_minus_1_eq_mask mask_eq_exp_minus_1)
  show ?thesis
  proof (cases "next_index t = - 1")
    case True
    with max r(1,3) show ?thesis by (simp add: set_status_item_eq checked_add_def)
  next
    case False
    then have "next_index t < next_index t + 1"
      using max by (simp add: word_less_nat_alt unat_plus_no_overflow)
    then have "table_ok (insert_entry (next_index t1) item (t1\<lparr>next_index := next_index t1 + 1\<rparr>))"
      and "item_bag (insert_entry (next_index t1) item (t1\<lparr>next_index := next_index t1 + 1\<rparr>)) = add_mset item (item_bag t1)"
      using insert_entry_ok [OF r(2), of "next_index t1 + 1" item] r(3,4) by auto
    with False max r show ?thesis
      by (simp add: set_status_item_eq checked_add_def put_item_def insert_entry_def)
  qed
qed

section \<open>The contract of the two stores\<close>

text \<open>
  What the poll and the listener use of the database, for one kind of item: the laws of removal
  and insertion on the bag of items, and what follows from them for a series of insertions.
\<close>

locale item_store =
  fixes ok :: "'s \<Rightarrow> bool"
    and bag :: "'s \<Rightarrow> 'a NetworkStatusItem multiset"
    and counter :: "'s \<Rightarrow> u64"
    and rest :: "'s \<Rightarrow> 'r"
    and put :: "'a NetworkStatusItem \<Rightarrow> 's \<Rightarrow> ('s \<times> 'a NetworkStatusItem list) router_result"
    and delete_on :: "CanonicalNetworkId \<Rightarrow> 's \<Rightarrow> 'a NetworkStatusItem list \<Rightarrow> 's \<times> 'a NetworkStatusItem list"
    and take_all :: "order_choice \<Rightarrow> 's \<Rightarrow> 'a NetworkStatusItem list \<times> 's"
  assumes put_law: "ok s \<Longrightarrow> put item s = Panic \<and> counter s = - 1 \<or>
      (\<exists>s' deleted. put item s = Ok (s', deleted) \<and> counter s \<noteq> - 1 \<and> counter s' = counter s + 1 \<and> ok s' \<and>
         bag s' = put_item item (bag s) \<and>
         mset deleted = filter_mset (\<lambda>a. conflicts (item_id item) (item_id a)) (bag s))"
    and delete_law: "ok s \<Longrightarrow> delete_on i s deleted = (s', d) \<Longrightarrow> ok s' \<and> counter s' = counter s \<and>
      bag s' = filter_mset (\<lambda>a. \<not> conflicts i (item_id a)) (bag s) \<and>
      (\<exists>removed. d = deleted @ removed \<and> mset removed = filter_mset (\<lambda>a. conflicts i (item_id a)) (bag s))"
    and take_law: "ok s \<Longrightarrow> take_all f s = (taken, s') \<Longrightarrow> ok s' \<and> counter s' = 0 \<and> bag s' = {#} \<and> mset taken = bag s"
    and put_rest: "put item s = Ok (s', d) \<Longrightarrow> rest s' = rest s"
    and delete_rest: "delete_on i s deleted = (s', d) \<Longrightarrow> rest s' = rest s"
    and take_rest: "take_all f s = (taken, s') \<Longrightarrow> rest s' = rest s"
    and unique: "ok s \<Longrightarrow> add_mset a (add_mset b M) = bag s \<Longrightarrow> \<not> conflicts (item_id a) (item_id b)"
begin

lemma put_Ok: "ok s \<Longrightarrow> put item s = Ok (s', deleted) \<Longrightarrow> ok s' \<and> bag s' = put_item item (bag s)"
  using put_law [of s item] by auto

lemma put_not_Err: "ok s \<Longrightarrow> put item s \<noteq> Err e"
  using put_law [of s item] by auto

lemma put_returns: "ok s \<Longrightarrow> counter s \<noteq> - 1 \<Longrightarrow> \<exists>s' deleted. put item s = Ok (s', deleted) \<and> counter s' = counter s + 1"
  using put_law [of s item] by auto

text \<open>The loop \<open>drain(..).for_each(set)\<close>, whose deleted items are dropped.\<close>

definition put_all :: "'a NetworkStatusItem list \<Rightarrow> 's \<Rightarrow> 's router_result" where
  "put_all xs s = ofold (\<lambda>item s. obind (put item s) (\<lambda>(s, deleted). Ok s)) xs s"

lemma put_all_Ok:
  "ok s \<Longrightarrow> put_all xs s = Ok s' \<Longrightarrow> ok s' \<and> bag s' = fold put_item xs (bag s) \<and> rest s' = rest s"
proof (induction xs arbitrary: s)
  case (Cons item xs)
  from Cons.prems obtain s1 d where 1: "put item s = Ok (s1, d)" "put_all xs s1 = Ok s'"
    by (auto simp: put_all_def obind_eq_Ok)
  with Cons.IH [of s1] put_Ok [OF Cons.prems(1) 1(1)] put_rest [OF 1(1)] show ?case by simp
qed (simp add: put_all_def)

lemma put_all_returns:
  "ok s \<Longrightarrow> unat (counter s) + length xs < 2 ^ 64 \<Longrightarrow> \<exists>s'. put_all xs s = Ok s'"
proof (induction xs arbitrary: s)
  case (Cons item xs)
  have c: "counter s \<noteq> - 1"
    using Cons.prems(2) by (auto simp: unsigned_minus_1_eq_mask mask_eq_exp_minus_1)
  from put_returns [OF Cons.prems(1) this, of item] obtain s1 d
    where 1: "put item s = Ok (s1, d)" "counter s1 = counter s + 1" by blast
  have "unat (counter s1) = unat (counter s) + 1"
    using Cons.prems(2) unfolding 1(2) by (simp add: unat_plus_no_overflow)
  then have "\<exists>s'. put_all xs s1 = Ok s'"
    using Cons.prems put_Ok [OF Cons.prems(1) 1(1)] by (intro Cons.IH) simp_all
  with 1(1) show ?case by (simp add: put_all_def)
qed (simp add: put_all_def)

end

text \<open>Inserting items that do not conflict with each other keeps them all.\<close>

definition conflict_free :: "'a NetworkStatusItem list \<Rightarrow> bool" where
  "conflict_free xs \<longleftrightarrow> sorted_wrt (\<lambda>a b. \<not> conflicts (item_id b) (item_id a)) xs"

lemma fold_put_item_aux:
  "conflict_free xs \<Longrightarrow> (\<And>x a. x \<in> set xs \<Longrightarrow> a \<in># M \<Longrightarrow> \<not> conflicts (item_id x) (item_id a)) \<Longrightarrow>
   fold put_item xs M = mset xs + M"
proof (induction xs arbitrary: M)
  case (Cons x xs)
  have "filter_mset (\<lambda>a. \<not> conflicts (item_id x) (item_id a)) M = filter_mset (\<lambda>_. True) M"
    using Cons.prems(2) by (intro filter_mset_cong) auto
  then have "put_item x M = add_mset x M" by (simp add: put_item_def)
  moreover have "fold put_item xs (add_mset x M) = mset xs + add_mset x M"
    using Cons.prems by (intro Cons.IH) (auto simp: conflict_free_def)
  ultimately show ?case by simp
qed simp

lemma fold_put_item: "conflict_free xs \<Longrightarrow> fold put_item xs {#} = mset xs"
  using fold_put_item_aux [of xs "{#}"] by simp

lemma table_unique:
  assumes "table_ok t" "add_mset a (add_mset b M) = item_bag t"
  shows "\<not> conflicts (item_id a) (item_id b)"
proof
  assume c: "conflicts (item_id a) (item_id b)"
  have "a \<in># item_bag t" using assms(2) by (metis union_single_eq_member)
  then obtain i where i: "hm_get (items t) i = Some a" using in_item_bag [OF assms(1)] by blast
  from item_bag_drop_entry [OF assms(1) i] assms(2)
  have "add_mset b M = item_bag (drop_entry i a t)" by (metis add_mset_eq_single add_mset_add_mset_same_iff)
  then have "b \<in># item_bag (drop_entry i a t)" by (metis union_single_eq_member)
  then obtain j where j: "hm_get (items t) j = Some b" "j \<noteq> i"
    using in_item_bag [OF table_ok_drop_entry [OF assms(1) i]]
    by (auto simp: drop_entry_def simp del: map_of_eq_Some_iff split: if_splits)
  have "agrees net_name (by_name t) (items t)" "agrees net_device (by_device_name t) (items t)"
      "agrees net_id (by_device_index t) (items t)"
    using assms(1) by (simp_all add: table_ok_def)
  with agrees_unique [OF _ i j(1)] c j(2) show False unfolding conflicts_def by metis
qed

definition db_ok :: "InterfaceManagerDatabase \<Rightarrow> bool" where
  "db_ok db \<longleftrightarrow> table_ok (links db) \<and> table_ok (interfaces db)"

text \<open>What one kind of item leaves alone in the other kind's table.\<close>

lemma link_frame:
  "set_link_status_item item db = Ok (db', deleted) \<Longrightarrow> interfaces db' = interfaces db"
  "remove_link_status_item i db d = (db', d') \<Longrightarrow> interfaces db' = interfaces db"
  "take_link_status_items f db = (taken, db') \<Longrightarrow> interfaces db' = interfaces db"
  by (auto simp: set_link_status_item_def remove_link_status_item_def take_link_status_items_def
      obind_eq_Ok split: prod.splits)

lemma interface_frame:
  "set_interface_status_item item' db = Ok (db', deleted') \<Longrightarrow> links db' = links db"
  "remove_interface_status_item i db e = (db', e') \<Longrightarrow> links db' = links db"
  "take_interface_status_items f db = (taken', db') \<Longrightarrow> links db' = links db"
  by (auto simp: set_interface_status_item_def remove_interface_status_item_def take_interface_status_items_def
      obind_eq_Ok split: prod.splits)

lemma take_status_items_ok:
  "take_status_items f t = (taken, t') \<Longrightarrow>
   table_ok t' \<and> next_index t' = 0 \<and> item_bag t' = {#} \<and> mset taken = item_bag t"
  by (auto simp: take_status_items_def table_ok_def agrees_def item_bag_def)

interpretation link_store: item_store db_ok "\<lambda>db. item_bag (links db)" "\<lambda>db. next_index (links db)"
  interfaces set_link_status_item remove_link_status_item take_link_status_items
proof unfold_locales
  fix db item
  assume "db_ok db"
  then show "set_link_status_item item db = Panic \<and> next_index (links db) = - 1 \<or>
      (\<exists>s' deleted. set_link_status_item item db = Ok (s', deleted) \<and> next_index (links db) \<noteq> - 1 \<and>
         next_index (links s') = next_index (links db) + 1 \<and> db_ok s' \<and>
         item_bag (links s') = put_item item (item_bag (links db)) \<and>
         mset deleted = filter_mset (\<lambda>a. conflicts (item_id item) (item_id a)) (item_bag (links db)))"
    using set_status_item_ok [of "links db" item] by (auto simp: set_link_status_item_def db_ok_def)
next
  fix db i deleted s' d
  assume "db_ok db" "remove_link_status_item i db deleted = (s', d)"
  then show "db_ok s' \<and> next_index (links s') = next_index (links db) \<and>
      item_bag (links s') = filter_mset (\<lambda>a. \<not> conflicts i (item_id a)) (item_bag (links db)) \<and>
      (\<exists>removed. d = deleted @ removed \<and>
         mset removed = filter_mset (\<lambda>a. conflicts i (item_id a)) (item_bag (links db)))"
    using remove_status_item_ok [of "links db" i deleted]
    by (auto simp: remove_link_status_item_def removal_ok_def db_ok_def)
next
  fix db f taken s'
  assume "db_ok db" "take_link_status_items f db = (taken, s')"
  then show "db_ok s' \<and> next_index (links s') = 0 \<and> item_bag (links s') = {#} \<and> mset taken = item_bag (links db)"
    by (auto simp: take_link_status_items_def db_ok_def dest: take_status_items_ok split: prod.splits)
next
  fix db a b M
  assume "db_ok db" "add_mset a (add_mset b M) = item_bag (links db)"
  then show "\<not> conflicts (item_id a) (item_id b)" by (auto simp: db_ok_def dest: table_unique)
qed (fact link_frame)+

interpretation interface_store: item_store db_ok "\<lambda>db. item_bag (interfaces db)" "\<lambda>db. next_index (interfaces db)"
  links set_interface_status_item remove_interface_status_item take_interface_status_items
proof unfold_locales
  fix db item
  assume "db_ok db"
  then show "set_interface_status_item item db = Panic \<and> next_index (interfaces db) = - 1 \<or>
      (\<exists>s' deleted. set_interface_status_item item db = Ok (s', deleted) \<and> next_index (interfaces db) \<noteq> - 1 \<and>
         next_index (interfaces s') = next_index (interfaces db) + 1 \<and> db_ok s' \<and>
         item_bag (interfaces s') = put_item item (item_bag (interfaces db)) \<and>
         mset deleted = filter_mset (\<lambda>a. conflicts (item_id item) (item_id a)) (item_bag (interfaces db)))"
    using set_status_item_ok [of "interfaces db" item] by (auto simp: set_interface_status_item_def db_ok_def)
next
  fix db i deleted s' d
  assume "db_ok db" "remove_interface_status_item i db deleted = (s', d)"
  then show "db_ok s' \<and> next_index (interfaces s') = next_index (interfaces db) \<and>
      item_bag (interfaces s') = filter_mset (\<lambda>a. \<not> conflicts i (item_id a)) (item_bag (interfaces db)) \<and>
      (\<exists>removed. d = deleted @ removed \<and>
         mset removed = filter_mset (\<lambda>a. conflicts i (item_id a)) (item_bag (interfaces db)))"
    using remove_status_item_ok [of "interfaces db" i deleted]
    by (auto simp: remove_interface_status_item_def removal_ok_def db_ok_def)
next
  fix db f taken s'
  assume "db_ok db" "take_interface_status_items f db = (taken, s')"
  then show "db_ok s' \<and> next_index (interfaces s') = 0 \<and> item_bag (interfaces s') = {#} \<and>
      mset taken = item_bag (interfaces db)"
    by (auto simp: take_interface_status_items_def db_ok_def dest: take_status_items_ok split: prod.splits)
next
  fix db a b M
  assume "db_ok db" "add_mset a (add_mset b M) = item_bag (interfaces db)"
  then show "\<not> conflicts (item_id a) (item_id b)" by (auto simp: db_ok_def dest: table_unique)
qed (fact interface_frame)+

section \<open>Histories of the database\<close>

inductive db_step :: "InterfaceManagerDatabase \<Rightarrow> InterfaceManagerDatabase \<Rightarrow> bool" where
  db_set_link: "set_link_status_item link db = Ok (db', deleted) \<Longrightarrow> db_step db db'"
| db_remove_link: "remove_link_status_item i db [] = (db', deleted) \<Longrightarrow> db_step db db'"
| db_take_links: "take_link_status_items f db = (taken, db') \<Longrightarrow> db_step db db'"
| db_set_interface: "set_interface_status_item interface db = Ok (db', deleted') \<Longrightarrow> db_step db db'"
| db_remove_interface: "remove_interface_status_item i db [] = (db', deleted') \<Longrightarrow> db_step db db'"
| db_take_interfaces: "take_interface_status_items f db = (taken', db') \<Longrightarrow> db_step db db'"

lemma db_new_ok [simp]: "db_ok InterfaceManagerDatabase_new"
  by (simp add: db_ok_def InterfaceManagerDatabase_new_def)

lemma db_step_ok: "db_step db db' \<Longrightarrow> db_ok db \<Longrightarrow> db_ok db'"
  by (induction rule: db_step.induct)
    (auto dest: link_store.put_Ok link_store.delete_law link_store.take_law
      interface_store.put_Ok interface_store.delete_law interface_store.take_law)

interpretation db_machine: machine InterfaceManagerDatabase_new db_step db_ok
  by unfold_locales (auto intro: db_step_ok)

text \<open>C1: Whatever operations are run on a new database, in whatever order, each of its indexes names
  exactly the items that have the key, the counters stay above every number in use, and no
  two links, and no two interfaces, share a name, a device index or a device name.\<close>

theorem database_invariant:
  assumes "db_step\<^sup>*\<^sup>* InterfaceManagerDatabase_new db"
  shows "db_ok db \<and>
    (\<forall>a b M. item_bag (links db) = add_mset a (add_mset b M) \<longrightarrow> \<not> conflicts (item_id a) (item_id b)) \<and>
    (\<forall>a b M. item_bag (interfaces db) = add_mset a (add_mset b M) \<longrightarrow> \<not> conflicts (item_id a) (item_id b))"
  using db_machine.reachable [OF assms] link_store.unique interface_store.unique by metis

theorem database_invariant_witness: "db_ok InterfaceManagerDatabase_new"
  using database_invariant [OF rtranclp.rtrancl_refl] by (rule conjunct1)

text \<open>C28: Setting a link's status on a consistent database replaces exactly the links that share its name,
  device name or device index, which are the items returned, by the new one, leaves the
  interfaces alone, and returns whenever the counter is not exhausted.\<close>

theorem set_link_refines:
  assumes "db_ok db" "next_index (links db) \<noteq> - 1"
  shows "\<exists>db' deleted. set_link_status_item link db = Ok (db', deleted) \<and> db_ok db' \<and>
    item_bag (links db') = add_mset link (item_bag (links db) - mset deleted) \<and>
    mset deleted = filter_mset (\<lambda>a. conflicts (item_id link) (item_id a)) (item_bag (links db)) \<and>
    interfaces db' = interfaces db"
proof -
  from link_store.put_law [OF assms(1), of link] assms(2) obtain db' deleted where
    *: "set_link_status_item link db = Ok (db', deleted)" "db_ok db'"
      "item_bag (links db') = put_item link (item_bag (links db))"
      "mset deleted = filter_mset (\<lambda>a. conflicts (item_id link) (item_id a)) (item_bag (links db))" by blast
  have "item_bag (links db) - mset deleted
      = filter_mset (\<lambda>a. \<not> conflicts (item_id link) (item_id a)) (item_bag (links db))"
    unfolding *(4) by (metis add_diff_cancel_left' multiset_partition)
  with * link_frame(1) show ?thesis by (metis put_item_def)
qed

definition sample_link :: "u64 option \<Rightarrow> string option \<Rightarrow> string option \<Rightarrow> link_item" where
  "sample_link i n d = NetworkStatusItem_new 0 (CanonicalNetworkId_new i n d) \<lparr>link_name = n, status_device = ''eth0'', operational_state = Up\<rparr>"

theorem set_link_refines_witness:
  "\<exists>db'. set_link_status_item (sample_link (Some 2) None (Some ''eth0'')) InterfaceManagerDatabase_new = Ok (db', []) \<and>
     item_bag (links db') = {#sample_link (Some 2) None (Some ''eth0'')#}"
proof -
  have "next_index (links InterfaceManagerDatabase_new) \<noteq> - 1" "item_bag (links InterfaceManagerDatabase_new) = {#}"
    by (simp_all add: InterfaceManagerDatabase_new_def empty_table_def item_bag_def)
  with set_link_refines [OF db_new_ok, of "sample_link (Some 2) None (Some ''eth0'')"] show ?thesis by auto
qed

text \<open>Removal on an identifier takes out of a consistent database exactly the links that share a
  name, a device name or a device index with it and appends them to the list given; the recursive
  calls, one for each item removed, end and remove nothing more. The counter does not move.\<close>

theorem remove_link_refines:
  assumes "db_ok db"
  shows "\<exists>db' removed. remove_link_status_item i db deleted = (db', deleted @ removed) \<and> db_ok db' \<and>
    item_bag (links db') = filter_mset (\<lambda>a. \<not> conflicts i (item_id a)) (item_bag (links db)) \<and>
    mset removed = filter_mset (\<lambda>a. conflicts i (item_id a)) (item_bag (links db)) \<and>
    next_index (links db') = next_index (links db) \<and> interfaces db' = interfaces db"
proof -
  obtain db' d where r: "remove_link_status_item i db deleted = (db', d)" by fastforce
  from link_store.delete_law [OF assms r] link_frame(2) [OF r] r show ?thesis by auto
qed

theorem remove_link_refines_witness:
  "\<exists>db db'. item_bag (links db) = {#sample_link (Some 2) None (Some ''eth0'')#} \<and>
     remove_link_status_item (CanonicalNetworkId_new None None (Some ''eth0'')) db []
       = (db', [sample_link (Some 2) None (Some ''eth0'')]) \<and> item_bag (links db') = {#}"
proof -
  let ?l = "sample_link (Some 2) None (Some ''eth0'')" and ?i = "CanonicalNetworkId_new None None (Some ''eth0'')"
  have "next_index (links InterfaceManagerDatabase_new) \<noteq> - 1" "item_bag (links InterfaceManagerDatabase_new) = {#}"
    by (simp_all add: InterfaceManagerDatabase_new_def empty_table_def item_bag_def)
  with link_store.put_law [OF db_new_ok, of ?l] obtain db where db: "db_ok db" "item_bag (links db) = {#?l#}"
    by (auto simp: put_item_def)
  have "conflicts ?i (item_id ?l)"
    by (simp add: sample_link_def CanonicalNetworkId_new_def NetworkStatusItem_new_def conflicts_def same_key_def)
  with db(2) remove_link_refines [OF db(1), of ?i "[]"] show ?thesis by auto
qed

section \<open>Queries\<close>

lemma lookup_device_index:
  assumes "table_ok t"
  shows "get_status_item_by_device_index k t = Some item \<longleftrightarrow> item \<in># item_bag t \<and> net_id (item_id item) = Some k"
proof -
  have a: "agrees net_id (by_device_index t) (items t)" using assms by (simp add: table_ok_def)
  have "get_status_item_by_device_index k t = Some item \<longleftrightarrow>
      (\<exists>index. hm_get (by_device_index t) k = Some index \<and> hm_get (items t) index = Some item)"
    unfolding get_status_item_by_device_index_def bind_eq_Some_conv by blast
  also have "\<dots> \<longleftrightarrow> (\<exists>index. hm_get (items t) index = Some item \<and> net_id (item_id item) = Some k)"
    using a unfolding agrees_def by (metis option.inject)
  finally show ?thesis using in_item_bag [OF assms] by blast
qed

text \<open>In a consistent database the lookup by device index finds an interface exactly when it is stored
  with that device index, so it finds every one and never a stale one.\<close>

theorem interface_lookup:
  assumes "db_ok db"
  shows "get_interface_status_item_by_device_index k db = Some item \<longleftrightarrow>
    item \<in># item_bag (interfaces db) \<and> net_id (item_id item) = Some k"
  using assms by (simp add: get_interface_status_item_by_device_index_def lookup_device_index db_ok_def)

theorem interface_lookup_witness:
  "get_interface_status_item_by_device_index 1 InterfaceManagerDatabase_new = None"
  using interface_lookup [OF db_new_ok, of 1]
  by (cases "get_interface_status_item_by_device_index 1 InterfaceManagerDatabase_new")
    (simp_all add: InterfaceManagerDatabase_new_def)

lemma list_status_sorted:
  "sorted (map get_name (list_status f get_name t))"
  "mset (list_status f get_name t) = image_mset status (item_bag t)"
  by (simp_all add: list_status_def item_bag_def)

lemma distinct_filter_snd:
  "distinct (map fst xs) \<Longrightarrow>
   (\<And>i j a b. (i, a) \<in> set xs \<Longrightarrow> (j, b) \<in> set xs \<Longrightarrow> g a \<noteq> None \<Longrightarrow> g a = g b \<Longrightarrow> i = j) \<Longrightarrow>
   distinct (map g (filter (\<lambda>a. g a \<noteq> None) (map snd xs)))"
proof (induction xs)
  case (Cons x xs)
  obtain i a where x: "x = (i, a)" by (cases x)
  have IH: "distinct (map g (filter (\<lambda>a. g a \<noteq> None) (map snd xs)))"
  proof (rule Cons.IH)
    show "distinct (map fst xs)" using Cons.prems(1) by simp
    show "i = j" if "(i, a) \<in> set xs" "(j, b) \<in> set xs" "g a \<noteq> None" "g a = g b" for i j a b
      using Cons.prems(2) [of i a j b] that by simp
  qed
  have "g a \<noteq> g b" if "(j, b) \<in> set xs" "g a \<noteq> None" for j b
  proof
    assume "g a = g b"
    with Cons.prems(2) [of i a j b] that have "i = j" by (simp add: x)
    with Cons.prems(1) that(1) show False by (force simp: x)
  qed
  with IH show ?case by (force simp: x)
qed simp

lemma names_distinct:
  assumes "table_ok t"
  shows "distinct (map (\<lambda>a. net_name (item_id a)) (filter (\<lambda>a. net_name (item_id a) \<noteq> None) (map snd (items t))))"
proof (rule distinct_filter_snd)
  have wf: "hm_wf (items t)" and ag: "agrees net_name (by_name t) (items t)"
    using assms by (simp_all add: table_ok_def)
  show "hm_wf (items t)" by (rule wf)
  fix i j a b
  assume "(i, a) \<in> set (items t)" "(j, b) \<in> set (items t)"
    "net_name (item_id a) \<noteq> None" "net_name (item_id a) = net_name (item_id b)"
  then show "i = j"
    using agrees_unique [OF ag, of i a j b] hm_get_iff [OF wf] by (auto simp: same_key_def)
qed

text \<open>The named part of a listing does not depend on the iteration order.\<close>

lemma list_status_named:
  assumes ok: "table_ok t" and names: "\<And>a. a \<in># item_bag t \<Longrightarrow> get_name (status a) = net_name (item_id a)"
  shows "filter (\<lambda>s. get_name s \<noteq> None) (list_status f get_name t) =
         filter (\<lambda>s. get_name s \<noteq> None) (list_status g get_name t)"
proof -
  let ?named = "\<lambda>f. filter (\<lambda>s. get_name s \<noteq> None) (list_status f get_name t)"
  let ?xs = "map snd (items t)"
  have ms: "mset (?named f) = image_mset status (filter_mset (\<lambda>a. get_name (status a) \<noteq> None) (item_bag t))" for f
    using list_status_sorted(2) [of f get_name t] by (simp add: filter_mset_image_mset)
  have n: "\<And>a. a \<in> set ?xs \<Longrightarrow> get_name (status a) = net_name (item_id a)"
    using names by (auto simp: item_bag_def)
  have dist: "distinct (map get_name (?named f))" for f
  proof -
    have "mset (map get_name (?named f))
        = mset (map (\<lambda>a. get_name (status a)) (filter (\<lambda>a. get_name (status a) \<noteq> None) ?xs))"
      unfolding mset_map ms by (simp add: item_bag_def image_mset.compositionality comp_def)
    also have "map (\<lambda>a. get_name (status a)) (filter (\<lambda>a. get_name (status a) \<noteq> None) ?xs)
        = map (\<lambda>a. net_name (item_id a)) (filter (\<lambda>a. net_name (item_id a) \<noteq> None) ?xs)"
      using n by (intro map_cong filter_cong) auto
    finally show ?thesis using names_distinct [OF ok] by (metis mset_eq_imp_distinct_iff)
  qed
  have sorted: "sorted (map get_name (?named f))" for f
    using list_status_sorted(1) [of get_name f t] by (rule sorted_filter)
  have set: "set (?named f) = set (?named g)" using ms by (metis set_mset_mset)
  have "inj_on get_name (set (?named f) \<union> set (?named g))"
    unfolding set Un_absorb using dist [of g] by (simp only: distinct_map)
  then show ?thesis
    by (rule map_sorted_distinct_set_unique) (rule sorted dist set)+
qed

text \<open>A listing of links holds the status of every stored link, each as often as stored, ordered by
  name with the unnamed first; when the statuses bear the names of their identifiers, as every item
  the program stores does, the order of the named links is the same for every iteration order.\<close>

theorem link_listing:
  assumes "db_ok db"
  shows "mset (list_link_status f db) = image_mset status (item_bag (links db)) \<and>
    sorted (map link_name (list_link_status f db)) \<and>
    ((\<forall>a \<in># item_bag (links db). link_name (status a) = net_name (item_id a)) \<longrightarrow>
       filter (\<lambda>s. link_name s \<noteq> None) (list_link_status f db) =
       filter (\<lambda>s. link_name s \<noteq> None) (list_link_status g db))"
proof -
  have "table_ok (links db)" using assms by (simp add: db_ok_def)
  from list_status_named [OF this, of link_name f g] list_status_sorted show ?thesis
    unfolding list_link_status_def by blast
qed

theorem link_listing_witness:
  "\<exists>db. item_bag (links db) = {#sample_link None (Some ''lan'') (Some ''eth0'')#} \<and>
     list_link_status (\<lambda>_. 0) db = [\<lparr>link_name = Some ''lan'', status_device = ''eth0'', operational_state = Up\<rparr>]"
proof -
  let ?l = "sample_link None (Some ''lan'') (Some ''eth0'')"
  have "next_index (links InterfaceManagerDatabase_new) \<noteq> - 1" "item_bag (links InterfaceManagerDatabase_new) = {#}"
    by (simp_all add: InterfaceManagerDatabase_new_def empty_table_def item_bag_def)
  with link_store.put_law [OF db_new_ok, of ?l] obtain db where db: "db_ok db" "item_bag (links db) = {#?l#}"
    by (auto simp: put_item_def)
  with link_listing [OF db(1), of "\<lambda>_. 0"] show ?thesis
    by (auto simp: sample_link_def NetworkStatusItem_new_def)
qed

end
