(* ===== verification/Interface_Poll.thy ===== *)
theory Interface_Poll
  imports Netlink_Processor Interface_Database
begin

text \<open>
  The periodic scan of the interface manager, \<open>rusty-router-platform-linux/src/interface/mod.rs\<close>,
  \<open>try_poll\<close> and \<open>poll\<close>, stage by stage as the function has them: the links that the kernel reports,
  the configured links that it does not, the addresses, the interfaces, then the reconciliation
  of links and of interfaces with the database, and the updates to the subscribers.

  What one run takes from its environment is an argument: the kernel's two answers, the order in
  which each hash map is iterated, and the clock at each place where an item is made. A subscriber's
  channel belongs to \<open>tokio\<close>; \<open>try_send\<close> is an argument that may change the state of all
  channels.
\<close>

section \<open>The environment of a run\<close>

record poll_env =
  families :: address_families
  unmapped_order :: order_choice
  link_interface_order :: order_choice
  interface_order :: order_choice
  address_order :: order_choice
  missing_order :: order_choice
  links_order :: order_choice
  interfaces_order :: order_choice
  taken_links_order :: order_choice
  taken_interfaces_order :: order_choice
  link_clock :: "nat \<Rightarrow> instant"
  unmapped_clock :: "nat \<Rightarrow> instant"
  missing_clock :: "nat \<Rightarrow> instant"
  interface_clock :: "nat \<Rightarrow> instant"
  address_clock :: "nat \<Rightarrow> instant"
  deleted_clock :: "nat \<Rightarrow> instant"

section \<open>The kernel's links\<close>

record link_maps =
  mapped_devices :: "(u64, link_item) hash_map"
  mapped_links :: "(string, link_item) hash_map"
  polled_links :: "(CanonicalNetworkId, link_item) hash_map"
  unmapped_links :: "(string, string) hash_map"

definition link_maps_new :: "Router \<Rightarrow> link_maps" where
  "link_maps_new config =
     \<lparr>mapped_devices = [], mapped_links = [], polled_links = [],
      unmapped_links = hm_collect (map (\<lambda>(name, link). (name, link_device link)) (network_links config))\<rparr>"

definition link_response :: "NetlinkMessageProcessor \<Rightarrow> instant \<Rightarrow> NetlinkMessage \<Rightarrow> link_maps \<Rightarrow> link_maps" where
  "link_response p now response s =
     (case process_link_message p (payload response) of
        None \<Rightarrow> s
      | Some (index, network_link) \<Rightarrow>
          let i = CanonicalNetworkId_new (Some index) (link_name network_link) (Some (status_device network_link));
              item = NetworkStatusItem_new now i network_link;
              s = (case link_name (status item) of
                     None \<Rightarrow> s
                   | Some name \<Rightarrow> s\<lparr>unmapped_links := hm_remove name (unmapped_links s),
                                     mapped_links := hm_insert name item (mapped_links s)\<rparr>)
          in s\<lparr>mapped_devices := hm_insert index item (mapped_devices s),
               polled_links := hm_insert i item (polled_links s)\<rparr>)"

definition collect_links ::
  "NetlinkMessageProcessor \<Rightarrow> (nat \<Rightarrow> instant) \<Rightarrow> Router \<Rightarrow> NetlinkMessage list \<Rightarrow> link_maps" where
  "collect_links p clock config link_data =
     fold (\<lambda>(n, response). link_response p (clock n) response) (enumerate 0 link_data) (link_maps_new config)"

section \<open>Configured links that the kernel does not report\<close>

type_synonym link_map = "(CanonicalNetworkId, link_item) hash_map"
type_synonym interface_map = "(CanonicalNetworkId, interface_item) hash_map"

definition link_network_interfaces :: "order_choice \<Rightarrow> Router \<Rightarrow> (string, string) hash_map" where
  "link_network_interfaces f config =
     hm_collect (map (\<lambda>(name, interface). (interface_network_link interface, name))
       (iter_order f (network_interfaces config)))"

definition unmapped_link ::
  "(string, string) hash_map \<Rightarrow> instant \<Rightarrow> instant \<Rightarrow> string \<times> string \<Rightarrow> link_map \<times> interface_map \<Rightarrow>
   link_map \<times> interface_map" where
  "unmapped_link link_interfaces now now' = (\<lambda>(name, dev) (all_links, missing).
     let i = CanonicalNetworkId_new None (Some name) (Some dev);
         link_status = \<lparr>link_name = Some name, status_device = dev, operational_state = NotFound\<rparr>;
         all_links = hm_insert i (NetworkStatusItem_new now i link_status) all_links
     in case hm_get link_interfaces name of
          None \<Rightarrow> (all_links, missing)
        | Some iface \<Rightarrow>
            let interface_id = CanonicalNetworkId_new None (Some iface) (Some dev)
            in (all_links,
                hm_insert interface_id
                  (NetworkStatusItem_new now' interface_id
                     \<lparr>interface_name = Some iface, status_addresses = [],
                      network_link_status = link_status\<rparr>) missing))"

definition collect_unmapped ::
  "poll_env \<Rightarrow> Router \<Rightarrow> (string, string) hash_map \<Rightarrow> link_map \<Rightarrow> link_map \<times> interface_map" where
  "collect_unmapped env config unmapped all_links =
     fold (\<lambda>(n, entry). unmapped_link (link_network_interfaces (link_interface_order env) config)
             (unmapped_clock env n) (missing_clock env n) entry)
       (enumerate 0 (iter_order (unmapped_order env) unmapped)) (all_links, [])"

section \<open>Addresses and interfaces\<close>

type_synonym address_map = "(u64, IpAddress list) hash_map"

definition address_response :: "address_families \<Rightarrow> NetlinkMessage \<Rightarrow> address_map \<Rightarrow> address_map" where
  "address_response af response m =
     (case process_address_message af (payload response) of
        None \<Rightarrow> m
      | Some (index, address) \<Rightarrow>
          (case hm_get m index of
             None \<Rightarrow> hm_insert index [address] m
           | Some known \<Rightarrow> hm_insert index (known @ [address]) m))"

definition collect_addresses :: "address_families \<Rightarrow> NetlinkMessage list \<Rightarrow> address_map" where
  "collect_addresses af network_data = fold (address_response af) network_data []"

text \<open>One configured interface: on a reported link, on a configured link, or on no link at all.\<close>

definition configured_interface ::
  "Router \<Rightarrow> (string, link_item) hash_map \<Rightarrow> instant \<Rightarrow> string \<times> NetworkInterface \<Rightarrow>
   address_map \<times> interface_map \<Rightarrow> address_map \<times> interface_map" where
  "configured_interface config mapped now = (\<lambda>(name, interface) (network_addresses, all_interfaces).
     case hm_get mapped (interface_network_link interface) of
       Some network_link \<Rightarrow>
         let i = CanonicalNetworkId_new (net_id (item_id network_link)) (Some name) (net_device (item_id network_link));
             (found, network_addresses) =
               (case net_id (item_id network_link) of
                  None \<Rightarrow> ([], network_addresses)
                | Some index \<Rightarrow>
                    (case hm_get network_addresses index of None \<Rightarrow> [] | Some known \<Rightarrow> known,
                     hm_remove index network_addresses))
         in (network_addresses,
             hm_insert i
               (NetworkStatusItem_new now i
                  \<lparr>interface_name = Some name, status_addresses = sort found,
                   network_link_status = status network_link\<rparr>) all_interfaces)
     | None \<Rightarrow>
         (case hm_get (network_links config) (interface_network_link interface) of
            Some network_link \<Rightarrow>
              let i = CanonicalNetworkId_new None (Some name) (Some (link_device network_link))
              in (network_addresses,
                  hm_insert i
                    (NetworkStatusItem_new now i
                       \<lparr>interface_name = Some name, status_addresses = [],
                        network_link_status =
                          \<lparr>link_name = Some (interface_network_link interface),
                           status_device = link_device network_link, operational_state = Misconfigured\<rparr>\<rparr>) all_interfaces)
          | None \<Rightarrow>
              let i = CanonicalNetworkId_new None (Some name) None
              in (network_addresses,
                  hm_insert i
                    (NetworkStatusItem_new now i
                       \<lparr>interface_name = Some name, status_addresses = [],
                        network_link_status =
                          \<lparr>link_name = Some (interface_network_link interface),
                           status_device = [], operational_state = Misconfigured\<rparr>\<rparr>) all_interfaces)))"

definition configured_interfaces ::
  "poll_env \<Rightarrow> Router \<Rightarrow> (string, link_item) hash_map \<Rightarrow> address_map \<Rightarrow> address_map \<times> interface_map" where
  "configured_interfaces env config mapped network_addresses =
     fold (\<lambda>(n, entry). configured_interface config mapped (interface_clock env n) entry)
       (enumerate 0 (iter_order (interface_order env) (network_interfaces config))) (network_addresses, [])"

text \<open>The addresses left are those of devices without a configured interface.\<close>

definition device_interface ::
  "(u64, link_item) hash_map \<Rightarrow> instant \<Rightarrow> u64 \<times> IpAddress list \<Rightarrow> interface_map \<Rightarrow> interface_map" where
  "device_interface devices now = (\<lambda>(index, known) all_interfaces.
     case hm_get devices index of
       None \<Rightarrow> all_interfaces
     | Some network_link \<Rightarrow>
         let i = CanonicalNetworkId_new (Some index) None (Some (status_device (status network_link)))
         in hm_insert i
              (NetworkStatusItem_new now i
                 \<lparr>interface_name = None, status_addresses = sort known,
                  network_link_status = status network_link\<rparr>) all_interfaces)"

definition device_interfaces ::
  "poll_env \<Rightarrow> (u64, link_item) hash_map \<Rightarrow> address_map \<Rightarrow> interface_map \<Rightarrow> interface_map" where
  "device_interfaces env devices network_addresses all_interfaces =
     fold (\<lambda>(n, entry). device_interface devices (address_clock env n) entry)
       (enumerate 0 (iter_order (address_order env) network_addresses)) all_interfaces"

definition add_missing :: "order_choice \<Rightarrow> interface_map \<Rightarrow> interface_map \<Rightarrow> interface_map" where
  "add_missing f missing all_interfaces = fold (\<lambda>(i, item). hm_insert i item) (iter_order f missing) all_interfaces"

text \<open>All the stages: the links and the interfaces that this run has seen.\<close>

definition gather ::
  "poll_env \<Rightarrow> Router \<Rightarrow> NetlinkMessageProcessor \<Rightarrow> NetlinkMessage list \<Rightarrow> NetlinkMessage list \<Rightarrow>
   link_map \<times> interface_map" where
  "gather env config p link_data network_data =
     (let maps = collect_links p (link_clock env) config link_data;
          (all_links, missing) = collect_unmapped env config (unmapped_links maps) (polled_links maps);
          network_addresses = collect_addresses (families env) network_data;
          (network_addresses, all_interfaces) = configured_interfaces env config (mapped_links maps) network_addresses;
          all_interfaces = device_interfaces env (mapped_devices maps) network_addresses all_interfaces;
          all_interfaces = add_missing (missing_order env) missing all_interfaces
      in (all_links, all_interfaces))"

section \<open>Reconciliation with the database\<close>

text \<open>\<open>ENTROPY_HOLD_PERIOD_SECONDS\<close>, in nanoseconds.\<close>

definition hold_period :: instant where
  "hold_period = 5 * 1000000000"

text \<open>
  The body of the loops over the links and over the interfaces, with the removal of the kind:
  the stored item with this very identifier, if there is one, stays unless it is older than the
  hold period and its status has changed; then, or when there was none, the new item takes over
  and subscribers are told.
\<close>

definition reconcile_item ::
  "(CanonicalNetworkId \<Rightarrow> 's \<Rightarrow> 'a NetworkStatusItem list \<Rightarrow> 's \<times> 'a NetworkStatusItem list) \<Rightarrow>
   CanonicalNetworkId \<times> 'a NetworkStatusItem \<Rightarrow>
   's \<times> 'a NetworkStatusItem list \<times> 'a NetworkStatusItem list \<Rightarrow>
   's \<times> 'a NetworkStatusItem list \<times> 'a NetworkStatusItem list" where
  "reconcile_item delete_on = (\<lambda>(i, fresh) (db, notify, established).
     let (db, deleted_items) = delete_on i db []
     in case find (\<lambda>item. item_id item = i) deleted_items of
          None \<Rightarrow> (db, notify @ [fresh], established @ [fresh])
        | Some item \<Rightarrow>
            if refreshed item + hold_period < refreshed fresh \<and> status item \<noteq> status fresh
            then (db, notify @ [fresh], established @ [fresh])
            else (db, notify, established @ [item]))"

definition poll_links ::
  "poll_env \<Rightarrow> link_map \<Rightarrow> InterfaceManagerDatabase \<Rightarrow>
   (InterfaceManagerDatabase \<times> link_item list \<times> link_item list) router_result" where
  "poll_links env polled db =
     (let (db, notify_links, established_links) =
            fold (reconcile_item remove_link_status_item) (iter_order (links_order env) polled) (db, [], []);
          (notify_deleted_links, db) = take_link_status_items (taken_links_order env) db
      in obind (ofold (\<lambda>item db. obind (set_link_status_item item db) (\<lambda>(db, deleted). Ok db)) established_links db) (\<lambda>db.
         Ok (db, notify_deleted_links, notify_links)))"

definition not_found_interface :: "instant \<Rightarrow> interface_item \<Rightarrow> interface_item" where
  "not_found_interface now item =
     NetworkStatusItem_new now (item_id item)
       \<lparr>interface_name = interface_name (status item), status_addresses = status_addresses (status item),
        network_link_status =
          \<lparr>link_name = link_name (network_link_status (status item)),
           status_device = status_device (network_link_status (status item)),
           operational_state = NotFound\<rparr>\<rparr>"

definition poll_interfaces ::
  "poll_env \<Rightarrow> interface_map \<Rightarrow> InterfaceManagerDatabase \<Rightarrow>
   (InterfaceManagerDatabase \<times> interface_item list \<times> interface_item list) router_result" where
  "poll_interfaces env polled db =
     (let (db, notify_interfaces, established_interfaces) =
            fold (reconcile_item remove_interface_status_item) (iter_order (interfaces_order env) polled) (db, [], []);
          (taken, db) = take_interface_status_items (taken_interfaces_order env) db;
          notify_deleted_interfaces = map (\<lambda>(n, item). not_found_interface (deleted_clock env n) item) (enumerate 0 taken)
      in obind (ofold (\<lambda>item db. obind (set_interface_status_item item db) (\<lambda>(db, deleted). Ok db)) established_interfaces db) (\<lambda>db.
         Ok (db, notify_deleted_interfaces, notify_interfaces)))"

section \<open>Subscribers\<close>

text \<open>\<open>retain\<close>: a subscriber is sent the updates in turn until one fails, and kept if none does.\<close>

type_synonym ('sub, 'ch) sender = "'sub \<Rightarrow> NetworkStatusUpdate \<Rightarrow> 'ch \<Rightarrow> bool \<times> 'ch"

primrec send_all :: "('sub, 'ch) sender \<Rightarrow> 'sub \<Rightarrow> NetworkStatusUpdate list \<Rightarrow> 'ch \<Rightarrow> bool \<times> 'ch" where
  "send_all try_send subscriber [] ch = (True, ch)"
| "send_all try_send subscriber (message # messages) ch =
     (case try_send subscriber message ch of
        (True, ch) \<Rightarrow> send_all try_send subscriber messages ch
      | (False, ch) \<Rightarrow> (False, ch))"

primrec retain_subscribers ::
  "('sub, 'ch) sender \<Rightarrow> NetworkStatusUpdate list \<Rightarrow> 'sub list \<Rightarrow> 'ch \<Rightarrow> 'sub list \<times> 'ch" where
  "retain_subscribers try_send messages [] ch = ([], ch)"
| "retain_subscribers try_send messages (subscriber # subscribers) ch =
     (let (sent, ch) = send_all try_send subscriber messages ch;
          (kept, ch) = retain_subscribers try_send messages subscribers ch
      in (if sent then subscriber # kept else kept, ch))"

definition poll_updates ::
  "link_item list \<Rightarrow> link_item list \<Rightarrow> interface_item list \<Rightarrow> interface_item list \<Rightarrow> NetworkStatusUpdate list" where
  "poll_updates deleted_links notify_links deleted_interfaces notify_interfaces =
     map (\<lambda>m. LinkUpdate (status m)) deleted_links @ map (\<lambda>m. LinkUpdate (status m)) notify_links @
     map (\<lambda>m. InterfaceUpdate (status m)) deleted_interfaces @ map (\<lambda>m. InterfaceUpdate (status m)) notify_interfaces"

section \<open>The poll\<close>

record ('sub, 'ch) manager =
  database :: InterfaceManagerDatabase
  subscribers :: "'sub list"
  channels :: 'ch

definition try_poll ::
  "poll_env \<Rightarrow> Router \<Rightarrow> NetlinkMessageProcessor \<Rightarrow> ('sub, 'ch) sender \<Rightarrow>
   NetlinkMessage list router_result \<Rightarrow> NetlinkMessage list router_result \<Rightarrow>
   ('sub, 'ch) manager \<Rightarrow> ('sub, 'ch) manager router_result" where
  "try_poll env config p try_send link_reply address_reply st =
     obind link_reply (\<lambda>link_data.
     obind address_reply (\<lambda>network_data.
     let (polled_links, polled_interfaces) = gather env config p link_data network_data in
     obind (poll_links env polled_links (database st)) (\<lambda>(db, notify_deleted_links, notify_links).
     obind (poll_interfaces env polled_interfaces db) (\<lambda>(db, notify_deleted_interfaces, notify_interfaces).
     let (kept, ch) = retain_subscribers try_send
           (poll_updates notify_deleted_links notify_links notify_deleted_interfaces notify_interfaces)
           (subscribers st) (channels st)
     in Ok (st\<lparr>database := db, subscribers := kept, channels := ch\<rparr>)))))"

text \<open>\<open>poll\<close> logs an error and goes on.\<close>

definition poll ::
  "poll_env \<Rightarrow> Router \<Rightarrow> NetlinkMessageProcessor \<Rightarrow> ('sub, 'ch) sender \<Rightarrow>
   NetlinkMessage list router_result \<Rightarrow> NetlinkMessage list router_result \<Rightarrow>
   ('sub, 'ch) manager \<Rightarrow> ('sub, 'ch) manager router_result" where
  "poll env config p try_send link_reply address_reply st =
     (case try_poll env config p try_send link_reply address_reply st of
        Ok st' \<Rightarrow> Ok st'
      | Err e \<Rightarrow> Ok st
      | Panic \<Rightarrow> Panic)"

section \<open>What reconciliation does\<close>

definition replaced :: "'a NetworkStatusItem \<Rightarrow> 'a NetworkStatusItem \<Rightarrow> bool" where
  "replaced stored fresh \<longleftrightarrow> refreshed stored + hold_period < refreshed fresh \<and> status stored \<noteq> status fresh"

text \<open>A new item is announced when nothing is stored under its identifier or what is stored gives way.\<close>

definition announced :: "'a NetworkStatusItem multiset \<Rightarrow> CanonicalNetworkId \<times> 'a NetworkStatusItem \<Rightarrow> bool" where
  "announced M = (\<lambda>(i, fresh). \<forall>a \<in># M. item_id a = i \<longrightarrow> replaced a fresh)"

text \<open>The item that is kept for an identifier: the announced new one or the stored one.\<close>

definition settled ::
  "'a NetworkStatusItem multiset \<Rightarrow> CanonicalNetworkId \<times> 'a NetworkStatusItem \<Rightarrow> 'a NetworkStatusItem \<Rightarrow> bool" where
  "settled M = (\<lambda>(i, fresh) x.
     if announced M (i, fresh) then x = fresh else x \<in># M \<and> item_id x = i \<and> \<not> replaced x fresh)"

text \<open>Identifiers of one run: each has some key and no two share one.\<close>

definition ids_apart :: "CanonicalNetworkId set \<Rightarrow> bool" where
  "ids_apart I \<longleftrightarrow> (\<forall>i \<in> I. conflicts i i \<and> (\<forall>j \<in> I. i \<noteq> j \<longrightarrow> \<not> conflicts i j))"

definition apart :: "(CanonicalNetworkId \<times> 'a NetworkStatusItem) list \<Rightarrow> bool" where
  "apart polled \<longleftrightarrow> hm_wf polled \<and> (\<forall>(i, x) \<in> set polled. item_id x = i) \<and> ids_apart (fst ` set polled)"

lemma apart_iter_order [simp]: "apart (iter_order f polled) = apart polled"
  by (simp add: apart_def)

lemma settled_cong:
  "(\<And>a. item_id a = i \<Longrightarrow> a \<in># M \<longleftrightarrow> a \<in># N) \<Longrightarrow>
   announced M (i, fresh) = announced N (i, fresh) \<and> settled M (i, fresh) = settled N (i, fresh)"
  by (auto simp: announced_def settled_def fun_eq_iff)

lemma settled_id: "settled M (i, fresh) x \<Longrightarrow> item_id fresh = i \<Longrightarrow> item_id x = i"
  by (auto simp: settled_def split: if_splits)

context item_store
begin

lemma unique_id:
  assumes "ok s" "a \<in># bag s" "b \<in># bag s" "item_id a = item_id b" "conflicts (item_id a) (item_id a)"
  shows "a = b"
proof (rule ccontr)
  assume "a \<noteq> b"
  obtain M where M: "bag s = add_mset a M" using assms(2) by (meson multi_member_split)
  with assms(3) \<open>a \<noteq> b\<close> obtain N where "M = add_mset b N" by (metis insert_noteq_member multi_member_split)
  with unique [OF assms(1), of a b N] M assms(4,5) show False by simp
qed

lemma reconcile_one:
  assumes "ok s" "conflicts i i"
  obtains s' x where "reconcile_item delete_on (i, fresh) (s, notify, established) =
        (s', notify @ (if announced (bag s) (i, fresh) then [fresh] else []), established @ [x])"
    and "settled (bag s) (i, fresh) x" "ok s'" "counter s' = counter s" "rest s' = rest s"
    and "bag s' = filter_mset (\<lambda>a. \<not> conflicts i (item_id a)) (bag s)"
proof -
  obtain s' d where d: "delete_on i s [] = (s', d)" by fastforce
  from delete_law [OF assms(1) d] have law: "ok s'" "counter s' = counter s"
      "bag s' = filter_mset (\<lambda>a. \<not> conflicts i (item_id a)) (bag s)"
      "mset d = filter_mset (\<lambda>a. conflicts i (item_id a)) (bag s)" by auto
  note law = law delete_rest [OF d]
  have set_d: "set d = {a \<in> set_mset (bag s). conflicts i (item_id a)}"
    using law(4) by (metis set_mset_filter set_mset_mset)
  show ?thesis
  proof (cases "find (\<lambda>item. item_id item = i) d")
    case None
    then have none: "\<And>a. a \<in># bag s \<Longrightarrow> item_id a \<noteq> i"
      using set_d assms(2) by (auto simp: find_None_iff)
    then have ann: "announced (bag s) (i, fresh)" by (auto simp: announced_def)
    show ?thesis
    proof (rule that [of s' fresh])
      show "reconcile_item delete_on (i, fresh) (s, notify, established) =
          (s', notify @ (if announced (bag s) (i, fresh) then [fresh] else []), established @ [fresh])"
        by (simp add: reconcile_item_def d None ann)
      show "settled (bag s) (i, fresh) fresh" by (simp add: settled_def ann)
    qed (fact law)+
  next
    case (Some y)
    then have "y \<in> set d \<and> item_id y = i" by (auto simp: find_Some_iff)
    then have y: "y \<in># bag s" "item_id y = i" unfolding set_d by simp_all
    have only: "a = y" if "a \<in># bag s" "item_id a = i" for a
      by (rule unique_id [OF assms(1)]) (use that y assms(2) in simp_all)
    have ann: "announced (bag s) (i, fresh) = replaced y fresh"
      unfolding announced_def prod.case using y only by blast
    show ?thesis
    proof (rule that [of s' "if replaced y fresh then fresh else y"])
      show "reconcile_item delete_on (i, fresh) (s, notify, established) =
          (s', notify @ (if announced (bag s) (i, fresh) then [fresh] else []),
           established @ [if replaced y fresh then fresh else y])"
        by (simp add: reconcile_item_def d Some ann replaced_def)
      show "settled (bag s) (i, fresh) (if replaced y fresh then fresh else y)"
        using y by (simp add: settled_def ann)
    qed (fact law)+
  qed
qed

lemma reconcile_all:
  "ok s \<Longrightarrow> apart polled \<Longrightarrow>
   \<exists>s' est. rest s' = rest s \<and> fold (reconcile_item delete_on) polled (s, notify, established) =
       (s', notify @ map snd (filter (announced (bag s)) polled), established @ est) \<and>
     list_all2 (settled (bag s)) polled est \<and> ok s' \<and> counter s' = counter s \<and>
     bag s' = filter_mset (\<lambda>a. \<forall>i \<in> fst ` set polled. \<not> conflicts i (item_id a)) (bag s)"
proof (induction polled arbitrary: s notify established)
  case (Cons p polled)
  obtain i fresh where p: "p = (i, fresh)" by (cases p)
  have i: "conflicts i i" and tail: "apart polled" and sep: "\<And>j. j \<in> fst ` set polled \<Longrightarrow> \<not> conflicts i j"
    using Cons.prems(2) by (auto simp: p apart_def ids_apart_def)
  obtain s1 x where 1: "reconcile_item delete_on (i, fresh) (s, notify, established) =
        (s1, notify @ (if announced (bag s) (i, fresh) then [fresh] else []), established @ [x])"
      "settled (bag s) (i, fresh) x" "ok s1" "counter s1 = counter s" "rest s1 = rest s"
      "bag s1 = filter_mset (\<lambda>a. \<not> conflicts i (item_id a)) (bag s)"
    by (rule reconcile_one [OF Cons.prems(1) i])
  have same: "announced (bag s1) q = announced (bag s) q \<and> settled (bag s1) q = settled (bag s) q"
    if "q \<in> set polled" for q
  proof (cases q)
    case (Pair j f)
    with that sep [of j] have "\<not> conflicts i j" by force
    with settled_cong [of j "bag s1" "bag s" f] show ?thesis by (auto simp: Pair 1(6))
  qed
  obtain s' est where 2: "rest s' = rest s1" "fold (reconcile_item delete_on) polled
        (s1, notify @ (if announced (bag s) (i, fresh) then [fresh] else []), established @ [x]) =
        (s', (notify @ (if announced (bag s) (i, fresh) then [fresh] else [])) @ map snd (filter (announced (bag s1)) polled),
         (established @ [x]) @ est)"
      "list_all2 (settled (bag s1)) polled est" "ok s'" "counter s' = counter s1"
      "bag s' = filter_mset (\<lambda>a. \<forall>i \<in> fst ` set polled. \<not> conflicts i (item_id a)) (bag s1)"
    using Cons.IH [OF 1(3) tail] by blast
  have "list_all2 (settled (bag s)) polled est"
    using 2(3) same by (simp add: list_all2_conv_all_nth)
  moreover have "filter (announced (bag s1)) polled = filter (announced (bag s)) polled"
    using same by (intro filter_cong) auto
  ultimately show ?case
    using 1 2(1,2,4,5,6) by (auto simp: p filter_filter_mset conj_commute)
qed simp

end

lemma settled_conflict_free:
  assumes "apart polled" "list_all2 (settled M) polled est"
  shows "conflict_free est"
  unfolding conflict_free_def sorted_wrt_iff_nth_less
proof (intro allI impI)
  fix k l
  assume kl: "k < l" "l < length est"
  then have len: "l < length polled" "k < length polled" using assms(2) by (auto dest: list_all2_lengthD)
  have ids: "item_id (est ! n) = fst (polled ! n)" if "n < length polled" for n
  proof -
    obtain i x where "polled ! n = (i, x)" by (cases "polled ! n")
    then have "(i, x) \<in> set polled" "settled M (i, x) (est ! n)"
      using that assms(2) by (metis nth_mem, metis list_all2_nthD)
    with assms(1) \<open>polled ! n = (i, x)\<close> show ?thesis by (auto simp: apart_def dest: settled_id)
  qed
  have "fst (polled ! l) \<noteq> fst (polled ! k)"
    using assms(1) len kl(1) by (auto simp: apart_def distinct_conv_nth)
  then show "\<not> conflicts (item_id (est ! l)) (item_id (est ! k))"
    using assms(1) len by (auto simp: apart_def ids_apart_def ids)
qed

context item_store
begin

text \<open>The loop over the polled items, the removal of the rest and the insertion of what was kept.\<close>

lemma reconcile_store:
  assumes "ok s" "apart polled" "length polled < 2 ^ 64"
    and "fold (reconcile_item delete_on) polled (s, [], []) = (s1, notify, est)"
    and "take_all f s1 = (taken, s2)"
  shows "\<exists>s3. put_all est s2 = Ok s3 \<and> ok s3 \<and> rest s3 = rest s \<and> bag s3 = mset est \<and>
    list_all2 (settled (bag s)) polled est \<and> notify = map snd (filter (announced (bag s)) polled) \<and>
    mset taken = filter_mset (\<lambda>a. \<forall>i \<in> fst ` set polled. \<not> conflicts i (item_id a)) (bag s)"
proof -
  have 1: "notify = map snd (filter (announced (bag s)) polled)" "list_all2 (settled (bag s)) polled est" "ok s1"
      "bag s1 = filter_mset (\<lambda>a. \<forall>i \<in> fst ` set polled. \<not> conflicts i (item_id a)) (bag s)" "rest s1 = rest s"
    using reconcile_all [OF assms(1,2), of "[]" "[]"] unfolding assms(4) append_Nil by blast+
  have 2: "ok s2" "counter s2 = 0" "bag s2 = {#}" "mset taken = bag s1" "rest s2 = rest s1"
    using take_law [OF 1(3) assms(5)] take_rest [OF assms(5)] by auto
  have "unat (counter s2) + length est < 2 ^ 64"
    using 1(2) assms(3) by (simp add: 2(2) list_all2_lengthD)
  from put_all_returns [OF 2(1) this] obtain s3 where 3: "put_all est s2 = Ok s3" by blast
  from put_all_Ok [OF 2(1) 3] have "ok s3" "bag s3 = mset est" "rest s3 = rest s"
    by (simp_all add: 1(5) 2(3,5) fold_put_item [OF settled_conflict_free [OF assms(2) 1(2)]])
  moreover have "mset taken = filter_mset (\<lambda>a. \<forall>i \<in> fst ` set polled. \<not> conflicts i (item_id a)) (bag s)"
    by (simp only: 2(4) 1(4))
  ultimately show ?thesis using 1(1,2) 3 by blast
qed

end

lemma poll_links_settle:
  assumes "db_ok db" "apart polled" "length polled < 2 ^ 64"
  shows "\<exists>db' deleted notify. poll_links env polled db = Ok (db', deleted, notify) \<and> db_ok db' \<and>
    interfaces db' = interfaces db \<and>
    (\<exists>est. list_all2 (settled (item_bag (links db))) (iter_order (links_order env) polled) est \<and>
       item_bag (links db') = mset est) \<and>
    mset notify = image_mset snd (filter_mset (announced (item_bag (links db))) (mset polled)) \<and>
    mset deleted = filter_mset (\<lambda>a. \<forall>i \<in> fst ` set polled. \<not> conflicts i (item_id a)) (item_bag (links db))"
proof -
  let ?polled = "iter_order (links_order env) polled"
  obtain db1 notify est where 1: "fold (reconcile_item remove_link_status_item) ?polled (db, [], []) = (db1, notify, est)"
    by (metis prod_cases3)
  obtain taken db2 where 2: "take_link_status_items (taken_links_order env) db1 = (taken, db2)" by fastforce
  have "apart ?polled" "length ?polled < 2 ^ 64" using assms(2,3) by simp_all
  from link_store.reconcile_store [OF assms(1) this 1 2] obtain db3 where
    3: "link_store.put_all est db2 = Ok db3" "db_ok db3" "interfaces db3 = interfaces db" "item_bag (links db3) = mset est"
      "list_all2 (settled (item_bag (links db))) ?polled est"
      "notify = map snd (filter (announced (item_bag (links db))) ?polled)"
      "mset taken = filter_mset (\<lambda>a. \<forall>i \<in> fst ` set ?polled. \<not> conflicts i (item_id a)) (item_bag (links db))"
    by blast
  have "poll_links env polled db = Ok (db3, taken, notify)"
    using 3(1) by (simp add: poll_links_def 1 2 link_store.put_all_def)
  then show ?thesis using 3 by auto
qed

text \<open>Reconciling the links of a run whose identifiers share no key, on a consistent database: the
  call returns; afterwards the database holds exactly one link for each identifier of the run,
  the stored one if its status is unchanged or younger than the hold period and the new one
  otherwise; the announced links are the new ones and those whose status gave way; the links
  reported as deleted are the stored ones that share no key with any identifier of the run; and
  the interfaces are untouched. None of this depends on the order of iteration.\<close>

theorem poll_links_reconciles:
  assumes "db_ok db" "apart polled" "length polled < 2 ^ 64"
  shows "\<exists>db' deleted notify. poll_links env polled db = Ok (db', deleted, notify) \<and> db_ok db' \<and>
    interfaces db' = interfaces db \<and>
    (\<exists>est. list_all2 (settled (item_bag (links db))) (iter_order (links_order env) polled) est \<and>
       item_bag (links db') = mset est) \<and>
    mset notify = image_mset snd (filter_mset (announced (item_bag (links db))) (mset polled)) \<and>
    mset deleted = filter_mset (\<lambda>a. \<forall>i \<in> fst ` set polled. \<not> conflicts i (item_id a)) (item_bag (links db))"
  using assms by (rule poll_links_settle)

definition sample_env :: poll_env where
  "sample_env =
     \<lparr>families = \<lparr>AF_INET = 2, AF_INET6 = 10\<rparr>, unmapped_order = \<lambda>_. 0, link_interface_order = \<lambda>_. 0,
      interface_order = \<lambda>_. 0, address_order = \<lambda>_. 0, missing_order = \<lambda>_. 0, links_order = \<lambda>_. 0,
      interfaces_order = \<lambda>_. 0, taken_links_order = \<lambda>_. 0, taken_interfaces_order = \<lambda>_. 0,
      link_clock = \<lambda>_. 3000000000, unmapped_clock = \<lambda>_. 3000000000, missing_clock = \<lambda>_. 3000000000,
      interface_clock = \<lambda>_. 3000000000, address_clock = \<lambda>_. 3000000000, deleted_clock = \<lambda>_. 3000000000\<rparr>"

text \<open>A link stored as up three seconds before the run stays so although the kernel reports it down.\<close>

theorem poll_links_reconciles_witness:
  "\<exists>db db'. item_bag (links db) = {#sample_link (Some 2) None (Some ''eth0'')#} \<and>
     poll_links sample_env
       [(item_id (sample_link (Some 2) None (Some ''eth0'')),
         (sample_link (Some 2) None (Some ''eth0''))
           \<lparr>status := \<lparr>link_name = None, status_device = ''eth0'', operational_state = Down\<rparr>, refreshed := 3000000000\<rparr>)] db
       = Ok (db', [], []) \<and>
     item_bag (links db') = {#sample_link (Some 2) None (Some ''eth0'')#}"
proof -
  let ?l = "sample_link (Some 2) None (Some ''eth0'')"
  let ?n = "?l\<lparr>status := \<lparr>link_name = None, status_device = ''eth0'', operational_state = Down\<rparr>, refreshed := 3000000000\<rparr>"
  have "next_index (links InterfaceManagerDatabase_new) \<noteq> - 1" "item_bag (links InterfaceManagerDatabase_new) = {#}"
    by (simp_all add: InterfaceManagerDatabase_new_def empty_table_def item_bag_def)
  with link_store.put_law [OF db_new_ok, of ?l] obtain db where db: "db_ok db" "item_bag (links db) = {#?l#}"
    by (auto simp: put_item_def)
  have c: "conflicts (item_id ?l) (item_id ?l)"
    by (simp add: sample_link_def CanonicalNetworkId_new_def NetworkStatusItem_new_def conflicts_def same_key_def)
  have i: "item_id ?n = item_id ?l" by simp
  have r: "\<not> replaced ?l ?n" by (simp add: replaced_def hold_period_def sample_link_def NetworkStatusItem_new_def)
  have "apart [(item_id ?l, ?n)]" by (simp add: apart_def ids_apart_def c i)
  with poll_links_reconciles [OF db(1) this, of sample_env] db(2) c r show ?thesis
    by (auto simp: announced_def settled_def insert_at_def list_all2_Cons1)
qed

lemma poll_interfaces_settle:
  assumes "db_ok db" "apart polled" "length polled < 2 ^ 64"
  shows "\<exists>db' deleted notify. poll_interfaces env polled db = Ok (db', deleted, notify) \<and> db_ok db' \<and>
    links db' = links db \<and>
    (\<exists>est. list_all2 (settled (item_bag (interfaces db))) (iter_order (interfaces_order env) polled) est \<and>
       item_bag (interfaces db') = mset est) \<and>
    mset notify = image_mset snd (filter_mset (announced (item_bag (interfaces db))) (mset polled)) \<and>
    image_mset (\<lambda>a. (item_id a, status a)) (mset deleted) =
      image_mset (\<lambda>a. (item_id a, status (not_found_interface 0 a)))
        (filter_mset (\<lambda>a. \<forall>i \<in> fst ` set polled. \<not> conflicts i (item_id a)) (item_bag (interfaces db)))"
proof -
  let ?polled = "iter_order (interfaces_order env) polled"
  obtain db1 notify est where 1: "fold (reconcile_item remove_interface_status_item) ?polled (db, [], []) = (db1, notify, est)"
    by (metis prod_cases3)
  obtain taken db2 where 2: "take_interface_status_items (taken_interfaces_order env) db1 = (taken, db2)" by fastforce
  let ?deleted = "map (\<lambda>(n, item). not_found_interface (deleted_clock env n) item) (enumerate 0 taken)"
  have "apart ?polled" "length ?polled < 2 ^ 64" using assms(2,3) by simp_all
  from interface_store.reconcile_store [OF assms(1) this 1 2] obtain db3 where
    3: "interface_store.put_all est db2 = Ok db3" "db_ok db3" "links db3 = links db" "item_bag (interfaces db3) = mset est"
      "list_all2 (settled (item_bag (interfaces db))) ?polled est"
      "notify = map snd (filter (announced (item_bag (interfaces db))) ?polled)"
      "mset taken = filter_mset (\<lambda>a. \<forall>i \<in> fst ` set ?polled. \<not> conflicts i (item_id a)) (item_bag (interfaces db))"
    by blast
  have "map (\<lambda>a. (item_id a, status a)) ?deleted
      = map (\<lambda>a. (item_id a, status (not_found_interface 0 a))) (map snd (enumerate 0 taken))"
    by (simp add: not_found_interface_def NetworkStatusItem_new_def split_def comp_def del: map_snd_enumerate)
  from arg_cong [where f = mset, OF this]
  have del: "image_mset (\<lambda>a. (item_id a, status a)) (mset ?deleted)
      = image_mset (\<lambda>a. (item_id a, status (not_found_interface 0 a))) (mset taken)"
    by (simp only: mset_map map_snd_enumerate)
  show ?thesis
  proof (intro exI conjI)
    show "poll_interfaces env polled db = Ok (db3, ?deleted, notify)"
      using 3(1) by (simp add: poll_interfaces_def 1 2 interface_store.put_all_def)
    show "mset notify = image_mset snd (filter_mset (announced (item_bag (interfaces db))) (mset polled))"
      by (simp add: 3(6))
    show "image_mset (\<lambda>a. (item_id a, status a)) (mset ?deleted) =
      image_mset (\<lambda>a. (item_id a, status (not_found_interface 0 a)))
        (filter_mset (\<lambda>a. \<forall>i \<in> fst ` set polled. \<not> conflicts i (item_id a)) (item_bag (interfaces db)))"
      unfolding del 3(7) set_iter_order ..
  qed (fact 3)+
qed

text \<open>The same for the interfaces of a run, with the links untouched; an interface that no identifier
  of the run shares a key with is reported as deleted with its name and addresses and with the
  state of its link set to \<open>NotFound\<close>.\<close>

theorem poll_interfaces_reconciles:
  assumes "db_ok db" "apart polled" "length polled < 2 ^ 64"
  shows "\<exists>db' deleted notify. poll_interfaces env polled db = Ok (db', deleted, notify) \<and> db_ok db' \<and>
    links db' = links db \<and>
    (\<exists>est. list_all2 (settled (item_bag (interfaces db))) (iter_order (interfaces_order env) polled) est \<and>
       item_bag (interfaces db') = mset est) \<and>
    mset notify = image_mset snd (filter_mset (announced (item_bag (interfaces db))) (mset polled)) \<and>
    image_mset (\<lambda>a. (item_id a, status a)) (mset deleted) =
      image_mset (\<lambda>a. (item_id a, status (not_found_interface 0 a)))
        (filter_mset (\<lambda>a. \<forall>i \<in> fst ` set polled. \<not> conflicts i (item_id a)) (item_bag (interfaces db)))"
  using assms by (rule poll_interfaces_settle)

definition sample_interface :: "u64 option \<Rightarrow> string option \<Rightarrow> NetworkLinkOperationalState \<Rightarrow> interface_item" where
  "sample_interface i n st = NetworkStatusItem_new 0 (CanonicalNetworkId_new i n (Some ''eth0''))
     \<lparr>interface_name = n, status_addresses = [IpAddress (V4 0x0A000001) 24],
      network_link_status = \<lparr>link_name = Some ''lan'', status_device = ''eth0'', operational_state = st\<rparr>\<rparr>"

theorem poll_interfaces_reconciles_witness:
  "\<exists>db db' deleted. item_bag (interfaces db) = {#sample_interface (Some 2) (Some ''Inside'') Up#} \<and>
     poll_interfaces sample_env [] db = Ok (db', deleted, []) \<and> item_bag (interfaces db') = {#} \<and>
     map status deleted = [status (sample_interface (Some 2) (Some ''Inside'') NotFound)]"
proof -
  let ?l = "sample_interface (Some 2) (Some ''Inside'') Up"
  have "next_index (interfaces InterfaceManagerDatabase_new) \<noteq> - 1" "item_bag (interfaces InterfaceManagerDatabase_new) = {#}"
    by (simp_all add: InterfaceManagerDatabase_new_def empty_table_def item_bag_def)
  with interface_store.put_law [OF db_new_ok, of ?l] obtain db where db: "db_ok db" "item_bag (interfaces db) = {#?l#}"
    by (auto simp: put_item_def)
  have "apart ([] :: interface_map)" by (simp add: apart_def ids_apart_def)
  from poll_interfaces_reconciles [OF db(1) this, of sample_env] db(2)
  obtain db' deleted where *: "poll_interfaces sample_env [] db = Ok (db', deleted, [])" "item_bag (interfaces db') = {#}"
      "image_mset (\<lambda>a. (item_id a, status a)) (mset deleted) = {#(item_id ?l, status (not_found_interface 0 ?l))#}"
    by auto
  from arg_cong [where f = "image_mset snd", OF *(3)]
  have "mset (map status deleted) = {#status (not_found_interface 0 ?l)#}"
    by (simp add: image_mset.compositionality comp_def)
  then have "map status deleted = [status (sample_interface (Some 2) (Some ''Inside'') NotFound)]"
    by (simp only: mset_single_iff) (simp add: not_found_interface_def sample_interface_def NetworkStatusItem_new_def)
  with *(1,2) db(2) show ?thesis
    by (intro exI [of _ db] exI [of _ db'] exI [of _ deleted] conjI)
qed

section \<open>Updates to subscribers\<close>

text \<open>
  What \<open>tokio\<close> documents of \<open>try_send\<close> on a bounded channel: it fails when the queue is full and else
  appends the message to that subscriber's queue; no other queue and no capacity changes. A
  closed channel has capacity zero.
\<close>

definition bounded_channel ::
  "('sub, 'ch) sender \<Rightarrow> ('ch \<Rightarrow> 'sub \<Rightarrow> NetworkStatusUpdate list) \<Rightarrow> ('ch \<Rightarrow> 'sub \<Rightarrow> nat) \<Rightarrow> bool" where
  "bounded_channel try_send queue capacity \<longleftrightarrow>
     (\<forall>s m ch sent ch'. try_send s m ch = (sent, ch') \<longrightarrow>
        sent = (length (queue ch s) < capacity ch s) \<and> capacity ch' = capacity ch \<and>
        queue ch' = (if sent then (queue ch)(s := queue ch s @ [m]) else queue ch))"

lemma send_all_bounded:
  assumes "bounded_channel try_send queue capacity"
  shows "send_all try_send s ms ch = (sent, ch') \<Longrightarrow> length (queue ch s) \<le> capacity ch s \<Longrightarrow>
    sent = (length (queue ch s) + length ms \<le> capacity ch s) \<and> capacity ch' = capacity ch \<and>
    queue ch' = (queue ch)(s := take (capacity ch s) (queue ch s @ ms))"
proof (induction ms arbitrary: ch)
  case Nil
  then show ?case by (auto simp: fun_eq_iff)
next
  case (Cons m ms)
  obtain now ch1 where 1: "try_send s m ch = (now, ch1)" by fastforce
  with assms have now: "now = (length (queue ch s) < capacity ch s)" "capacity ch1 = capacity ch"
      "queue ch1 = (if now then (queue ch)(s := queue ch s @ [m]) else queue ch)"
    unfolding bounded_channel_def by blast+
  show ?case
  proof (cases now)
    case True
    then have "send_all try_send s ms ch1 = (sent, ch')" using Cons.prems(1) by (simp add: 1)
    from Cons.IH [OF this] True now show ?thesis by (auto simp: fun_eq_iff)
  next
    case False
    with Cons.prems now show ?thesis by (auto simp: 1 fun_eq_iff)
  qed
qed

lemma retain_subscribers_bounded:
  assumes "bounded_channel try_send queue capacity"
  shows "retain_subscribers try_send ms subs ch = (kept, ch') \<Longrightarrow> distinct subs \<Longrightarrow>
    (\<And>s. length (queue ch s) \<le> capacity ch s) \<Longrightarrow>
    kept = filter (\<lambda>s. length (queue ch s) + length ms \<le> capacity ch s) subs \<and>
    (\<forall>s. queue ch' s = (if s \<in> set subs then take (capacity ch s) (queue ch s @ ms) else queue ch s))"
proof (induction subs arbitrary: ch kept)
  case (Cons s subs)
  obtain sent ch1 where 1: "send_all try_send s ms ch = (sent, ch1)" by fastforce
  obtain kept1 where 2: "retain_subscribers try_send ms subs ch1 = (kept1, ch')" "kept = (if sent then s # kept1 else kept1)"
    using Cons.prems(1) 1 by (auto simp: Let_def split: prod.splits)
  from send_all_bounded [OF assms 1 Cons.prems(3)] have
    s: "sent = (length (queue ch s) + length ms \<le> capacity ch s)" "capacity ch1 = capacity ch"
      "queue ch1 = (queue ch)(s := take (capacity ch s) (queue ch s @ ms))" by auto
  have room: "length (queue ch1 t) \<le> capacity ch1 t" for t
    using Cons.prems(3) [of t] by (auto simp: s min_def)
  have dist: "distinct subs" and fresh: "s \<notin> set subs" using Cons.prems(2) by auto
  from Cons.IH [OF 2(1) dist room] have
    IH: "kept1 = filter (\<lambda>t. length (queue ch1 t) + length ms \<le> capacity ch1 t) subs"
      "\<And>t. queue ch' t = (if t \<in> set subs then take (capacity ch1 t) (queue ch1 t @ ms) else queue ch1 t)" by auto
  have "kept1 = filter (\<lambda>t. length (queue ch t) + length ms \<le> capacity ch t) subs"
    unfolding IH(1) using fresh by (intro filter_cong) (auto simp: s)
  with IH(2) fresh show ?case by (auto simp: 2(2) s)
qed simp

text \<open>On bounded channels a notification keeps exactly the subscribers whose channel has room for all
  the updates, who get all of them in order; the others are dropped, with as many updates as
  still fitted, and no other subscriber's queue changes.\<close>

theorem subscribers_retained:
  assumes "bounded_channel try_send queue capacity" "distinct subs"
    and "\<And>s. length (queue ch s) \<le> capacity ch s"
    and "retain_subscribers try_send ms subs ch = (kept, ch')"
  shows "kept = filter (\<lambda>s. length (queue ch s) + length ms \<le> capacity ch s) subs \<and>
    (\<forall>s. queue ch' s = (if s \<in> set subs then take (capacity ch s) (queue ch s @ ms) else queue ch s))"
  by (rule retain_subscribers_bounded [OF assms(1,4,2,3)])

definition bounded_send :: "(nat, nat \<Rightarrow> nat \<times> NetworkStatusUpdate list) sender" where
  "bounded_send s m ch =
     (case ch s of (capacity, queue) \<Rightarrow>
        if length queue < capacity then (True, ch(s := (capacity, queue @ [m]))) else (False, ch))"

lemma bounded_send_channel: "bounded_channel bounded_send (\<lambda>ch s. snd (ch s)) (\<lambda>ch s. fst (ch s))"
  by (auto simp: bounded_channel_def bounded_send_def split: prod.splits if_splits intro!: ext)

definition sample_update :: NetworkStatusUpdate where
  "sample_update = LinkUpdate (status (sample_link None None (Some ''eth0'')))"

theorem subscribers_retained_witness:
  "fst (retain_subscribers bounded_send [sample_update, sample_update] [0, 1] (\<lambda>n. (n + 1, []))) = [1]"
proof -
  let ?c = "\<lambda>n :: nat. (n + 1, [] :: NetworkStatusUpdate list)"
  let ?r = "retain_subscribers bounded_send [sample_update, sample_update] [0, 1] ?c"
  have "fst ?r = filter (\<lambda>k. length (snd (?c k)) + length [sample_update, sample_update] \<le> fst (?c k)) [0, 1]"
    by (rule subscribers_retained [OF bounded_send_channel _ _ prod.collapse [symmetric], THEN conjunct1]) simp_all
  then show ?thesis by simp
qed

end
