(* ===== verification/Interface_Gather.thy ===== *)
theory Interface_Gather
  imports Interface_Poll
begin

text \<open>
  What the stages of a scan produce (\<open>try_poll\<close> in
  \<open>rusty-router-platform-linux/src/interface/mod.rs\<close>): every link and every interface of a run
  bears the names of its identifier, the addresses of every interface are in order, and the
  identifiers of the links of a run share no key when the configuration and the kernel's answer
  name each device once. With it, what a whole run leaves in the database.
\<close>

section \<open>Items that agree with their identifier\<close>

definition link_typed :: "link_item \<Rightarrow> bool" where
  "link_typed a \<longleftrightarrow> net_name (item_id a) = link_name (status a) \<and> net_device (item_id a) = Some (status_device (status a)) \<and>
     (net_id (item_id a) = None \<longleftrightarrow> operational_state (status a) = NotFound) \<and> operational_state (status a) \<noteq> Misconfigured"

definition interface_typed :: "interface_item \<Rightarrow> bool" where
  "interface_typed a \<longleftrightarrow> net_name (item_id a) = interface_name (status a) \<and>
     (case net_device (item_id a) of
        None \<Rightarrow> net_id (item_id a) = None \<and> status_device (network_link_status (status a)) = []
      | Some device \<Rightarrow> status_device (network_link_status (status a)) = device) \<and>
     (net_id (item_id a) \<noteq> None \<longrightarrow> operational_state (network_link_status (status a)) \<notin> {NotFound, Misconfigured}) \<and>
     sorted (status_addresses (status a))"

text \<open>A map of a run: each item is under its own identifier and satisfies the predicate.\<close>

definition entries :: "('a NetworkStatusItem \<Rightarrow> bool) \<Rightarrow> (CanonicalNetworkId, 'a NetworkStatusItem) hash_map \<Rightarrow> bool" where
  "entries P m \<longleftrightarrow> hm_wf m \<and> (\<forall>(i, x) \<in> set m. item_id x = i \<and> P x)"

lemma set_hm_insert: "set (hm_insert k v m) \<subseteq> insert (k, v) (set m)"
  by (induction m) auto

lemma entries_insert: "entries P m \<Longrightarrow> item_id x = i \<Longrightarrow> P x \<Longrightarrow> entries P (hm_insert i x m)"
  using set_hm_insert [of i x m] by (auto simp: entries_def)

lemma entries_Nil [simp]: "entries P []"
  by (simp add: entries_def)

lemma entries_remove: "entries P m \<Longrightarrow> entries P (hm_remove k m)"
  by (auto simp: entries_def set_hm_remove)

text \<open>A property of the state that every turn of a numbered loop keeps.\<close>

lemma fold_enumerate_keeps:
  assumes "I s" "\<And>n x s. x \<in> set xs \<Longrightarrow> I s \<Longrightarrow> I (body n x s)"
  shows "I (fold (\<lambda>(n, x). body n x) (enumerate k xs) s)"
  by (rule fold_invariant [where Q = "\<lambda>(n, x). x \<in> set xs"])
    (use assms in \<open>auto simp: in_set_enumerate_eq\<close>)

section \<open>The links of a run\<close>

text \<open>A report says up, down or unknown; the links that a run has found are not \<open>NotFound\<close>.\<close>

lemma reported_state:
  assumes "process_link_message p m = Some (index, s)"
  shows "operational_state s \<notin> {NotFound, Misconfigured}"
proof -
  have "operational_state s \<in> set (Unknown # nla_states xs)" if "operational_state s = last_or Unknown (nla_states xs)" for xs
    using that by (auto simp: last_or_def)
  moreover have "set (nla_states xs) \<subseteq> {Up, Down, Unknown}" for xs
    by (induction xs rule: nla_states.induct) (auto split: link_state.splits)
  moreover have "\<exists>xs. operational_state s = last_or Unknown (nla_states xs)"
    using assms by (auto simp: process_link_message_eq process_link_eq bind_eq_Some_conv split: if_splits)
  ultimately show ?thesis by fastforce
qed

lemmas reported_link_state = reported_state [where m = "InnerMessage (NewLink msg)" for msg, unfolded process_link_message.simps]

definition values_named :: "('k, link_item) hash_map \<Rightarrow> bool" where
  "values_named m \<longleftrightarrow> (\<forall>(k, x) \<in> set m. link_typed x \<and> operational_state (status x) \<noteq> NotFound)"

lemma values_named_insert: "values_named m \<Longrightarrow> link_typed x \<Longrightarrow> operational_state (status x) \<noteq> NotFound \<Longrightarrow> values_named (hm_insert k x m)"
  using set_hm_insert [of k x m] by (auto simp: values_named_def)

definition maps_named :: "link_maps \<Rightarrow> bool" where
  "maps_named s \<longleftrightarrow> values_named (mapped_devices s) \<and> values_named (mapped_links s) \<and> entries link_typed (polled_links s)"

lemma link_response_named: "maps_named s \<Longrightarrow> maps_named (link_response p now response s)"
  by (auto simp: link_response_def maps_named_def Let_def link_typed_def CanonicalNetworkId_new_def
      NetworkStatusItem_new_def dest: reported_state split: option.split intro!: values_named_insert entries_insert)

lemma collect_links_named: "maps_named (collect_links p clock config link_data)"
  unfolding collect_links_def
  by (rule fold_enumerate_keeps) (simp_all add: link_response_named, simp add: maps_named_def link_maps_new_def values_named_def)

definition both_named :: "link_map \<times> interface_map \<Rightarrow> bool" where
  "both_named = (\<lambda>(all_links, missing). entries link_typed all_links \<and> entries interface_typed missing)"

lemma unmapped_link_named: "both_named s \<Longrightarrow> both_named (unmapped_link link_interfaces now now' e s)"
  by (cases s; cases e)
    (auto simp: both_named_def unmapped_link_def Let_def link_typed_def interface_typed_def CanonicalNetworkId_new_def
      NetworkStatusItem_new_def split: option.split intro!: entries_insert)

lemma collect_unmapped_named:
  "entries link_typed all_links \<Longrightarrow> both_named (collect_unmapped env config unmapped all_links)"
  unfolding collect_unmapped_def
  by (rule fold_enumerate_keeps) (simp_all add: unmapped_link_named, simp add: both_named_def)

section \<open>The interfaces of a run\<close>

lemma configured_interface_named:
  assumes "values_named mapped" "entries interface_typed (snd s)"
  shows "entries interface_typed (snd (configured_interface config mapped now e s))"
proof -
  obtain name interface addresses all_interfaces where e: "e = (name, interface)" "s = (addresses, all_interfaces)"
    by (cases e; cases s)
  have "link_typed l \<and> operational_state (status l) \<noteq> NotFound" if "hm_get mapped k = Some l" for k l
    using assms(1) map_of_SomeD [OF that] by (auto simp: values_named_def)
  then show ?thesis
    using assms(2)
    by (auto simp: e configured_interface_def Let_def link_typed_def interface_typed_def CanonicalNetworkId_new_def
        NetworkStatusItem_new_def split: option.split prod.split intro!: entries_insert)
qed

lemma configured_interfaces_named:
  "values_named mapped \<Longrightarrow> entries interface_typed (snd (configured_interfaces env config mapped addresses))"
  unfolding configured_interfaces_def
  by (rule fold_enumerate_keeps) (simp_all add: configured_interface_named)

lemma device_interfaces_named:
  assumes "values_named devices" "entries interface_typed all_interfaces"
  shows "entries interface_typed (device_interfaces env devices addresses all_interfaces)"
  unfolding device_interfaces_def
proof (rule fold_enumerate_keeps)
  fix n and e :: "u64 \<times> IpAddress list" and s
  assume s: "entries interface_typed s"
  have "link_typed l \<and> operational_state (status l) \<noteq> NotFound" if "hm_get devices k = Some l" for k l
    using assms(1) map_of_SomeD [OF that] by (auto simp: values_named_def)
  then show "entries interface_typed (device_interface devices (address_clock env n) e s)"
    using s
    by (cases e)
      (auto simp: device_interface_def Let_def link_typed_def interface_typed_def CanonicalNetworkId_new_def
        NetworkStatusItem_new_def split: option.split intro!: entries_insert)
qed (rule assms(2))

lemma add_missing_named:
  assumes "entries P missing" "entries P all_interfaces"
  shows "entries P (add_missing f missing all_interfaces)"
  unfolding add_missing_def
  by (rule fold_invariant [where Q = "\<lambda>(i, x). item_id x = i \<and> P x"])
    (use assms in \<open>auto simp: entries_def [of P missing] intro!: entries_insert\<close>)

lemma gather_named:
  assumes "gather env config p link_data network_data = (all_links, all_interfaces)"
  shows "entries link_typed all_links \<and> entries interface_typed all_interfaces"
proof -
  let ?maps = "collect_links p (link_clock env) config link_data"
  have maps: "values_named (mapped_devices ?maps)" "values_named (mapped_links ?maps)" "entries link_typed (polled_links ?maps)"
    using collect_links_named [of p "link_clock env" config link_data] by (simp_all add: maps_named_def)
  have unmapped: "both_named (collect_unmapped env config (unmapped_links ?maps) (polled_links ?maps))"
    by (rule collect_unmapped_named) (rule maps(3))
  have "entries interface_typed (snd (configured_interfaces env config (mapped_links ?maps) (collect_addresses (families env) network_data)))"
    by (rule configured_interfaces_named) (rule maps(2))
  with assms maps(1) unmapped show ?thesis
    by (auto simp: gather_def Let_def both_named_def split: prod.splits
        intro!: add_missing_named device_interfaces_named)
qed

section \<open>Reconciliation keeps what holds of all items\<close>

context item_store
begin

lemma put_all_keeps:
  assumes "ok s" "put_all xs s = Ok s'" "bag s = {#}" "\<And>x. x \<in> set xs \<Longrightarrow> P x"
  shows "ok s' \<and> rest s' = rest s \<and> (\<forall>a \<in># bag s'. P a)"
proof -
  have "\<forall>a \<in># fold put_item xs M. P a" if "\<forall>a \<in># M. P a" "\<forall>x \<in> set xs. P x" for M
    using that
  proof (induction xs arbitrary: M)
    case (Cons x xs)
    show ?case unfolding fold.simps comp_apply
      by (rule Cons.IH) (use Cons.prems in \<open>simp_all add: put_item_def\<close>)
  qed simp
  from this [of "{#}"] assms put_all_Ok [OF assms(1,2)] show ?thesis by simp
qed

lemma reconcile_item_keeps:
  assumes "ok s" "\<forall>a \<in># bag s. P a" "\<forall>a \<in> set established. P a" "P fresh"
    and "reconcile_item delete_on (i, fresh) (s, notify, established) = (s', notify', established')"
  shows "ok s' \<and> rest s' = rest s \<and> (\<forall>a \<in># bag s'. P a) \<and> (\<forall>a \<in> set established'. P a)"
proof -
  obtain s1 d where d: "delete_on i s [] = (s1, d)" by fastforce
  from delete_law [OF assms(1) d] have law: "ok s1" "bag s1 = filter_mset (\<lambda>a. \<not> conflicts i (item_id a)) (bag s)"
      "mset d = filter_mset (\<lambda>a. conflicts i (item_id a)) (bag s)" by auto
  have "P x" if "find (\<lambda>item. item_id item = i) d = Some x" for x
  proof -
    have "x \<in> set d" using that by (auto simp: find_Some_iff)
    then have "x \<in># bag s" using law(3) by (metis filter_mset_eq_conv mset_subset_eqD set_mset_mset multiset_filter_subset)
    with assms(2) show ?thesis by blast
  qed
  with assms(2-5) law(1,2) delete_rest [OF d] show ?thesis
    by (auto simp: reconcile_item_def d split: option.splits if_splits)
qed

lemma reconcile_keeps:
  assumes "ok s" "\<forall>a \<in># bag s. P a" "\<forall>a \<in> set established. P a" "\<forall>(i, x) \<in> set polled. P x"
    and "fold (reconcile_item delete_on) polled (s, notify, established) = (s', notify', established')"
  shows "ok s' \<and> rest s' = rest s \<and> (\<forall>a \<in> set established'. P a)"
  using assms
proof (induction polled arbitrary: s notify established)
  case (Cons p polled)
  obtain i fresh where p: "p = (i, fresh)" by (cases p)
  obtain s1 n1 e1 where 1: "reconcile_item delete_on (i, fresh) (s, notify, established) = (s1, n1, e1)"
    by (metis prod_cases3)
  have "P fresh" using Cons.prems(4) by (simp add: p)
  from reconcile_item_keeps [where P = P, OF Cons.prems(1-3) this 1] Cons.IH [of s1 e1 n1] Cons.prems(4,5) 1
  show ?case by (simp add: p)
qed simp

lemma reconcile_store_keeps:
  assumes "ok s" "\<forall>a \<in># bag s. P a" "\<forall>(i, x) \<in> set polled. P x"
    and "fold (reconcile_item delete_on) polled (s, [], []) = (s1, notify, est)"
    and "take_all f s1 = (taken, s2)" "put_all est s2 = Ok s3"
  shows "ok s3 \<and> rest s3 = rest s \<and> (\<forall>a \<in># bag s3. P a)"
proof -
  from reconcile_keeps [where P = P, OF assms(1,2) _ assms(3,4)]
  have 1: "ok s1" "rest s1 = rest s" "\<forall>a \<in> set est. P a" by simp_all
  with take_law [OF 1(1) assms(5)] take_rest [OF assms(5)] put_all_keeps [OF _ assms(6), of P] show ?thesis
    by simp
qed

end

text \<open>What holds of every stored link and of every stored interface.\<close>

definition items_all :: "(link_item \<Rightarrow> bool) \<Rightarrow> (interface_item \<Rightarrow> bool) \<Rightarrow> InterfaceManagerDatabase \<Rightarrow> bool" where
  "items_all P Q db \<longleftrightarrow> (\<forall>a \<in># item_bag (links db). P a) \<and> (\<forall>a \<in># item_bag (interfaces db). Q a)"

definition database_typed :: "InterfaceManagerDatabase \<Rightarrow> bool" where
  "database_typed db \<longleftrightarrow> (\<forall>a \<in># item_bag (links db). link_typed a) \<and> (\<forall>a \<in># item_bag (interfaces db). interface_typed a)"

lemma poll_links_keeps:
  assumes "db_ok db" "\<forall>a \<in># item_bag (links db). P a" "\<forall>(i, x) \<in> set polled. P x"
    and "poll_links env polled db = Ok (db', deleted, notify)"
  shows "db_ok db' \<and> interfaces db' = interfaces db \<and> (\<forall>a \<in># item_bag (links db'). P a)"
proof -
  obtain db1 n1 est where 1: "fold (reconcile_item remove_link_status_item) (iter_order (links_order env) polled) (db, [], []) = (db1, n1, est)"
    by (metis prod_cases3)
  obtain taken db2 where 2: "take_link_status_items (taken_links_order env) db1 = (taken, db2)" by fastforce
  have "link_store.put_all est db2 = Ok db'"
    using assms(4) by (auto simp: poll_links_def 1 2 link_store.put_all_def obind_eq_Ok)
  from link_store.reconcile_store_keeps [where P = P, OF assms(1,2) _ 1 2 this] assms(3) show ?thesis by simp
qed

lemma poll_interfaces_keeps:
  assumes "db_ok db" "\<forall>a \<in># item_bag (interfaces db). P a" "\<forall>(i, x) \<in> set polled. P x"
    and "poll_interfaces env polled db = Ok (db', deleted, notify)"
  shows "db_ok db' \<and> links db' = links db \<and> (\<forall>a \<in># item_bag (interfaces db'). P a)"
proof -
  obtain db1 n1 est where 1: "fold (reconcile_item remove_interface_status_item) (iter_order (interfaces_order env) polled) (db, [], []) = (db1, n1, est)"
    by (metis prod_cases3)
  obtain taken db2 where 2: "take_interface_status_items (taken_interfaces_order env) db1 = (taken, db2)" by fastforce
  have "interface_store.put_all est db2 = Ok db'"
    using assms(4) by (auto simp: poll_interfaces_def 1 2 interface_store.put_all_def obind_eq_Ok)
  from interface_store.reconcile_store_keeps [where P = P, OF assms(1,2) _ 1 2 this] assms(3) show ?thesis by simp
qed

lemma database_named_items: "database_typed = items_all link_typed interface_typed"
  by (simp add: fun_eq_iff database_typed_def items_all_def)

text \<open>What holds of all items before a run and of those that it makes holds of all afterwards.\<close>

lemma poll_all:
  assumes "db_ok (database st)" "items_all P Q (database st)"
    and "\<And>link_data network_data all_links all_interfaces.
      gather env config p link_data network_data = (all_links, all_interfaces) \<Longrightarrow>
      (\<forall>(i, x) \<in> set all_links. P x) \<and> (\<forall>(i, x) \<in> set all_interfaces. Q x)"
    and "poll env config p try_send link_reply address_reply st = Ok st'"
  shows "db_ok (database st') \<and> items_all P Q (database st')"
proof (cases "try_poll env config p try_send link_reply address_reply st")
  case (Ok st'')
  with assms(4) have run: "try_poll env config p try_send link_reply address_reply st = Ok st'" by (simp add: poll_def)
  from run obtain link_data network_data where replies: "link_reply = Ok link_data" "address_reply = Ok network_data"
    by (auto simp: try_poll_def obind_eq_Ok)
  obtain all_links all_interfaces where
    g: "gather env config p link_data network_data = (all_links, all_interfaces)" by fastforce
  from run obtain db1 d1 n1 db2 d2 n2 where
    r: "poll_links env all_links (database st) = Ok (db1, d1, n1)"
      "poll_interfaces env all_interfaces db1 = Ok (db2, d2, n2)" "database st' = db2"
    by (auto simp: try_poll_def obind_eq_Ok replies g split_def Let_def)
  from poll_links_keeps [where P = P, OF assms(1) _ _ r(1)] assms(2) assms(3) [OF g]
  have 1: "db_ok db1" "interfaces db1 = interfaces (database st)" "\<forall>a \<in># item_bag (links db1). P a"
    by (simp_all add: items_all_def)
  from poll_interfaces_keeps [where P = Q, OF 1(1) _ _ r(2)] assms(2) assms(3) [OF g] 1 show ?thesis
    by (simp add: items_all_def r(3))
qed (use assms in \<open>simp_all add: poll_def\<close>)

lemma poll_keeps:
  assumes "db_ok (database st)" "database_typed (database st)"
    and "poll env config p try_send link_reply address_reply st = Ok st'"
  shows "db_ok (database st') \<and> database_typed (database st')"
  unfolding database_named_items
proof (rule poll_all [OF assms(1) _ _ assms(3)])
  show "(\<forall>(i, x) \<in> set all_links. link_typed x) \<and> (\<forall>(i, x) \<in> set all_interfaces. interface_typed x)"
    if "gather env config p link_data network_data = (all_links, all_interfaces)"
    for link_data network_data all_links all_interfaces
    using gather_named [OF that] by (auto simp: entries_def)
qed (use assms(2) in \<open>simp add: database_named_items\<close>)

section \<open>Which links a run sees\<close>

text \<open>What the kernel's answer reports, and the identifiers that a run must end with: one for each
  report and one for each configured link whose name no report bears.\<close>

definition reports :: "NetlinkMessageProcessor \<Rightarrow> NetlinkMessage list \<Rightarrow> (u64 \<times> NetworkLinkStatus) list" where
  "reports p link_data = List.map_filter (\<lambda>m. process_link_message p (payload m)) link_data"

definition report_entry :: "u64 \<times> NetworkLinkStatus \<Rightarrow> CanonicalNetworkId \<times> NetworkLinkStatus" where
  "report_entry = (\<lambda>(index, s). (CanonicalNetworkId_new (Some index) (link_name s) (Some (status_device s)), s))"

definition missing_entry :: "string \<times> string \<Rightarrow> CanonicalNetworkId \<times> NetworkLinkStatus" where
  "missing_entry = (\<lambda>(name, device). (CanonicalNetworkId_new None (Some name) (Some device),
     \<lparr>link_name = Some name, status_device = device, operational_state = NotFound\<rparr>))"

definition unreported :: "Router \<Rightarrow> (u64 \<times> NetworkLinkStatus) list \<Rightarrow> (string \<times> string) set" where
  "unreported config rs =
     {(n, link_device l) | n l. (n, l) \<in> set (network_links config) \<and> (\<forall>(i, s) \<in> set rs. link_name s \<noteq> Some n)}"

definition expected :: "Router \<Rightarrow> (u64 \<times> NetworkLinkStatus) list \<Rightarrow> (CanonicalNetworkId \<times> NetworkLinkStatus) set" where
  "expected config rs = report_entry ` set rs \<union> missing_entry ` unreported config rs"

definition item_entry :: "CanonicalNetworkId \<times> 'a NetworkStatusItem \<Rightarrow> CanonicalNetworkId \<times> 'a" where
  "item_entry = (\<lambda>(i, x). (i, status x))"

text \<open>The entries of a map are among those expected, and no identifier is left out.\<close>

definition covers :: "(CanonicalNetworkId \<times> 'a) set \<Rightarrow> (CanonicalNetworkId, 'a NetworkStatusItem) hash_map \<Rightarrow> bool" where
  "covers E m \<longleftrightarrow> item_entry ` set m \<subseteq> E \<and> fst ` set m = fst ` E"

lemma covers_insert:
  assumes "covers E m" "status x = s"
  shows "covers (insert (i, s) E) (hm_insert i x m)"
proof -
  have "item_entry ` set (hm_insert i x m) \<subseteq> insert (i, s) (item_entry ` set m)"
    using set_hm_insert [of i x m] assms(2) by (auto simp: item_entry_def)
  then show ?thesis using assms(1) by (auto simp: covers_def AList.dom_update)
qed

definition seen :: "Router \<Rightarrow> (u64 \<times> NetworkLinkStatus) list \<Rightarrow> link_maps \<Rightarrow> bool" where
  "seen config rs s \<longleftrightarrow> covers (report_entry ` set rs) (polled_links s) \<and>
     hm_wf (unmapped_links s) \<and> set (unmapped_links s) = unreported config rs"

lemma unreported_snoc:
  "unreported config (rs @ [(i, s)]) =
     (case link_name s of None \<Rightarrow> unreported config rs | Some n \<Rightarrow> {e \<in> unreported config rs. fst e \<noteq> n})"
  by (auto simp: unreported_def split: option.split)

lemma link_response_seen:
  assumes "seen config rs s"
  shows "seen config (rs @ reports p [response]) (link_response p now response s)"
proof (cases "process_link_message p (payload response)")
  case None
  with assms show ?thesis by (simp add: link_response_def reports_def List.map_filter_simps)
next
  case (Some r)
  obtain index st where r: "r = (index, st)" by (cases r)
  have rs: "rs @ reports p [response] = rs @ [(index, st)]"
    by (simp add: reports_def List.map_filter_simps Some r)
  have img: "report_entry ` set (rs @ [(index, st)]) =
      insert (CanonicalNetworkId_new (Some index) (link_name st) (Some (status_device st)), st) (report_entry ` set rs)"
    by (simp add: report_entry_def)
  show ?thesis
    unfolding rs seen_def img
  proof (intro conjI)
    show "covers (insert (CanonicalNetworkId_new (Some index) (link_name st) (Some (status_device st)), st) (report_entry ` set rs))
       (polled_links (link_response p now response s))"
      using assms by (simp add: link_response_def Some r Let_def seen_def covers_insert NetworkStatusItem_new_def split: option.split)
    show "hm_wf (unmapped_links (link_response p now response s))"
      using assms by (simp add: link_response_def Some r Let_def seen_def split: option.split)
    show "set (unmapped_links (link_response p now response s)) = unreported config (rs @ [(index, st)])"
      using assms
      by (simp add: link_response_def Some r Let_def seen_def unreported_snoc set_hm_remove NetworkStatusItem_new_def
          split: option.split)
  qed
qed

lemma reports_Cons: "reports p (x # xs) = reports p [x] @ reports p xs"
  by (simp add: reports_def List.map_filter_simps split: option.split)

lemma collect_links_seen:
  assumes "config_ok config"
  shows "seen config (reports p link_data) (collect_links p clock config link_data)"
proof -
  have new: "seen config [] (link_maps_new config)"
  proof -
    let ?kvs = "map (\<lambda>(name, link). (name, link_device link)) (network_links config)"
    have wf: "distinct (map fst (rev ?kvs))"
      using assms by (simp add: config_ok_def comp_def split_def flip: rev_map)
    have "(n, d) \<in> set (hm_collect ?kvs) \<longleftrightarrow> (n, d) \<in> unreported config []" for n d
      unfolding hm_get_iff [OF hm_wf_collect, symmetric] hm_get_collect hm_get_iff [OF wf]
      by (auto simp: unreported_def)
    then have "set (unmapped_links (link_maps_new config)) = unreported config []"
      by (auto simp: link_maps_new_def)
    then show ?thesis by (simp add: seen_def link_maps_new_def covers_def)
  qed
  have "seen config (rs @ reports p xs) (fold (\<lambda>(n, response). link_response p (clock n) response) (enumerate k xs) s)"
    if "seen config rs s" for rs s k xs
    using that
  proof (induction xs arbitrary: rs s k)
    case (Cons x xs)
    from Cons.IH [OF link_response_seen [OF Cons.prems, of p x "clock k"], of "Suc k"]
    show ?case by (simp add: reports_Cons [of p x xs])
  qed (simp add: reports_def List.map_filter_simps)
  from this [OF new, of link_data 0] show ?thesis by (simp add: collect_links_def)
qed

lemma covers_fold_missing:
  assumes "covers E (fst s)"
  shows "covers (E \<union> missing_entry ` set xs)
    (fst (fold (\<lambda>(n, e). unmapped_link link_interfaces (clock n) (clock' n) e) (enumerate k xs) s))"
  using assms
proof (induction xs arbitrary: E s k)
  case (Cons x xs)
  obtain all_links missing name device where e: "s = (all_links, missing)" "x = (name, device)"
    by (cases s; cases x)
  have "covers (insert (missing_entry x) E) (fst (unmapped_link link_interfaces (clock k) (clock' k) x s))"
    using Cons.prems
    by (simp add: e unmapped_link_def Let_def missing_entry_def covers_insert NetworkStatusItem_new_def split: option.split)
  from Cons.IH [OF this, of "Suc k"] show ?case by (simp add: insert_commute)
qed simp

lemma gather_links:
  assumes "config_ok config" "gather env config p link_data network_data = (all_links, all_interfaces)"
  shows "covers (expected config (reports p link_data)) all_links"
proof -
  let ?maps = "collect_links p (link_clock env) config link_data"
  have seen: "seen config (reports p link_data) ?maps" by (rule collect_links_seen [OF assms(1)])
  have "all_links = fst (collect_unmapped env config (unmapped_links ?maps) (polled_links ?maps))"
    using assms(2) by (auto simp: gather_def Let_def split: prod.splits)
  moreover have "covers (report_entry ` set (reports p link_data) \<union> missing_entry ` set (iter_order (unmapped_order env) (unmapped_links ?maps)))
      (fst (collect_unmapped env config (unmapped_links ?maps) (polled_links ?maps)))"
    unfolding collect_unmapped_def
    by (rule covers_fold_missing) (use seen in \<open>simp add: seen_def\<close>)
  moreover have "set (unmapped_links ?maps) = unreported config (reports p link_data)"
    using seen by (simp add: seen_def)
  ultimately show ?thesis by (simp add: expected_def)
qed

text \<open>Each device is configured for one link, and the kernel reports each index and each device once.\<close>

definition devices_distinct :: "Router \<Rightarrow> bool" where
  "devices_distinct config \<longleftrightarrow> distinct (map (\<lambda>(n, l). link_device l) (network_links config))"

definition reports_distinct :: "(u64 \<times> NetworkLinkStatus) list \<Rightarrow> bool" where
  "reports_distinct rs \<longleftrightarrow> distinct (map fst rs) \<and> distinct (map (\<lambda>(i, s). status_device s) rs)"

lemma report_name:
  assumes "(i, s) \<in> set (reports p link_data)"
  shows "link_name s = hm_get (device_links p) (status_device s)"
  using assms
  by (auto simp: reports_def List.map_filter_def process_link_message_eq process_link_eq bind_eq_Some_conv split: if_splits)

lemma distinct_map_eq: "distinct (map f xs) \<Longrightarrow> x \<in> set xs \<Longrightarrow> y \<in> set xs \<Longrightarrow> f x = f y \<Longrightarrow> x = y"
  by (auto simp: distinct_map inj_on_def)

text \<open>Reports and configured links are matched by the device.\<close>

lemma report_same:
  assumes "reports_distinct rs" "(i, s) \<in> set rs" "(j, t) \<in> set rs" "i = j \<or> status_device s = status_device t"
  shows "i = j \<and> s = t"
  using assms distinct_map_eq [of fst rs "(i, s)" "(j, t)"]
    distinct_map_eq [of "\<lambda>(i, s). status_device s" rs "(i, s)" "(j, t)"] by (auto simp: reports_distinct_def)

lemma config_link_same:
  assumes "config_ok config" "(n, l) \<in> set (network_links config)" "(n, l') \<in> set (network_links config)"
  shows "l = l'"
  using assms by (auto simp: config_ok_def dest: eq_key_imp_eq_value)

lemma config_device_same:
  assumes "devices_distinct config" "(n, l) \<in> set (network_links config)" "(n', l') \<in> set (network_links config)"
    and "link_device l = link_device l'"
  shows "n = n' \<and> l = l'"
  using assms distinct_map_eq [of "\<lambda>(n, l). link_device l" "network_links config" "(n, l)" "(n', l')"]
  by (auto simp: devices_distinct_def)

lemma report_configured:
  assumes "config_ok config" "(i, s) \<in> set (reports (NetlinkMessageProcessor_new f config) link_data)" "link_name s = Some n"
  shows "\<exists>l. (n, l) \<in> set (network_links config) \<and> link_device l = status_device s"
  using assms report_name device_links_sound [OF assms(1)] map_of_SomeD by metis

lemma configured_reported:
  assumes "config_ok config" "devices_distinct config"
    and "(i, s) \<in> set (reports (NetlinkMessageProcessor_new f config) link_data)"
    and "(n, l) \<in> set (network_links config)" "link_device l = status_device s"
  shows "link_name s = Some n"
proof -
  have "hm_get (network_links config) n = Some l" using assms(1,4) by (simp add: config_ok_def)
  from device_links_complete [OF this, of f] obtain n' where
    "hm_get (device_links (NetlinkMessageProcessor_new f config)) (link_device l) = Some n'" by blast
  with assms(3,5) report_name have n': "link_name s = Some n'" by metis
  from report_configured [OF assms(1,3) this] obtain l' where
    "(n', l') \<in> set (network_links config)" "link_device l' = status_device s" by blast
  with config_device_same [OF assms(2,4), of n' l'] assms(5) n' show ?thesis by simp
qed

lemma expected_apart:
  assumes config: "config_ok config" "devices_distinct config"
    and rs: "rs = reports (NetlinkMessageProcessor_new f config) link_data" "reports_distinct rs"
  shows "ids_apart (fst ` expected config rs)"
proof -
  note rid = report_same [OF rs(2)] and named = report_configured [OF config(1), of _ _ f link_data, folded rs(1)]
    and one_name = config_link_same [OF config(1)] and one_device = config_device_same [OF config(2)]
    and reported = configured_reported [OF config, of _ _ f link_data, folded rs(1)]
  have rr: "i = j" if "(i, s) \<in> report_entry ` set rs" "(j, t) \<in> report_entry ` set rs" "conflicts i j" for i j s t
  proof -
    from that(1,2) obtain a b where e: "(a, s) \<in> set rs" "(b, t) \<in> set rs"
        "i = CanonicalNetworkId_new (Some a) (link_name s) (Some (status_device s))"
        "j = CanonicalNetworkId_new (Some b) (link_name t) (Some (status_device t))"
      by (auto simp: report_entry_def)
    have "a = b \<or> status_device s = status_device t"
    proof (cases "same_key (link_name s) (link_name t)")
      case True
      then obtain n where "link_name s = Some n" "link_name t = Some n" by (metis same_key_def not_None_eq)
      with named [OF e(1)] named [OF e(2)] one_name show ?thesis by metis
    next
      case False
      with that(3) show ?thesis by (auto simp: e(3,4) conflicts_def same_key_def CanonicalNetworkId_new_def)
    qed
    with rid [OF e(1,2)] show ?thesis by (simp add: e(3,4))
  qed
  have rm: "\<not> conflicts i j \<and> \<not> conflicts j i"
    if "(i, s) \<in> report_entry ` set rs" "(j, t) \<in> missing_entry ` unreported config rs" for i j s t
  proof -
    from that obtain a n l where e: "(a, s) \<in> set rs" "(n, l) \<in> set (network_links config)" "\<forall>(i, s) \<in> set rs. link_name s \<noteq> Some n"
        "i = CanonicalNetworkId_new (Some a) (link_name s) (Some (status_device s))"
        "j = CanonicalNetworkId_new None (Some n) (Some (link_device l))"
      by (auto simp: report_entry_def missing_entry_def unreported_def)
    with reported [OF e(1,2)] show ?thesis
      by (auto simp: conflicts_def same_key_def CanonicalNetworkId_new_def)
  qed
  have mm: "i = j" if "(i, s) \<in> missing_entry ` unreported config rs" "(j, t) \<in> missing_entry ` unreported config rs"
      "conflicts i j" for i j s t
    using that one_name one_device
    by (auto simp: missing_entry_def unreported_def conflicts_def same_key_def CanonicalNetworkId_new_def) metis+
  have self: "conflicts i i" if "(i, s) \<in> expected config rs" for i s
    using that
    by (auto simp: expected_def report_entry_def missing_entry_def conflicts_def same_key_def CanonicalNetworkId_new_def)
  have "i = j" if "(i, s) \<in> expected config rs" "(j, t) \<in> expected config rs" "conflicts i j" for i j s t
    using that rr rm mm unfolding expected_def by blast
  then show ?thesis using self unfolding ids_apart_def by fastforce
qed

lemma gather_apart:
  assumes "config_ok config" "devices_distinct config"
    and "reports_distinct (reports (NetlinkMessageProcessor_new f config) link_data)"
    and "gather env config (NetlinkMessageProcessor_new f config) link_data network_data = (all_links, all_interfaces)"
  shows "apart all_links"
proof -
  have "ids_apart (fst ` set all_links)"
    using gather_links [OF assms(1,4)] expected_apart [OF assms(1,2) refl assms(3)] by (simp add: covers_def)
  with gather_named [OF assms(4)] show ?thesis by (auto simp: apart_def entries_def)
qed

section \<open>A run returns\<close>

lemma length_reconcile:
  "fold (reconcile_item delete_on) polled (s, notify, established) = (s', notify', established') \<Longrightarrow>
   length established' = length established + length polled"
proof (induction polled arbitrary: s notify established)
  case (Cons p polled)
  obtain s1 n1 e1 where 1: "reconcile_item delete_on p (s, notify, established) = (s1, n1, e1)" by (metis prod_cases3)
  then have "length e1 = Suc (length established)"
    by (cases p) (auto simp: reconcile_item_def Let_def split: prod.splits option.splits if_splits)
  with Cons.IH [of s1 n1 e1] Cons.prems 1 show ?case by simp
qed simp

context item_store
begin

lemma reconcile_returns:
  assumes "ok s" "length polled < 2 ^ 64" "fold (reconcile_item delete_on) polled (s, [], []) = (s1, notify, est)"
    and "take_all f s1 = (taken, s2)"
  shows "\<exists>s3. put_all est s2 = Ok s3"
proof -
  have "ok s1" using reconcile_keeps [where P = "\<lambda>_. True", OF assms(1) _ _ _ assms(3)] by auto
  from take_law [OF this assms(4)] length_reconcile [OF assms(3)] assms(2) show ?thesis
    by (intro put_all_returns) simp_all
qed

end

lemma poll_links_returns:
  assumes "db_ok db" "length polled < 2 ^ 64"
  shows "\<exists>db' deleted notify. poll_links env polled db = Ok (db', deleted, notify)"
proof -
  obtain db1 n1 est where 1: "fold (reconcile_item remove_link_status_item) (iter_order (links_order env) polled) (db, [], []) = (db1, n1, est)"
    by (metis prod_cases3)
  obtain taken db2 where 2: "take_link_status_items (taken_links_order env) db1 = (taken, db2)" by fastforce
  from link_store.reconcile_returns [OF assms(1) _ 1 2] assms(2) show ?thesis
    by (auto simp: poll_links_def 1 2 link_store.put_all_def)
qed

lemma poll_interfaces_returns:
  assumes "db_ok db" "length polled < 2 ^ 64"
  shows "\<exists>db' deleted notify. poll_interfaces env polled db = Ok (db', deleted, notify)"
proof -
  obtain db1 n1 est where 1: "fold (reconcile_item remove_interface_status_item) (iter_order (interfaces_order env) polled) (db, [], []) = (db1, n1, est)"
    by (metis prod_cases3)
  obtain taken db2 where 2: "take_interface_status_items (taken_interfaces_order env) db1 = (taken, db2)" by fastforce
  from interface_store.reconcile_returns [OF assms(1) _ 1 2] assms(2) show ?thesis
    by (auto simp: poll_interfaces_def 1 2 interface_store.put_all_def)
qed

lemma length_hm_insert: "length (hm_insert k v m) \<le> Suc (length m)"
  by (induction m) auto

text \<open>A loop that enters at most one entry in each turn.\<close>

lemma length_fold_enumerate:
  assumes "\<And>n x s. size_of (body n x s) \<le> Suc (size_of s)"
  shows "size_of (fold (\<lambda>(n, x). body n x) (enumerate k xs) s) \<le> size_of s + length xs"
proof (induction xs arbitrary: k s)
  case (Cons x xs)
  from Cons.IH [of "Suc k" "body k x s"] assms [of k x s] show ?case by simp
qed simp

lemma length_link_response:
  "length (polled_links (link_response p now response s)) \<le> Suc (length (polled_links s))"
  "length (unmapped_links (link_response p now response s)) \<le> length (unmapped_links s)"
  by (auto simp: link_response_def Let_def length_hm_insert AList.length_delete_le split: option.split intro: le_SucI)

lemma length_hm_collect: "length (hm_collect kvs) \<le> length kvs"
proof -
  have "length (fold (\<lambda>(k, v) m. hm_insert k v m) kvs m) \<le> length m + length kvs" for m
  proof (induction kvs arbitrary: m)
    case (Cons kv kvs)
    obtain k v where kv: "kv = (k, v)" by (cases kv)
    from Cons.IH [of "hm_insert k v m"] length_hm_insert [of k v m] show ?case by (simp add: kv)
  qed simp
  from this [of "[]"] show ?thesis by (simp add: hm_collect_def)
qed

lemma length_collect_links:
  "length (polled_links (collect_links p clock config link_data)) \<le> length link_data"
  "length (unmapped_links (collect_links p clock config link_data)) \<le> length (network_links config)"
proof -
  show "length (polled_links (collect_links p clock config link_data)) \<le> length link_data"
    unfolding collect_links_def
    by (rule order_trans [OF length_fold_enumerate [where size_of = "\<lambda>s. length (polled_links s)"]])
      (simp_all add: length_link_response link_maps_new_def)
  show "length (unmapped_links (collect_links p clock config link_data)) \<le> length (network_links config)"
    unfolding collect_links_def
    by (rule fold_enumerate_keeps)
      (use length_hm_collect [of "map (\<lambda>(name, link). (name, link_device link)) (network_links config)"] in
        \<open>auto simp: link_maps_new_def intro: order_trans [OF length_link_response(2)]\<close>)
qed

lemma length_collect_unmapped:
  "length (fst (collect_unmapped env config unmapped all_links)) \<le> length all_links + length unmapped"
  "length (snd (collect_unmapped env config unmapped all_links)) \<le> length unmapped"
proof -
  have step: "length (fst (unmapped_link li now now' e s)) \<le> Suc (length (fst s))"
      "length (snd (unmapped_link li now now' e s)) \<le> Suc (length (snd s))" for li now now' e s
    by (cases s; cases e; auto simp: unmapped_link_def Let_def length_hm_insert split: option.split)+
  show "length (fst (collect_unmapped env config unmapped all_links)) \<le> length all_links + length unmapped"
    unfolding collect_unmapped_def
    by (rule order_trans [OF length_fold_enumerate [where size_of = "\<lambda>s. length (fst s)"]]) (simp_all add: step)
  show "length (snd (collect_unmapped env config unmapped all_links)) \<le> length unmapped"
    unfolding collect_unmapped_def
    by (rule order_trans [OF length_fold_enumerate [where size_of = "\<lambda>s. length (snd s)"]]) (simp_all add: step)
qed

lemma length_collect_addresses: "length (collect_addresses af network_data) \<le> length network_data"
proof -
  have "length (fold (address_response af) xs m) \<le> length m + length xs" for m xs
  proof (induction xs arbitrary: m)
    case (Cons x xs)
    have "length (address_response af x m) \<le> Suc (length m)"
      by (auto simp: address_response_def length_hm_insert split: option.split)
    with Cons.IH [of "address_response af x m"] show ?case by simp
  qed simp
  from this [of network_data "[]"] show ?thesis by (simp add: collect_addresses_def)
qed

lemma length_configured_interfaces:
  "length (fst (configured_interfaces env config mapped addresses)) \<le> length addresses"
  "length (snd (configured_interfaces env config mapped addresses)) \<le> length (network_interfaces config)"
proof -
  have step: "length (fst (configured_interface config mapped now e s)) \<le> length (fst s)"
      "length (snd (configured_interface config mapped now e s)) \<le> Suc (length (snd s))" for now e s
    by (cases s; cases e; auto simp: configured_interface_def Let_def length_hm_insert AList.length_delete_le
        split: option.split prod.split)+
  show "length (fst (configured_interfaces env config mapped addresses)) \<le> length addresses"
    unfolding configured_interfaces_def
    by (rule fold_enumerate_keeps) (auto intro: order_trans [OF step(1)])
  show "length (snd (configured_interfaces env config mapped addresses)) \<le> length (network_interfaces config)"
    unfolding configured_interfaces_def
    by (rule order_trans [OF length_fold_enumerate [where size_of = "\<lambda>s. length (snd s)"]]) (simp_all add: step)
qed

lemma length_device_interfaces:
  "length (device_interfaces env devices addresses all_interfaces) \<le> length all_interfaces + length addresses"
proof -
  have step: "length (device_interface devices now e s) \<le> Suc (length s)" for now e s
    by (cases e) (auto simp: device_interface_def Let_def length_hm_insert split: option.split)
  show ?thesis
    unfolding device_interfaces_def
    by (rule order_trans [OF length_fold_enumerate [where size_of = length]]) (simp_all add: step)
qed

lemma length_add_missing: "length (add_missing f missing all_interfaces) \<le> length all_interfaces + length missing"
proof -
  have "length (fold (\<lambda>(i, item). hm_insert i item) xs m) \<le> length m + length xs" for m :: interface_map and xs
  proof (induction xs arbitrary: m)
    case (Cons x xs)
    obtain i item where x: "x = (i, item)" by (cases x)
    from Cons.IH [of "hm_insert i item m"] length_hm_insert [of i item m] show ?case by (simp add: x)
  qed simp
  from this [of "iter_order f missing" all_interfaces] show ?thesis by (simp add: add_missing_def)
qed

lemma length_gather:
  assumes "gather env config p link_data network_data = (all_links, all_interfaces)"
  shows "length all_links \<le> length link_data + length (network_links config)"
    and "length all_interfaces \<le> length (network_interfaces config) + length network_data + length (network_links config)"
proof -
  let ?maps = "collect_links p (link_clock env) config link_data"
  let ?un = "collect_unmapped env config (unmapped_links ?maps) (polled_links ?maps)"
  let ?ad = "collect_addresses (families env) network_data"
  let ?co = "configured_interfaces env config (mapped_links ?maps) ?ad"
  let ?de = "device_interfaces env (mapped_devices ?maps) (fst ?co) (snd ?co)"
  have eqs: "all_links = fst ?un" "all_interfaces = add_missing (missing_order env) (snd ?un) ?de"
    using assms by (auto simp: gather_def Let_def split: prod.splits)
  note bounds = length_collect_links [of p "link_clock env" config link_data]
    length_collect_unmapped [of env config "unmapped_links ?maps" "polled_links ?maps"]
    length_configured_interfaces [of env config "mapped_links ?maps" ?ad]
    length_collect_addresses [of "families env" network_data]
    length_device_interfaces [of env "mapped_devices ?maps" "fst ?co" "snd ?co"]
    length_add_missing [of "missing_order env" "snd ?un" ?de]
  show "length all_links \<le> length link_data + length (network_links config)"
    unfolding eqs(1) using bounds(1-3) by linarith
  show "length all_interfaces \<le> length (network_interfaces config) + length network_data + length (network_links config)"
    unfolding eqs(2) using bounds by linarith
qed

section \<open>The outcome of a run\<close>

text \<open>The times at which the run made its links.\<close>

definition scan_times :: "poll_env \<Rightarrow> instant set" where
  "scan_times env = range (link_clock env) \<union> range (unmapped_clock env)"

definition made_at :: "instant set \<Rightarrow> ('k, 'a NetworkStatusItem) hash_map \<Rightarrow> bool" where
  "made_at T m \<longleftrightarrow> (\<forall>(k, x) \<in> set m. refreshed x \<in> T)"

lemma made_at_insert: "made_at T m \<Longrightarrow> refreshed x \<in> T \<Longrightarrow> made_at T (hm_insert k x m)"
  using set_hm_insert [of k x m] by (auto simp: made_at_def)

lemma scan_times [simp]: "link_clock env n \<in> scan_times env" "unmapped_clock env n \<in> scan_times env"
  by (simp_all add: scan_times_def)

lemma gather_times:
  assumes "gather env config p link_data network_data = (all_links, all_interfaces)"
  shows "made_at (scan_times env) all_links"
proof -
  let ?maps = "collect_links p (link_clock env) config link_data"
  have polled: "made_at (scan_times env) (polled_links ?maps)"
    unfolding collect_links_def
    by (rule fold_enumerate_keeps)
      (auto simp: link_response_def Let_def NetworkStatusItem_new_def link_maps_new_def made_at_def [of _ "[]"]
        split: option.split intro!: made_at_insert)
  have "made_at (scan_times env) (fst (collect_unmapped env config (unmapped_links ?maps) (polled_links ?maps)))"
    unfolding collect_unmapped_def
    by (rule fold_enumerate_keeps)
      (auto simp: polled unmapped_link_def Let_def NetworkStatusItem_new_def
        split: option.split intro!: made_at_insert)
  then show ?thesis using assms by (auto simp: gather_def Let_def split: prod.splits)
qed

lemma settled_expected:
  assumes "covers E all_links" "made_at T all_links" "entries P all_links"
    and "list_all2 (settled M) (iter_order f all_links) est" "a \<in> set est"
  shows "(item_id a, status a) \<in> E \<or> a \<in># M \<and> (\<exists>t \<in> T. t \<le> refreshed a + hold_period)"
proof -
  from assms(4,5) obtain e where "e \<in> set (iter_order f all_links)" "settled M e a"
    by (metis in_set_conv_nth list_all2_lengthD list_all2_nthD2)
  then obtain i x where e: "(i, x) \<in> set all_links" "settled M (i, x) a"
    by (metis set_iter_order surj_pair)
  with assms(1-3) have x: "(i, status x) \<in> E" "refreshed x \<in> T" "item_id x = i"
    by (auto simp: covers_def made_at_def entries_def item_entry_def)
  show ?thesis
  proof (cases "announced M (i, x)")
    case True
    with e(2) x show ?thesis by (simp add: settled_def)
  next
    case False
    with e(2) have "a \<in># M" "item_id a = i" "\<not> replaced a x" by (simp_all add: settled_def)
    with x show ?thesis by (auto simp: replaced_def not_less)
  qed
qed

lemma settled_ids:
  assumes "entries P all_links" "list_all2 (settled M) (iter_order f all_links) est"
  shows "image_mset item_id (mset est) = mset_set (fst ` set all_links)"
proof -
  have "map item_id est = map fst (iter_order f all_links)"
  proof (rule nth_equalityI)
    show "length (map item_id est) = length (map fst (iter_order f all_links))"
      using assms(2) by (simp add: list_all2_lengthD [symmetric])
    fix k
    assume "k < length (map item_id est)"
    then have k: "k < length est" "k < length (iter_order f all_links)" using assms(2) by (auto dest: list_all2_lengthD)
    obtain i x where e: "iter_order f all_links ! k = (i, x)" by (cases "iter_order f all_links ! k")
    with nth_mem [OF k(2)] list_all2_nthD2 [OF assms(2) k(1)] have "(i, x) \<in> set all_links" "settled M (i, x) (est ! k)"
      by simp_all
    with assms(1) e k show "map item_id est ! k = map fst (iter_order f all_links) ! k"
      by (auto simp: entries_def dest: settled_id)
  qed
  then have "image_mset item_id (mset est) = mset (map fst (iter_order f all_links))" by (metis mset_map)
  also have "\<dots> = mset_set (fst ` set all_links)"
    using assms(1) mset_set_set [of "map fst all_links"] by (simp add: entries_def)
  finally show ?thesis .
qed

text \<open>The reconciled links of a whole scan, entry by entry.\<close>

lemma scan_links_run:
  assumes "db_ok (database st)" "config_ok config" "devices_distinct config"
    and "reports_distinct (reports (NetlinkMessageProcessor_new f config) link_data)"
    and "length link_data + length network_data + length (network_links config) + length (network_interfaces config) < 2 ^ 64"
  shows "\<exists>st' all_links est.
    poll env config (NetlinkMessageProcessor_new f config) try_send (Ok link_data) (Ok network_data) st = Ok st' \<and>
    db_ok (database st') \<and> item_bag (links (database st')) = mset est \<and>
    covers (expected config (reports (NetlinkMessageProcessor_new f config) link_data)) all_links \<and>
    made_at (scan_times env) all_links \<and> entries link_typed all_links \<and> apart all_links \<and>
    list_all2 (settled (item_bag (links (database st)))) (iter_order (links_order env) all_links) est"
proof -
  let ?p = "NetlinkMessageProcessor_new f config"
  obtain all_links all_interfaces where
    g: "gather env config ?p link_data network_data = (all_links, all_interfaces)" by fastforce
  note named = gather_named [OF g] and cov = gather_links [OF assms(2) g] and apart = gather_apart [OF assms(2-4) g]
  have len: "length all_links < 2 ^ 64" "length all_interfaces < 2 ^ 64"
    using length_gather [OF g] assms(5) by linarith+
  from poll_links_settle [OF assms(1) apart len(1), of env] obtain db1 d1 n1 est where
    1: "poll_links env all_links (database st) = Ok (db1, d1, n1)" "db_ok db1"
      "list_all2 (settled (item_bag (links (database st)))) (iter_order (links_order env) all_links) est"
      "item_bag (links db1) = mset est" by blast
  from poll_interfaces_returns [OF 1(2) len(2), of env] obtain db2 d2 n2 where
    2: "poll_interfaces env all_interfaces db1 = Ok (db2, d2, n2)" by blast
  from poll_interfaces_keeps [where P = "\<lambda>_. True", OF 1(2) _ _ 2] have
    3: "db_ok db2" "links db2 = links db1" by auto
  obtain kept ch where r: "retain_subscribers try_send (poll_updates d1 n1 d2 n2) (subscribers st) (channels st) = (kept, ch)"
    by fastforce
  have "poll env config ?p try_send (Ok link_data) (Ok network_data) st
      = Ok (st\<lparr>database := db2, subscribers := kept, channels := ch\<rparr>)"
    by (simp add: poll_def try_poll_def g 1(1) 2 r)
  then show ?thesis using 1(3,4) 3 cov gather_times [OF g] named apart by auto
qed

lemma scan_links_settle:
  assumes "db_ok (database st)" "config_ok config" "devices_distinct config"
    and "reports_distinct (reports (NetlinkMessageProcessor_new f config) link_data)"
    and "length link_data + length network_data + length (network_links config) + length (network_interfaces config) < 2 ^ 64"
  shows "\<exists>st'. poll env config (NetlinkMessageProcessor_new f config) try_send (Ok link_data) (Ok network_data) st = Ok st' \<and>
    db_ok (database st') \<and>
    image_mset item_id (item_bag (links (database st'))) =
      mset_set (fst ` expected config (reports (NetlinkMessageProcessor_new f config) link_data)) \<and>
    (\<forall>a \<in># item_bag (links (database st')).
       (item_id a, status a) \<in> expected config (reports (NetlinkMessageProcessor_new f config) link_data) \<or>
       a \<in># item_bag (links (database st)) \<and> (\<exists>t \<in> scan_times env. t \<le> refreshed a + hold_period))"
proof -
  let ?E = "expected config (reports (NetlinkMessageProcessor_new f config) link_data)"
  from scan_links_run [OF assms, of env try_send] obtain st' all_links est where
    run: "poll env config (NetlinkMessageProcessor_new f config) try_send (Ok link_data) (Ok network_data) st = Ok st'"
      "db_ok (database st')" "item_bag (links (database st')) = mset est"
    and seen: "covers ?E all_links" "made_at (scan_times env) all_links" "entries link_typed all_links"
      "list_all2 (settled (item_bag (links (database st)))) (iter_order (links_order env) all_links) est"
    by blast
  have "image_mset item_id (mset est) = mset_set (fst ` ?E)"
    using settled_ids [OF seen(3,4)] seen(1) by (metis covers_def)
  moreover have "(item_id a, status a) \<in> ?E \<or>
       a \<in># item_bag (links (database st)) \<and> (\<exists>t \<in> scan_times env. t \<le> refreshed a + hold_period)" if "a \<in># mset est" for a
    using settled_expected [OF seen] that by simp
  ultimately show ?thesis using run by auto
qed

text \<open>C3: A scan on a consistent database returns, whatever the iteration orders, for a configuration that
  uses each device once and a kernel that reports each index and each device once. The
  database then holds one link for each reported device, under its index and its configured
  name, and one without an index for each configured link that is not reported; each has the
  status just seen, \<open>NotFound\<close> for the unreported, or is an entry stored before that is still
  within the hold period.\<close>

theorem scan_outcome:
  assumes "db_ok (database st)" "config_ok config" "devices_distinct config"
    and "reports_distinct (reports (NetlinkMessageProcessor_new f config) link_data)"
    and "length link_data + length network_data + length (network_links config) + length (network_interfaces config) < 2 ^ 64"
  shows "\<exists>st'. poll env config (NetlinkMessageProcessor_new f config) try_send (Ok link_data) (Ok network_data) st = Ok st' \<and>
    db_ok (database st') \<and>
    image_mset item_id (item_bag (links (database st'))) =
      mset_set (fst ` expected config (reports (NetlinkMessageProcessor_new f config) link_data)) \<and>
    (\<forall>a \<in># item_bag (links (database st')).
       (item_id a, status a) \<in> expected config (reports (NetlinkMessageProcessor_new f config) link_data) \<or>
       a \<in># item_bag (links (database st)) \<and> (\<exists>t \<in> scan_times env. t \<le> refreshed a + hold_period))"
  using assms by (rule scan_links_settle)

theorem scan_outcome_witness:
  "\<exists>st'. poll sample_env sample_config (NetlinkMessageProcessor_new (\<lambda>_. 0) sample_config) bounded_send
       (Ok [\<lparr>nl_length = 60, nl_flags = 2, sequence_number = 1, payload = InnerMessage (NewLink sample_link_message)\<rparr>]) (Ok [])
       \<lparr>database = InterfaceManagerDatabase_new, subscribers = [], channels = (\<lambda>_. (1, []))\<rparr> = Ok st' \<and>
     image_mset (\<lambda>a. (item_id a, status a)) (item_bag (links (database st'))) =
       {#(CanonicalNetworkId_new (Some 2) (Some ''lan'') (Some ''eth0''),
          \<lparr>link_name = Some ''lan'', status_device = ''eth0'', operational_state = Up\<rparr>)#}"
proof -
  let ?data = "[\<lparr>nl_length = 60, nl_flags = 2, sequence_number = 1, payload = InnerMessage (NewLink sample_link_message)\<rparr>]"
  let ?st = "\<lparr>database = InterfaceManagerDatabase_new, subscribers = [] :: nat list, channels = (\<lambda>_. (1, []))\<rparr>"
  let ?s = "\<lparr>link_name = Some ''lan'', status_device = ''eth0'', operational_state = Up\<rparr>"
  let ?rs = "reports (NetlinkMessageProcessor_new (\<lambda>_. 0) sample_config) ?data"
  have "process_link (NetlinkMessageProcessor_new (\<lambda>_. 0) sample_config) sample_link_message = Some (2, ?s)"
    by (simp add: process_link_eq sample_link_message_def NetlinkMessageProcessor_new_def sample_config_def
        hm_collect_def insert_at_def)
  then have rs: "?rs = [(2, ?s)]" by (simp add: reports_def List.map_filter_simps)
  then have exp: "expected sample_config ?rs = {(CanonicalNetworkId_new (Some 2) (Some ''lan'') (Some ''eth0''), ?s)}"
    by (auto simp: expected_def unreported_def report_entry_def sample_config_def)
  have "reports_distinct ?rs" unfolding rs by (simp add: reports_distinct_def)
  moreover have "db_ok (database ?st)" "devices_distinct sample_config"
      "length ?data + length ([] :: NetlinkMessage list) + length (network_links sample_config)
        + length (network_interfaces sample_config) < 2 ^ 64"
    by (simp_all add: devices_distinct_def sample_config_def)
  note scan_outcome [OF this(1) sample_config_ok this(2) calculation(1) this(3), of sample_env bounded_send]
  then obtain st' where
    st': "poll sample_env sample_config (NetlinkMessageProcessor_new (\<lambda>_. 0) sample_config) bounded_send (Ok ?data) (Ok []) ?st = Ok st'"
      "image_mset item_id (item_bag (links (database st'))) = {#CanonicalNetworkId_new (Some 2) (Some ''lan'') (Some ''eth0'')#}"
      "\<forall>a \<in># item_bag (links (database st')). (item_id a, status a) = (CanonicalNetworkId_new (Some 2) (Some ''lan'') (Some ''eth0''), ?s)"
    by (auto simp: exp InterfaceManagerDatabase_new_def)
  from st'(2) obtain a where "item_bag (links (database st')) = {#a#}" by (auto dest!: msed_map_invR)
  with st' show ?thesis by auto
qed

end
