(* ===== verification/Interface_Manager.thy ===== *)
theory Interface_Manager
  imports Interface_Gather
begin

text \<open>
  The interface manager, \<open>rusty-router-platform-linux/src/interface/mod.rs\<close>: the listener that
  handles each kernel notification (\<open>message_received\<close>), and the manager as a state machine whose
  steps are scans, notifications, subscriptions and the drop of the manager. The database lock is held
  for the whole of a step, so the steps interleave but do not overlap.
\<close>

section \<open>The listener\<close>

text \<open>The interface of the device, when it is on a link of that device name.\<close>

definition interface_on_link ::
  "u64 \<Rightarrow> link_item \<Rightarrow> InterfaceManagerDatabase \<Rightarrow> interface_item option" where
  "interface_on_link index link db =
     (case get_interface_status_item_by_device_index index db of
        None \<Rightarrow> None
      | Some interface \<Rightarrow>
          if status_device (network_link_status (status interface)) = status_device (status link)
          then Some interface else None)"

definition interface_with_link ::
  "instant \<Rightarrow> u64 option \<Rightarrow> interface_item \<Rightarrow> link_item \<Rightarrow> interface_item" where
  "interface_with_link now index interface link =
     NetworkStatusItem_new now
       (CanonicalNetworkId_new index (interface_name (status interface))
          (Some (status_device (network_link_status (status interface)))))
       \<lparr>interface_name = interface_name (status interface),
        status_addresses = status_addresses (status interface), network_link_status = status link\<rparr>"

definition new_link ::
  "('sub, 'ch) sender \<Rightarrow> instant \<Rightarrow> instant \<Rightarrow> u64 \<times> NetworkLinkStatus \<Rightarrow>
   ('sub, 'ch) manager \<Rightarrow> ('sub, 'ch) manager router_result" where
  "new_link try_send now now' = (\<lambda>(index, link_status) st.
     let i = CanonicalNetworkId_new (Some index) (link_name link_status) (Some (status_device link_status));
         link = NetworkStatusItem_new now i link_status
     in obind (set_link_status_item link (database st)) (\<lambda>(db, deleted).
        let updated_interface =
              map_option (\<lambda>interface. interface_with_link now' (Some index) interface link)
                (interface_on_link index link db);
            (kept, ch) = retain_subscribers try_send [LinkUpdate (status link)] (subscribers st) (channels st)
        in case updated_interface of
             None \<Rightarrow> Ok (st\<lparr>database := db, subscribers := kept, channels := ch\<rparr>)
           | Some interface \<Rightarrow>
               obind (set_interface_status_item interface db) (\<lambda>(db, deleted).
               let (kept, ch) = retain_subscribers try_send [InterfaceUpdate (status interface)] kept ch
               in Ok (st\<lparr>database := db, subscribers := kept, channels := ch\<rparr>))))"

definition del_link ::
  "instant \<Rightarrow> instant \<Rightarrow> u64 \<times> NetworkLinkStatus \<Rightarrow>
   ('sub, 'ch) manager \<Rightarrow> ('sub, 'ch) manager router_result" where
  "del_link now now' = (\<lambda>(index, link_status) st.
     let i = CanonicalNetworkId_new None (link_name link_status) (Some (status_device link_status))
     in obind
          (case net_name i of
             Some _ \<Rightarrow>
               let link = NetworkStatusItem_new now i
                     \<lparr>link_name = link_name link_status, status_device = status_device link_status,
                      operational_state = NotFound\<rparr>
               in obind (set_link_status_item link (database st)) (\<lambda>(db, deleted). Ok (db, link))
           | None \<Rightarrow>
               let (db, deleted_items) = remove_link_status_item i (database st) []
               in Ok (db, NetworkStatusItem_new now i link_status))
          (\<lambda>(db, link).
        let updated_interface =
              map_option (\<lambda>interface. interface_with_link now' None interface link)
                (interface_on_link index link db)
        in case updated_interface of
             None \<Rightarrow> Ok (st\<lparr>database := db\<rparr>)
           | Some interface \<Rightarrow>
               (case net_name (item_id interface) of
                  Some _ \<Rightarrow>
                    obind (set_interface_status_item interface db) (\<lambda>(db, deleted). Ok (st\<lparr>database := db\<rparr>))
                | None \<Rightarrow>
                    let (db, deleted_interfaces) = remove_interface_status_item (item_id interface) db []
                    in Ok (st\<lparr>database := db\<rparr>))))"

text \<open>The two address branches differ in what they do to the list of addresses.\<close>

definition with_addresses ::
  "instant \<Rightarrow> (IpAddress list \<Rightarrow> IpAddress list) \<Rightarrow> u64 \<Rightarrow>
   ('sub, 'ch) manager \<Rightarrow> ('sub, 'ch) manager router_result" where
  "with_addresses now change index st =
     (case get_interface_status_item_by_device_index index (database st) of
        None \<Rightarrow> Ok st
      | Some interface \<Rightarrow>
          let i = item_id interface;
              updated_interface =
                \<lparr>interface_name = interface_name (status interface),
                 status_addresses = change (status_addresses (status interface)),
                 network_link_status = network_link_status (status interface)\<rparr>
          in obind (set_interface_status_item (NetworkStatusItem_new now i updated_interface) (database st))
               (\<lambda>(db, deleted). Ok (st\<lparr>database := db\<rparr>)))"

definition new_address :: "instant \<Rightarrow> u64 \<times> IpAddress \<Rightarrow> ('sub, 'ch) manager \<Rightarrow> ('sub, 'ch) manager router_result" where
  "new_address now = (\<lambda>(index, address). with_addresses now (\<lambda>known. sort (known @ [address])) index)"

text \<open>The first equal address is removed, if there is one.\<close>

definition del_address :: "instant \<Rightarrow> u64 \<times> IpAddress \<Rightarrow> ('sub, 'ch) manager \<Rightarrow> ('sub, 'ch) manager router_result" where
  "del_address now = (\<lambda>(index, address). with_addresses now (remove1 address) index)"

definition message_received ::
  "NetlinkMessageProcessor \<Rightarrow> address_families \<Rightarrow> ('sub, 'ch) sender \<Rightarrow> instant \<Rightarrow> instant \<Rightarrow> NetlinkMessage \<Rightarrow>
   ('sub, 'ch) manager \<Rightarrow> ('sub, 'ch) manager router_result" where
  "message_received p af try_send now now' message st =
     (case payload message of
        InnerMessage (NewLink _) \<Rightarrow>
          (case process_link_message p (payload message) of
             None \<Rightarrow> Ok st | Some report \<Rightarrow> new_link try_send now now' report st)
      | InnerMessage (DelLink _) \<Rightarrow>
          (case process_link_message p (payload message) of
             None \<Rightarrow> Ok st | Some report \<Rightarrow> del_link now now' report st)
      | InnerMessage (NewAddress _) \<Rightarrow>
          (case process_address_message af (payload message) of
             None \<Rightarrow> Ok st | Some report \<Rightarrow> new_address now report st)
      | InnerMessage (DelAddress _) \<Rightarrow>
          (case process_address_message af (payload message) of
             None \<Rightarrow> Ok st | Some report \<Rightarrow> del_address now report st)
      | _ \<Rightarrow> Ok st)"

section \<open>The manager\<close>

definition manager_new :: "'ch \<Rightarrow> ('sub, 'ch) manager" where
  "manager_new ch = \<lparr>database = InterfaceManagerDatabase_new, subscribers = [], channels = ch\<rparr>"

definition list_network_links :: "order_choice \<Rightarrow> ('sub, 'ch) manager \<Rightarrow> NetworkLinkStatus list" where
  "list_network_links f st = list_link_status f (database st)"

definition list_network_interfaces :: "order_choice \<Rightarrow> ('sub, 'ch) manager \<Rightarrow> NetworkInterfaceStatus list" where
  "list_network_interfaces f st = list_interface_status f (database st)"

definition subscribe :: "'sub \<Rightarrow> ('sub, 'ch) manager \<Rightarrow> ('sub, 'ch) manager" where
  "subscribe subscriber st = st\<lparr>subscribers := subscribers st @ [subscriber]\<rparr>"

section \<open>The listener returns and keeps the database consistent\<close>

definition counters_free :: "InterfaceManagerDatabase \<Rightarrow> bool" where
  "counters_free db \<longleftrightarrow> next_index (links db) \<noteq> - 1 \<and> next_index (interfaces db) \<noteq> - 1"

lemma link_put_free:
  assumes "db_ok db" "counters_free db"
  obtains db' deleted where "set_link_status_item item db = Ok (db', deleted)" "db_ok db'"
    "item_bag (links db') = put_item item (item_bag (links db))" "interfaces db' = interfaces db"
    "next_index (interfaces db') \<noteq> - 1"
  using link_store.put_law [OF assms(1), of item] assms(2) link_frame(1)
  unfolding counters_free_def by metis

lemma interface_put_free:
  assumes "db_ok db" "next_index (interfaces db) \<noteq> - 1"
  obtains db' deleted where "set_interface_status_item item db = Ok (db', deleted)" "db_ok db'"
    "item_bag (interfaces db') = put_item item (item_bag (interfaces db))" "links db' = links db"
  using interface_store.put_law [OF assms(1), of item] assms(2) interface_frame(1) by metis

lemma device_index_lookup:
  "db_ok db \<Longrightarrow> get_interface_status_item_by_device_index k db = Some item \<longleftrightarrow>
    item \<in># item_bag (interfaces db) \<and> net_id (item_id item) = Some k"
  by (simp add: get_interface_status_item_by_device_index_def lookup_device_index db_ok_def)

lemma interface_on_link_iff:
  assumes "db_ok db"
  shows "interface_on_link index link db = Some interface \<longleftrightarrow>
    interface \<in># item_bag (interfaces db) \<and> net_id (item_id interface) = Some index \<and>
    status_device (network_link_status (status interface)) = status_device (status link)"
proof -
  have "interface_on_link index link db = Some interface \<longleftrightarrow>
      get_interface_status_item_by_device_index index db = Some interface \<and>
      status_device (network_link_status (status interface)) = status_device (status link)"
    by (auto simp: interface_on_link_def split: option.split)
  then show ?thesis by (simp add: device_index_lookup [OF assms])
qed

lemma interface_on_link_frame:
  "interfaces db' = interfaces db \<Longrightarrow> interface_on_link index link db' = interface_on_link index link db"
  by (simp add: interface_on_link_def get_interface_status_item_by_device_index_def)

definition reported_link :: "instant \<Rightarrow> u64 \<Rightarrow> NetworkLinkStatus \<Rightarrow> link_item" where
  "reported_link now index s = NetworkStatusItem_new now
     (CanonicalNetworkId_new (Some index) (link_name s) (Some (status_device s))) s"

text \<open>The interfaces after a link notification: the interface on the link, if any, is replaced.\<close>

lemma new_link_Ok:
  assumes "db_ok (database st)" "counters_free (database st)"
  shows "\<exists>st'. new_link try_send now now' (index, s) st = Ok st' \<and> db_ok (database st') \<and>
    item_bag (links (database st')) = put_item (reported_link now index s) (item_bag (links (database st))) \<and>
    item_bag (interfaces (database st')) =
      (case interface_on_link index (reported_link now index s) (database st) of
         None \<Rightarrow> item_bag (interfaces (database st))
       | Some interface \<Rightarrow>
           put_item (interface_with_link now' (Some index) interface (reported_link now index s))
             (item_bag (interfaces (database st))))"
proof -
  obtain db deleted where 1: "set_link_status_item (reported_link now index s) (database st) = Ok (db, deleted)" "db_ok db"
      "item_bag (links db) = put_item (reported_link now index s) (item_bag (links (database st)))"
      "interfaces db = interfaces (database st)" "next_index (interfaces db) \<noteq> - 1"
    by (rule link_put_free [OF assms(1,2)])
  note on = interface_on_link_frame [OF 1(4)]
  show ?thesis
  proof (cases "interface_on_link index (reported_link now index s) (database st)")
    case None
    with 1 on show ?thesis by (simp add: new_link_def reported_link_def Let_def split: prod.split)
  next
    case (Some interface)
    obtain db2 deleted2 where
      2: "set_interface_status_item (interface_with_link now' (Some index) interface (reported_link now index s)) db = Ok (db2, deleted2)"
        "db_ok db2" "links db2 = links db"
        "item_bag (interfaces db2) = put_item (interface_with_link now' (Some index) interface (reported_link now index s)) (item_bag (interfaces db))"
      by (rule interface_put_free [OF 1(2,5)])
    with Some 1 on show ?thesis by (simp add: new_link_def reported_link_def Let_def split: prod.split)
  qed
qed

lemma with_addresses_Ok:
  assumes "db_ok (database st)" "next_index (interfaces (database st)) \<noteq> - 1"
  shows "\<exists>st'. with_addresses now change index st = Ok st' \<and> db_ok (database st') \<and>
    links (database st') = links (database st) \<and>
    (case get_interface_status_item_by_device_index index (database st) of
       None \<Rightarrow> st' = st
     | Some interface \<Rightarrow> item_bag (interfaces (database st')) =
         put_item (NetworkStatusItem_new now (item_id interface)
           ((status interface)\<lparr>status_addresses := change (status_addresses (status interface))\<rparr>))
           (item_bag (interfaces (database st))))"
proof (cases "get_interface_status_item_by_device_index index (database st)")
  case (Some interface)
  let ?s = "\<lparr>interface_name = interface_name (status interface),
    status_addresses = change (status_addresses (status interface)),
    network_link_status = network_link_status (status interface)\<rparr>"
  have s: "(status interface)\<lparr>status_addresses := change (status_addresses (status interface))\<rparr> = ?s" by simp
  obtain db deleted where
    "set_interface_status_item (NetworkStatusItem_new now (item_id interface) ?s) (database st) = Ok (db, deleted)"
    "db_ok db" "links db = links (database st)"
    "item_bag (interfaces db) = put_item (NetworkStatusItem_new now (item_id interface) ?s) (item_bag (interfaces (database st)))"
    by (rule interface_put_free [OF assms])
  then show ?thesis by (simp add: with_addresses_def Some Let_def s)
qed (simp add: with_addresses_def assms(1))

text \<open>The item that a removed link leaves: one in state \<open>NotFound\<close> when the link is configured.\<close>

definition gone_link :: "instant \<Rightarrow> NetworkLinkStatus \<Rightarrow> link_item" where
  "gone_link now s = NetworkStatusItem_new now
     (CanonicalNetworkId_new None (link_name s) (Some (status_device s)))
     (if link_name s = None then s else s\<lparr>operational_state := NotFound\<rparr>)"

lemma gone_link_named:
  "link_name s = Some n \<Longrightarrow> gone_link now s = NetworkStatusItem_new now
     (CanonicalNetworkId_new None (Some n) (Some (status_device s)))
     \<lparr>link_name = Some n, status_device = status_device s, operational_state = NotFound\<rparr>"
  by (cases s) (simp add: gone_link_def)

definition without :: "CanonicalNetworkId \<Rightarrow> 'a NetworkStatusItem multiset \<Rightarrow> 'a NetworkStatusItem multiset" where
  "without i M = filter_mset (\<lambda>a. \<not> conflicts i (item_id a)) M"

lemma del_link_links:
  assumes "db_ok db" "counters_free db"
  shows "\<exists>db'. db_ok db' \<and> interfaces db' = interfaces db \<and> next_index (interfaces db') \<noteq> - 1 \<and>
    item_bag (links db') = (if link_name s = None then without (item_id (gone_link now s)) (item_bag (links db))
                            else put_item (gone_link now s) (item_bag (links db))) \<and>
    (case net_name (item_id (gone_link now s)) of
       Some _ \<Rightarrow> obind (set_link_status_item (gone_link now s) db) (\<lambda>(db, deleted). Ok (db, gone_link now s))
     | None \<Rightarrow> let (db, deleted_items) = remove_link_status_item (item_id (gone_link now s)) db []
               in Ok (db, gone_link now s)) = Ok (db', gone_link now s)"
proof (cases "link_name s")
  case None
  obtain db' d where d: "remove_link_status_item (item_id (gone_link now s)) db [] = (db', d)" by fastforce
  from link_store.delete_law [OF assms(1) d] link_frame(2) [OF d] None assms(2) d show ?thesis
    by (auto simp: gone_link_def NetworkStatusItem_new_def CanonicalNetworkId_new_def without_def counters_free_def)
next
  case (Some n)
  obtain db' d where "set_link_status_item (gone_link now s) db = Ok (db', d)" "db_ok db'"
      "item_bag (links db') = put_item (gone_link now s) (item_bag (links db))" "interfaces db' = interfaces db"
      "next_index (interfaces db') \<noteq> - 1"
    by (rule link_put_free [OF assms])
  with Some show ?thesis
    by (auto simp: gone_link_def NetworkStatusItem_new_def CanonicalNetworkId_new_def)
qed

definition drop_interface ::
  "interface_item \<Rightarrow> ('sub, 'ch) manager \<Rightarrow> InterfaceManagerDatabase \<Rightarrow> ('sub, 'ch) manager router_result" where
  "drop_interface interface st db =
     (case net_name (item_id interface) of
        Some _ \<Rightarrow>
          obind (set_interface_status_item interface db) (\<lambda>(db, deleted). Ok (st\<lparr>database := db\<rparr>))
      | None \<Rightarrow>
          let (db, deleted_interfaces) = remove_interface_status_item (item_id interface) db []
          in Ok (st\<lparr>database := db\<rparr>))"

lemma del_link_eq:
  "del_link now now' (index, s) st =
     obind (case net_name (item_id (gone_link now s)) of
              Some _ \<Rightarrow> obind (set_link_status_item (gone_link now s) (database st)) (\<lambda>(db, deleted). Ok (db, gone_link now s))
            | None \<Rightarrow> let (db, deleted_items) = remove_link_status_item (item_id (gone_link now s)) (database st) []
                      in Ok (db, gone_link now s))
       (\<lambda>(db, link). case interface_on_link index link db of
           None \<Rightarrow> Ok (st\<lparr>database := db\<rparr>)
         | Some interface \<Rightarrow> drop_interface (interface_with_link now' None interface link) st db)"
  unfolding del_link_def prod.case Let_def
  by (rule arg_cong2 [where f = obind])
    (cases s, cases "link_name s", simp_all add: gone_link_def CanonicalNetworkId_new_def
      NetworkStatusItem_new_def fun_eq_iff drop_interface_def Let_def split: option.split)

lemma drop_interface_Ok:
  assumes "db_ok db" "next_index (interfaces db) \<noteq> - 1"
  shows "\<exists>db'. drop_interface interface st db = Ok (st\<lparr>database := db'\<rparr>) \<and> db_ok db' \<and> links db' = links db \<and>
    item_bag (interfaces db') = (if net_name (item_id interface) = None then without (item_id interface) (item_bag (interfaces db))
                                 else put_item interface (item_bag (interfaces db)))"
proof (cases "net_name (item_id interface)")
  case None
  obtain db' d where d: "remove_interface_status_item (item_id interface) db [] = (db', d)" by fastforce
  from interface_store.delete_law [OF assms(1) d] interface_frame(2) [OF d] None d show ?thesis
    by (auto simp: drop_interface_def without_def)
next
  case (Some n)
  obtain db' d where "set_interface_status_item interface db = Ok (db', d)" "db_ok db'"
      "item_bag (interfaces db') = put_item interface (item_bag (interfaces db))" "links db' = links db"
    by (rule interface_put_free [OF assms])
  with Some show ?thesis by (auto simp: drop_interface_def)
qed

lemma net_name_with_link [simp]:
  "net_name (item_id (interface_with_link now index interface link)) = interface_name (status interface)"
  by (simp add: interface_with_link_def NetworkStatusItem_new_def CanonicalNetworkId_new_def)

lemma del_link_Ok:
  assumes "db_ok (database st)" "counters_free (database st)"
  shows "\<exists>st'. del_link now now' (index, s) st = Ok st' \<and> db_ok (database st') \<and>
    subscribers st' = subscribers st \<and> channels st' = channels st \<and>
    item_bag (links (database st')) =
      (if link_name s = None then without (item_id (gone_link now s)) (item_bag (links (database st)))
       else put_item (gone_link now s) (item_bag (links (database st)))) \<and>
    item_bag (interfaces (database st')) =
      (case interface_on_link index (gone_link now s) (database st) of
         None \<Rightarrow> item_bag (interfaces (database st))
       | Some interface \<Rightarrow>
           let gone = interface_with_link now' None interface (gone_link now s) in
           if interface_name (status interface) = None
           then without (item_id gone) (item_bag (interfaces (database st)))
           else put_item gone (item_bag (interfaces (database st))))"
proof -
  obtain db where 1: "db_ok db" "interfaces db = interfaces (database st)" "next_index (interfaces db) \<noteq> - 1"
      "item_bag (links db) = (if link_name s = None then without (item_id (gone_link now s)) (item_bag (links (database st)))
                            else put_item (gone_link now s) (item_bag (links (database st))))"
      "(case net_name (item_id (gone_link now s)) of
       Some _ \<Rightarrow> obind (set_link_status_item (gone_link now s) (database st)) (\<lambda>(db, deleted). Ok (db, gone_link now s))
     | None \<Rightarrow> let (db, deleted_items) = remove_link_status_item (item_id (gone_link now s)) (database st) []
               in Ok (db, gone_link now s)) = Ok (db, gone_link now s)"
    using del_link_links [OF assms, of s now] by blast
  note on = interface_on_link_frame [OF 1(2)]
  show ?thesis
  proof (cases "interface_on_link index (gone_link now s) (database st)")
    case None
    then show ?thesis by (simp add: del_link_eq 1 on del: net_name_with_link)
  next
    case (Some interface)
    from drop_interface_Ok [OF 1(1,3), of "interface_with_link now' None interface (gone_link now s)" st]
    show ?thesis using Some by (auto simp: del_link_eq 1 on)
  qed
qed

section \<open>Replacing one stored item\<close>

text \<open>An identifier all of whose keys are keys of another.\<close>

definition keys_within :: "CanonicalNetworkId \<Rightarrow> CanonicalNetworkId \<Rightarrow> bool" where
  "keys_within i j \<longleftrightarrow> (net_id i = None \<or> net_id i = net_id j) \<and> (net_name i = None \<or> net_name i = net_name j) \<and>
     (net_device i = None \<or> net_device i = net_device j)"

lemma conflicts_within: "keys_within i j \<Longrightarrow> conflicts i k \<Longrightarrow> conflicts j k"
  unfolding keys_within_def conflicts_def same_key_def by metis

context item_store
begin

lemma without_one:
  assumes "ok s" "a \<in># bag s" "keys_within i (item_id a)" "conflicts i (item_id a)"
  shows "without i (bag s) = bag s - {#a#}"
proof -
  obtain M where M: "bag s = add_mset a M" using assms(2) by (meson multi_member_split)
  have "\<not> conflicts i (item_id b)" if b: "b \<in># M" for b
  proof
    assume "conflicts i (item_id b)"
    obtain N where "M = add_mset b N" using multi_member_split [OF b] by blast
    with unique [OF assms(1), of a b N] M conflicts_within [OF assms(3) \<open>conflicts i (item_id b)\<close>] show False by simp
  qed
  then have "filter_mset (\<lambda>b. \<not> conflicts i (item_id b)) M = filter_mset (\<lambda>_. True) M"
    by (intro filter_mset_cong) auto
  then show ?thesis by (simp add: without_def M assms(4))
qed

lemma put_replaces:
  assumes "ok s" "a \<in># bag s" "keys_within (item_id x) (item_id a)" "conflicts (item_id x) (item_id a)"
  shows "put_item x (bag s) = add_mset x (bag s - {#a#})"
  using without_one [OF assms] by (simp add: put_item_def without_def)

end

lemma item_id_with_link [simp]:
  "item_id (interface_with_link now index interface link) =
     CanonicalNetworkId_new index (interface_name (status interface)) (Some (status_device (network_link_status (status interface))))"
  "status (interface_with_link now index interface link) = (status interface)\<lparr>network_link_status := status link\<rparr>"
  by (cases "status interface"; simp add: interface_with_link_def NetworkStatusItem_new_def)+

lemma on_linkD:
  assumes "db_ok db" "database_typed db" "interface_on_link index link db = Some interface" "link_typed link"
  shows "interface \<in># item_bag (interfaces db)" "net_id (item_id interface) = Some index"
    "net_name (item_id interface) = interface_name (status interface)"
    "status_device (network_link_status (status interface)) = status_device (status link)"
    "sorted (status_addresses (status interface))"
  using assms interface_on_link_iff [OF assms(1)] by (auto simp: database_typed_def interface_typed_def)

text \<open>The interface keeps its place in the table when its link changes.\<close>

lemma with_link_within:
  assumes "db_ok db" "database_typed db" "interface_on_link index link db = Some interface"
    and "index' = None \<or> index' = Some index"
  shows "keys_within (item_id (interface_with_link now index' interface link)) (item_id interface)"
    and "conflicts (item_id (interface_with_link now index' interface link)) (item_id interface)"
proof -
  from assms(1-3) interface_on_link_iff [OF assms(1)] have i: "interface_typed interface" "net_id (item_id interface) = Some index"
    by (auto simp: database_typed_def)
  with assms(4) show "keys_within (item_id (interface_with_link now index' interface link)) (item_id interface)"
    and "conflicts (item_id (interface_with_link now index' interface link)) (item_id interface)"
    by (auto simp: interface_typed_def keys_within_def conflicts_def same_key_def CanonicalNetworkId_new_def split: option.splits)
qed

section \<open>Notifications of links\<close>

lemma link_named_reported [simp]:
  "operational_state s \<notin> {NotFound, Misconfigured} \<Longrightarrow> link_typed (reported_link now index s)" "status (reported_link now index s) = s"
  by (simp_all add: reported_link_def link_typed_def NetworkStatusItem_new_def CanonicalNetworkId_new_def)

lemma link_named_gone [simp]:
  "link_name s \<noteq> None \<Longrightarrow> link_typed (gone_link now s)" "status_device (status (gone_link now s)) = status_device s"
  "net_name (item_id (gone_link now s)) = link_name s"
  by (auto simp: gone_link_def link_typed_def NetworkStatusItem_new_def CanonicalNetworkId_new_def)

lemma replace_on_link:
  assumes "db_ok db" "database_typed db" "interface_on_link index link db = Some interface"
    and "index' = None \<or> index' = Some index"
  shows "put_item (interface_with_link now index' interface link) (item_bag (interfaces db)) =
      add_mset (interface_with_link now index' interface link) (item_bag (interfaces db) - {#interface#})"
    and "without (item_id (interface_with_link now index' interface link)) (item_bag (interfaces db)) =
      item_bag (interfaces db) - {#interface#}"
proof -
  have "interface \<in># item_bag (interfaces db)" using assms(3) interface_on_link_iff [OF assms(1)] by simp
  note * = interface_store.put_replaces [OF assms(1) this] interface_store.without_one [OF assms(1) this]
  show "put_item (interface_with_link now index' interface link) (item_bag (interfaces db)) =
      add_mset (interface_with_link now index' interface link) (item_bag (interfaces db) - {#interface#})"
    by (rule *(1) [OF with_link_within [OF assms]])
  show "without (item_id (interface_with_link now index' interface link)) (item_bag (interfaces db)) =
      item_bag (interfaces db) - {#interface#}"
    by (rule *(2) [OF with_link_within [OF assms]])
qed

text \<open>The interface that a link notification concerns: the one stored with the link's index whose link
  has the device's name.\<close>

definition concerns :: "u64 \<Rightarrow> string \<Rightarrow> interface_item \<Rightarrow> bool" where
  "concerns index device a \<longleftrightarrow> net_id (item_id a) = Some index \<and> status_device (network_link_status (status a)) = device"

lemma interface_on_link_concerns:
  assumes "db_ok db"
  shows "interface_on_link index link db = Some a \<longleftrightarrow>
    a \<in># item_bag (interfaces db) \<and> concerns index (status_device (status link)) a"
  by (simp add: interface_on_link_iff [OF assms] concerns_def)

text \<open>C16: A \<open>NewLink\<close> notification that reports a link returns, as long as the counters are not
  exhausted. It puts the reported link, under its index, its configured name and its device, in
  place of every link that shares one of them. The interface of that index and device, if there
  is one, gets the new link status and keeps its name and addresses; every other interface, or
  all of them if there is none, stay as they are.\<close>

theorem new_link_notification:
  assumes "db_ok (database st)" "database_typed (database st)" "counters_free (database st)"
    and "payload m = InnerMessage (NewLink msg)" "process_link p msg = Some (index, s)"
  shows "\<exists>st'. message_received p af try_send now now' m st = Ok st' \<and> db_ok (database st') \<and>
    item_bag (links (database st')) = put_item (reported_link now index s) (item_bag (links (database st))) \<and>
    (\<forall>a \<in># item_bag (interfaces (database st)). concerns index (status_device s) a \<longrightarrow>
       (\<exists>b. item_bag (interfaces (database st')) = add_mset b (item_bag (interfaces (database st)) - {#a#}) \<and>
          net_id (item_id b) = Some index \<and> status b = (status a)\<lparr>network_link_status := s\<rparr>)) \<and>
    ((\<forall>a \<in># item_bag (interfaces (database st)). \<not> concerns index (status_device s) a) \<longrightarrow>
       item_bag (interfaces (database st')) = item_bag (interfaces (database st)))"
proof -
  let ?l = "reported_link now index s"
  from new_link_Ok [OF assms(1,3), of try_send now now' index s] obtain st' where
    1: "new_link try_send now now' (index, s) st = Ok st'" "db_ok (database st')"
      "item_bag (links (database st')) = put_item ?l (item_bag (links (database st)))"
      "item_bag (interfaces (database st')) = (case interface_on_link index ?l (database st) of
         None \<Rightarrow> item_bag (interfaces (database st))
       | Some interface \<Rightarrow> put_item (interface_with_link now' (Some index) interface ?l) (item_bag (interfaces (database st))))"
    by blast
  have run: "message_received p af try_send now now' m st = Ok st'"
    by (simp add: message_received_def assms(4,5) 1(1))
  have some: "\<exists>b. item_bag (interfaces (database st')) = add_mset b (item_bag (interfaces (database st)) - {#a#}) \<and>
        net_id (item_id b) = Some index \<and> status b = (status a)\<lparr>network_link_status := s\<rparr>"
    if "a \<in># item_bag (interfaces (database st))" "concerns index (status_device s) a" for a
  proof -
    have on: "interface_on_link index ?l (database st) = Some a"
      using that interface_on_link_concerns [OF assms(1)] by simp
    then show ?thesis
      using 1(4) replace_on_link(1) [OF assms(1,2) on] by (auto simp: CanonicalNetworkId_new_def)
  qed
  have none: "item_bag (interfaces (database st')) = item_bag (interfaces (database st))"
    if "\<forall>a \<in># item_bag (interfaces (database st)). \<not> concerns index (status_device s) a"
  proof -
    have "interface_on_link index ?l (database st) = None"
      using that interface_on_link_concerns [OF assms(1)] by (metis link_named_reported(2) not_None_eq)
    with 1(4) show ?thesis by simp
  qed
  from run 1(2,3) some none show ?thesis by blast
qed

text \<open>C17: A \<open>DelLink\<close> notification that reports a link returns. A configured link stays, without an
  index and in state \<open>NotFound\<close>; a link that is not configured is removed with whatever has
  its device. The interface of that index and device loses the index and gets the state of the
  link that is left, or is removed when it has no configured name; no other interface changes,
  and nobody is told.\<close>

theorem del_link_notification:
  assumes "db_ok (database st)" "database_typed (database st)" "counters_free (database st)"
    and "payload m = InnerMessage (DelLink msg)" "process_link p msg = Some (index, s)"
  shows "\<exists>st'. message_received p af try_send now now' m st = Ok st' \<and> db_ok (database st') \<and>
    item_bag (links (database st')) =
      (if link_name s = None then without (item_id (gone_link now s)) (item_bag (links (database st)))
       else put_item (gone_link now s) (item_bag (links (database st)))) \<and>
    (\<forall>a \<in># item_bag (interfaces (database st)). concerns index (status_device s) a \<longrightarrow>
       (if interface_name (status a) = None
        then item_bag (interfaces (database st')) = item_bag (interfaces (database st)) - {#a#}
        else \<exists>b. item_bag (interfaces (database st')) = add_mset b (item_bag (interfaces (database st)) - {#a#}) \<and>
          net_id (item_id b) = None \<and> status b = (status a)\<lparr>network_link_status := status (gone_link now s)\<rparr>)) \<and>
    ((\<forall>a \<in># item_bag (interfaces (database st)). \<not> concerns index (status_device s) a) \<longrightarrow>
       item_bag (interfaces (database st')) = item_bag (interfaces (database st))) \<and>
    subscribers st' = subscribers st \<and> channels st' = channels st"
proof -
  let ?l = "gone_link now s"
  from del_link_Ok [OF assms(1,3), of now now' index s] obtain st' where
    1: "del_link now now' (index, s) st = Ok st'" "db_ok (database st')" "subscribers st' = subscribers st" "channels st' = channels st"
      "item_bag (links (database st')) = (if link_name s = None then without (item_id ?l) (item_bag (links (database st)))
       else put_item ?l (item_bag (links (database st))))"
      "item_bag (interfaces (database st')) = (case interface_on_link index ?l (database st) of
         None \<Rightarrow> item_bag (interfaces (database st))
       | Some interface \<Rightarrow>
           let gone = interface_with_link now' None interface ?l in
           if interface_name (status interface) = None
           then without (item_id gone) (item_bag (interfaces (database st)))
           else put_item gone (item_bag (interfaces (database st))))"
    by blast
  have run: "message_received p af try_send now now' m st = Ok st'"
    by (simp add: message_received_def assms(4,5) 1(1))
  have some: "if interface_name (status a) = None
        then item_bag (interfaces (database st')) = item_bag (interfaces (database st)) - {#a#}
        else \<exists>b. item_bag (interfaces (database st')) = add_mset b (item_bag (interfaces (database st)) - {#a#}) \<and>
          net_id (item_id b) = None \<and> status b = (status a)\<lparr>network_link_status := status ?l\<rparr>"
    if "a \<in># item_bag (interfaces (database st))" "concerns index (status_device s) a" for a
  proof -
    have on: "interface_on_link index ?l (database st) = Some a"
      using that interface_on_link_concerns [OF assms(1)] by simp
    note replace_on_link [OF assms(1,2) on, of None now']
    with 1(6) on show ?thesis by (auto simp: CanonicalNetworkId_new_def)
  qed
  have none: "item_bag (interfaces (database st')) = item_bag (interfaces (database st))"
    if "\<forall>a \<in># item_bag (interfaces (database st)). \<not> concerns index (status_device s) a"
  proof -
    have "interface_on_link index ?l (database st) = None"
      using that interface_on_link_concerns [OF assms(1)] by (metis link_named_gone(2) not_None_eq)
    with 1(6) show ?thesis by simp
  qed
  from run 1(2-5) some none show ?thesis by blast
qed

section \<open>Notifications of addresses\<close>

lemma with_addresses_replaces:
  assumes "db_ok (database st)" "next_index (interfaces (database st)) \<noteq> - 1"
    and "a \<in># item_bag (interfaces (database st))" "net_id (item_id a) = Some index"
  shows "\<exists>st'. with_addresses now change index st = Ok st' \<and> db_ok (database st') \<and>
    links (database st') = links (database st) \<and>
    next_index (interfaces (database st')) = next_index (interfaces (database st)) + 1 \<and>
    item_bag (interfaces (database st')) = add_mset
        (NetworkStatusItem_new now (item_id a) ((status a)\<lparr>status_addresses := change (status_addresses (status a))\<rparr>))
        (item_bag (interfaces (database st)) - {#a#}) \<and>
    subscribers st' = subscribers st \<and> channels st' = channels st"
proof -
  let ?b = "NetworkStatusItem_new now (item_id a) ((status a)\<lparr>status_addresses := change (status_addresses (status a))\<rparr>)"
  have found: "get_interface_status_item_by_device_index index (database st) = Some a"
    using assms(3,4) device_index_lookup [OF assms(1)] by simp
  have same: "\<lparr>interface_name = interface_name (status a), status_addresses = change (status_addresses (status a)),
      network_link_status = network_link_status (status a)\<rparr> = (status a)\<lparr>status_addresses := change (status_addresses (status a))\<rparr>"
    by simp
  from interface_store.put_law [OF assms(1), of ?b] assms(2) obtain db deleted where
    1: "set_interface_status_item ?b (database st) = Ok (db, deleted)" "db_ok db"
      "item_bag (interfaces db) = put_item ?b (item_bag (interfaces (database st)))"
      "next_index (interfaces db) = next_index (interfaces (database st)) + 1" by blast
  have "put_item ?b (item_bag (interfaces (database st))) = add_mset ?b (item_bag (interfaces (database st)) - {#a#})"
    by (rule interface_store.put_replaces [OF assms(1,3)])
      (simp_all add: NetworkStatusItem_new_def keys_within_def conflicts_def same_key_def assms(4))
  with 1 found interface_frame(1) [OF 1(1)] show ?thesis by (simp add: with_addresses_def Let_def same)
qed

text \<open>C18: On a stored interface of the index a \<open>NewAddress\<close> notification that reports an address enters
  it, also when it is there already, and keeps the list in order; a \<open>DelAddress\<close> notification
  removes one occurrence if there is one. Name, link status and every other interface and link
  stay, and no subscriber is told or dropped.\<close>

theorem address_notification:
  assumes "db_ok (database st)" "database_typed (database st)" "next_index (interfaces (database st)) \<noteq> - 1"
    and "a \<in># item_bag (interfaces (database st))" "net_id (item_id a) = Some index"
    and "process_address af msg = Some (index, address)"
    and "payload m = InnerMessage (NewAddress msg) \<and> xs = add_mset address (mset (status_addresses (status a))) \<or>
         payload m = InnerMessage (DelAddress msg) \<and> xs = mset (status_addresses (status a)) - {#address#}"
  shows "\<exists>st' b. message_received p af try_send now now' m st = Ok st' \<and> db_ok (database st') \<and>
    links (database st') = links (database st) \<and>
    item_bag (interfaces (database st')) = add_mset b (item_bag (interfaces (database st)) - {#a#}) \<and>
    item_id b = item_id a \<and> status b = (status a)\<lparr>status_addresses := sorted_list_of_multiset xs\<rparr> \<and>
    subscribers st' = subscribers st \<and> channels st' = channels st"
proof -
  from assms(2,4) have sorted: "sorted (status_addresses (status a))" by (auto simp: database_typed_def interface_typed_def)
  define change where "change = (if payload m = InnerMessage (NewAddress msg) then \<lambda>known. sort (known @ [address]) else remove1 address)"
  have "mset (change (status_addresses (status a))) = xs" "sorted (change (status_addresses (status a)))"
    using assms(7) sorted by (auto simp: change_def sorted_remove1)
  then have "change (status_addresses (status a)) = sorted_list_of_multiset xs"
    by (metis sorted_list_of_multiset_mset sorted_sort_id)
  moreover have "message_received p af try_send now now' m st = with_addresses now change index st"
    using assms(6,7) by (auto simp: message_received_def change_def new_address_def del_address_def)
  ultimately show ?thesis
    using with_addresses_replaces [OF assms(1,3-5), of now change] by (auto simp: NetworkStatusItem_new_def)
qed

text \<open>An address announced and then withdrawn leaves every link and every interface with the
  identifier and the status it had, whether the address was already there or not.\<close>

theorem address_round_trip:
  assumes "db_ok (database st)" "database_typed (database st)" "unat (next_index (interfaces (database st))) + 2 < 2 ^ 64"
    and "a \<in># item_bag (interfaces (database st))" "net_id (item_id a) = Some index"
    and "process_address af msg = Some (index, address)"
    and "payload m = InnerMessage (NewAddress msg)" "payload m' = InnerMessage (DelAddress msg)"
  shows "\<exists>st1 st2. message_received p af try_send t1 t1' m st = Ok st1 \<and>
    message_received p af try_send t2 t2' m' st1 = Ok st2 \<and> links (database st2) = links (database st) \<and>
    image_mset (\<lambda>b. (item_id b, status b)) (item_bag (interfaces (database st2))) =
    image_mset (\<lambda>b. (item_id b, status b)) (item_bag (interfaces (database st)))"
proof -
  let ?n = "next_index (interfaces (database st))" and ?xs = "status_addresses (status a)"
  have sorted: "sorted ?xs" using assms(2,4) by (auto simp: database_typed_def interface_typed_def)
  have n: "?n \<noteq> - 1" "?n + 1 \<noteq> - 1"
    using assms(3) by (auto simp: word_unat_eq_iff unat_plus_no_overflow unsigned_minus_1_eq_mask mask_eq_exp_minus_1)
  obtain st1 where 1: "message_received p af try_send t1 t1' m st = Ok st1" "db_ok (database st1)"
      "links (database st1) = links (database st)" "next_index (interfaces (database st1)) = ?n + 1"
      "item_bag (interfaces (database st1)) =
         add_mset (NetworkStatusItem_new t1 (item_id a) ((status a)\<lparr>status_addresses := sort (?xs @ [address])\<rparr>))
           (item_bag (interfaces (database st)) - {#a#})"
    using with_addresses_replaces [OF assms(1) n(1) assms(4,5), of t1 "\<lambda>known. sort (known @ [address])"] assms(6,7)
    by (auto simp: message_received_def new_address_def)
  let ?b = "NetworkStatusItem_new t1 (item_id a) ((status a)\<lparr>status_addresses := sort (?xs @ [address])\<rparr>)"
  have b: "?b \<in># item_bag (interfaces (database st1))" "net_id (item_id ?b) = Some index"
    using 1(5) assms(5) by (simp_all add: NetworkStatusItem_new_def)
  have same: "remove1 address (sort (?xs @ [address])) = ?xs"
  proof -
    have "mset (remove1 address (sort (?xs @ [address]))) = mset ?xs" by simp
    moreover have "sorted (remove1 address (sort (?xs @ [address])))" by (simp add: sorted_remove1)
    ultimately show ?thesis using sorted by (metis properties_for_sort sorted_sort_id)
  qed
  obtain st2 where 2: "message_received p af try_send t2 t2' m' st1 = Ok st2" "links (database st2) = links (database st1)"
      "item_bag (interfaces (database st2)) =
         add_mset (NetworkStatusItem_new t2 (item_id ?b) ((status ?b)\<lparr>status_addresses := remove1 address (status_addresses (status ?b))\<rparr>))
           (item_bag (interfaces (database st1)) - {#?b#})"
    using with_addresses_replaces [OF 1(2) n(2) [folded 1(4)] b, of t2 "remove1 address"] assms(6,8)
    by (auto simp: message_received_def del_address_def)
  obtain M where M: "item_bag (interfaces (database st)) = add_mset a M" using assms(4) by (meson multi_member_split)
  have "image_mset (\<lambda>b. (item_id b, status b)) (item_bag (interfaces (database st2))) =
    image_mset (\<lambda>b. (item_id b, status b)) (item_bag (interfaces (database st)))"
    unfolding 2(3) 1(5) M by (simp add: NetworkStatusItem_new_def same)
  with 1(1,3) 2(1,2) show ?thesis by (intro exI [of _ st1] exI [of _ st2]) simp
qed

section \<open>What the subscribers are told\<close>

lemma send_all_capacity:
  assumes "bounded_channel try_send queue capacity" "send_all try_send s ms ch = (sent, ch')"
  shows "capacity ch' = capacity ch"
  using assms(2)
proof (induction ms arbitrary: ch)
  case (Cons m ms)
  obtain now ch1 where 1: "try_send s m ch = (now, ch1)" by fastforce
  with assms(1) have "capacity ch1 = capacity ch" unfolding bounded_channel_def by blast
  with Cons 1 show ?case by (cases now) auto
qed simp

lemma retain_capacity:
  assumes "bounded_channel try_send queue capacity" "retain_subscribers try_send ms subs ch = (kept, ch')"
  shows "capacity ch' = capacity ch"
  using assms(2)
proof (induction subs arbitrary: ch kept)
  case (Cons s subs)
  obtain sent ch1 where 1: "send_all try_send s ms ch = (sent, ch1)" by fastforce
  obtain k1 where "retain_subscribers try_send ms subs ch1 = (k1, ch')"
    using Cons.prems 1 by (auto simp: Let_def split: prod.splits)
  from Cons.IH [OF this] send_all_capacity [OF assms(1) 1] show ?case by simp
qed simp

text \<open>Two rounds of updates are as one: whoever is dropped in the first has a full queue.\<close>

lemma retain_twice:
  assumes "bounded_channel try_send queue capacity" "distinct subs" "\<And>s. length (queue ch s) \<le> capacity ch s"
    and "retain_subscribers try_send ms subs ch = (k1, ch1)" "retain_subscribers try_send ms' k1 ch1 = (k2, ch2)"
  shows "k2 = filter (\<lambda>s. length (queue ch s) + length (ms @ ms') \<le> capacity ch s) subs \<and>
    (\<forall>s. queue ch2 s = (if s \<in> set subs then take (capacity ch s) (queue ch s @ ms @ ms') else queue ch s))"
proof -
  from retain_subscribers_bounded [OF assms(1,4,2,3)] have
    1: "k1 = filter (\<lambda>s. length (queue ch s) + length ms \<le> capacity ch s) subs"
      "\<And>s. queue ch1 s = (if s \<in> set subs then take (capacity ch s) (queue ch s @ ms) else queue ch s)" by auto
  have cap: "capacity ch1 = capacity ch" by (rule retain_capacity [OF assms(1,4)])
  have room: "length (queue ch1 s) \<le> capacity ch1 s" for s
    using assms(3) [of s] by (auto simp: 1(2) cap)
  have "distinct k1" using assms(2) 1(1) by simp
  from retain_subscribers_bounded [OF assms(1,5) this room] have
    2: "k2 = filter (\<lambda>s. length (queue ch1 s) + length ms' \<le> capacity ch1 s) k1"
      "\<And>s. queue ch2 s = (if s \<in> set k1 then take (capacity ch1 s) (queue ch1 s @ ms') else queue ch1 s)" by auto
  have "k2 = filter (\<lambda>s. length (queue ch s) + length (ms @ ms') \<le> capacity ch s) subs"
    unfolding 2(1) 1(1) filter_filter by (intro filter_cong) (auto simp: 1(2) cap)
  moreover have "queue ch2 s = (if s \<in> set subs then take (capacity ch s) (queue ch s @ ms @ ms') else queue ch s)" for s
    using assms(3) [of s] by (auto simp: 2(2) 1 cap)
  ultimately show ?thesis by blast
qed

lemma new_link_told:
  assumes "db_ok (database st)" "new_link try_send now now' (index, s) st = Ok st'"
    and "retain_subscribers try_send [LinkUpdate s] (subscribers st) (channels st) = (kept, ch)"
  shows "(case interface_on_link index (reported_link now index s) (database st) of
      None \<Rightarrow> (kept, ch)
    | Some a \<Rightarrow> retain_subscribers try_send [InterfaceUpdate ((status a)\<lparr>network_link_status := s\<rparr>)] kept ch)
    = (subscribers st', channels st')"
proof -
  from assms(2) obtain db d where db: "set_link_status_item (reported_link now index s) (database st) = Ok (db, d)"
    by (auto simp: new_link_def reported_link_def Let_def obind_eq_Ok)
  note on = interface_on_link_frame [OF link_frame(1) [OF db], of index]
  from assms(2,3) db show ?thesis
    unfolding new_link_def reported_link_def [symmetric] Let_def prod.case
    by (auto simp: on obind_eq_Ok split_def split: option.splits)
qed

text \<open>C39: On bounded channels a \<open>NewLink\<close> notification that reports a link returns, and sends every subscriber the
  link's status and then, when an interface is on the link, the interface's new status; it keeps
  exactly the subscribers that had room for all of it.\<close>

theorem new_link_updates:
  assumes "db_ok (database st)" "counters_free (database st)"
    and "bounded_channel try_send queue capacity" "distinct (subscribers st)"
    and "\<And>t. length (queue (channels st) t) \<le> capacity (channels st) t"
    and "payload m = InnerMessage (NewLink msg)" "process_link p msg = Some (index, s)"
  shows "\<exists>st' told. message_received p af try_send now now' m st = Ok st' \<and>
    (told = [] \<and> (\<forall>a \<in># item_bag (interfaces (database st)). \<not> concerns index (status_device s) a) \<or>
        (\<exists>a \<in># item_bag (interfaces (database st)). concerns index (status_device s) a \<and>
           told = [InterfaceUpdate ((status a)\<lparr>network_link_status := s\<rparr>)])) \<and>
    subscribers st' = filter (\<lambda>t. length (queue (channels st) t) + Suc (length told) \<le> capacity (channels st) t) (subscribers st) \<and>
    (\<forall>t. queue (channels st') t =
       (if t \<in> set (subscribers st) then take (capacity (channels st) t) (queue (channels st) t @ LinkUpdate s # told)
        else queue (channels st) t))"
proof -
  obtain kept ch where r: "retain_subscribers try_send [LinkUpdate s] (subscribers st) (channels st) = (kept, ch)" by fastforce
  from new_link_Ok [OF assms(1,2), of try_send now now' index s] obtain st' where
    st': "new_link try_send now now' (index, s) st = Ok st'" by blast
  then have run: "message_received p af try_send now now' m st = Ok st'"
    using assms(6,7) by (simp add: message_received_def)
  note told = new_link_told [OF assms(1) st' r]
  show ?thesis
  proof (cases "interface_on_link index (reported_link now index s) (database st)")
    case None
    have "\<forall>a \<in># item_bag (interfaces (database st)). \<not> concerns index (status_device s) a"
      using None interface_on_link_concerns [OF assms(1)] by (metis link_named_reported(2) option.distinct(1))
    with retain_subscribers_bounded [OF assms(3) r assms(4,5)] told None run show ?thesis
      by (intro exI [of _ st'] exI [of _ "[]"]) auto
  next
    case (Some a)
    have "a \<in># item_bag (interfaces (database st)) \<and> concerns index (status_device s) a"
      using Some interface_on_link_concerns [OF assms(1)] by simp
    moreover have "retain_subscribers try_send [InterfaceUpdate ((status a)\<lparr>network_link_status := s\<rparr>)] kept ch
        = (subscribers st', channels st')"
      using told Some by simp
    note retain_twice [OF assms(3-5) r this]
    ultimately show ?thesis using run
      by (intro exI [of _ st'] exI [of _ "[InterfaceUpdate ((status a)\<lparr>network_link_status := s\<rparr>)]"]) auto
  qed
qed

section \<open>What every notification keeps\<close>

lemma items_all_put:
  assumes "items_all P Q db" "db_ok db"
  shows "set_link_status_item x db = Ok (db', d) \<Longrightarrow> P x \<Longrightarrow> db_ok db' \<and> items_all P Q db'"
    and "set_interface_status_item y db = Ok (db', d') \<Longrightarrow> Q y \<Longrightarrow> db_ok db' \<and> items_all P Q db'"
    and "remove_link_status_item i db e = (db', d) \<Longrightarrow> db_ok db' \<and> items_all P Q db'"
    and "remove_interface_status_item i db e' = (db', d') \<Longrightarrow> db_ok db' \<and> items_all P Q db'"
proof -
  note all = assms(1) [unfolded items_all_def]
  show "db_ok db' \<and> items_all P Q db'" if "set_link_status_item x db = Ok (db', d)" "P x"
    using link_store.put_Ok [OF assms(2) that(1)] link_frame(1) [OF that(1)] that(2) all
    by (auto simp: items_all_def put_item_def)
  show "db_ok db' \<and> items_all P Q db'" if "set_interface_status_item y db = Ok (db', d')" "Q y"
    using interface_store.put_Ok [OF assms(2) that(1)] interface_frame(1) [OF that(1)] that(2) all
    by (auto simp: items_all_def put_item_def)
  show "db_ok db' \<and> items_all P Q db'" if "remove_link_status_item i db e = (db', d)"
    using link_store.delete_law [OF assms(2) that] link_frame(2) [OF that] all
    by (auto simp: items_all_def)
  show "db_ok db' \<and> items_all P Q db'" if "remove_interface_status_item i db e' = (db', d')"
    using interface_store.delete_law [OF assms(2) that] interface_frame(2) [OF that] all
    by (auto simp: items_all_def)
qed

lemma new_link_all:
  assumes "db_ok (database st)" "items_all P Q (database st)" "new_link try_send now now' (index, s) st = Ok st'"
    and "P (reported_link now index s)"
    and "\<And>a. Q a \<Longrightarrow> concerns index (status_device s) a \<Longrightarrow> Q (interface_with_link now' (Some index) a (reported_link now index s))"
  shows "db_ok (database st') \<and> items_all P Q (database st')"
proof -
  let ?l = "reported_link now index s"
  from assms(3) obtain db d where db: "set_link_status_item ?l (database st) = Ok (db, d)"
    by (auto simp: new_link_def reported_link_def Let_def obind_eq_Ok)
  have 1: "db_ok db" "items_all P Q db" using items_all_put(1) [where P = P and Q = Q, OF assms(2,1) db assms(4)] by simp_all
  have "database st' = db \<or> (\<exists>a d'. interface_on_link index ?l db = Some a \<and>
      set_interface_status_item (interface_with_link now' (Some index) a ?l) db = Ok (database st', d'))"
    using assms(3) db unfolding new_link_def reported_link_def [symmetric] Let_def prod.case
    by (auto simp: obind_eq_Ok split_def split: option.splits)
  then show ?thesis
  proof (elim disjE exE conjE)
    fix a d'
    assume *: "interface_on_link index ?l db = Some a"
      "set_interface_status_item (interface_with_link now' (Some index) a ?l) db = Ok (database st', d')"
    then have "Q (interface_with_link now' (Some index) a ?l)"
      using interface_on_link_concerns [OF 1(1)] 1(2) by (intro assms(5)) (simp_all add: items_all_def)
    with items_all_put(2) [where P = P and Q = Q, OF 1(2,1) *(2)] show ?thesis by blast
  qed (use 1 in simp)
qed

lemma del_link_all:
  assumes "db_ok (database st)" "items_all P Q (database st)" "del_link now now' (index, s) st = Ok st'"
    and "link_name s \<noteq> None \<Longrightarrow> P (gone_link now s)"
    and "\<And>a. Q a \<Longrightarrow> concerns index (status_device s) a \<Longrightarrow> interface_name (status a) \<noteq> None \<Longrightarrow>
      Q (interface_with_link now' None a (gone_link now s))"
  shows "db_ok (database st') \<and> items_all P Q (database st')"
proof -
  let ?l = "gone_link now s"
  from assms(3) obtain db where db: "(case net_name (item_id ?l) of
       Some _ \<Rightarrow> obind (set_link_status_item ?l (database st)) (\<lambda>(db, deleted). Ok (db, ?l))
     | None \<Rightarrow> let (db, deleted_items) = remove_link_status_item (item_id ?l) (database st) [] in Ok (db, ?l)) = Ok (db, ?l)"
      "(case interface_on_link index ?l db of
           None \<Rightarrow> Ok (st\<lparr>database := db\<rparr>)
         | Some a \<Rightarrow> drop_interface (interface_with_link now' None a ?l) st db) = Ok st'"
    by (auto simp: del_link_eq obind_eq_Ok Let_def split: option.splits prod.splits)
  have 1: "db_ok db" "items_all P Q db"
    using db(1) items_all_put(1,3) [where P = P and Q = Q, OF assms(2,1)] assms(4)
    by (auto simp: obind_eq_Ok Let_def split: option.splits prod.splits)
  show ?thesis
  proof (cases "interface_on_link index ?l db")
    case (Some a)
    then have "interface_name (status a) \<noteq> None \<Longrightarrow> Q (interface_with_link now' None a ?l)"
      using interface_on_link_concerns [OF 1(1)] 1(2) by (intro assms(5)) (simp_all add: items_all_def)
    with db(2) Some items_all_put(2,4) [where P = P and Q = Q, OF 1(2,1)] show ?thesis
      by (auto simp: drop_interface_def obind_eq_Ok Let_def CanonicalNetworkId_new_def split: option.splits prod.splits)
  qed (use db(2) 1 in auto)
qed

lemma with_addresses_all:
  assumes "db_ok (database st)" "items_all P Q (database st)" "with_addresses now change index st = Ok st'"
    and "\<And>a. Q a \<Longrightarrow> Q (NetworkStatusItem_new now (item_id a) ((status a)\<lparr>status_addresses := change (status_addresses (status a))\<rparr>))"
  shows "db_ok (database st') \<and> items_all P Q (database st')"
proof (cases "get_interface_status_item_by_device_index index (database st)")
  case (Some a)
  then have a: "Q a"
    using device_index_lookup [OF assms(1)] assms(2) by (auto simp: items_all_def)
  have same: "\<lparr>interface_name = interface_name (status a), status_addresses = change (status_addresses (status a)),
       network_link_status = network_link_status (status a)\<rparr> = (status a)\<lparr>status_addresses := change (status_addresses (status a))\<rparr>"
    by simp
  obtain d where
    "set_interface_status_item (NetworkStatusItem_new now (item_id a) ((status a)\<lparr>status_addresses := change (status_addresses (status a))\<rparr>))
       (database st) = Ok (database st', d)"
    using assms(3) Some by (auto simp: with_addresses_def Let_def obind_eq_Ok same)
  with items_all_put(2) [where P = P and Q = Q, OF assms(2,1)] assms(4) [OF a] show ?thesis by blast
qed (use assms in \<open>simp add: with_addresses_def\<close>)

text \<open>What holds of all items before a notification and of those that it makes holds of all afterwards.\<close>

lemma message_received_all:
  assumes "db_ok (database st)" "items_all P Q (database st)" "message_received p af try_send now now' m st = Ok st'"
    and "\<And>msg index s. process_link p msg = Some (index, s) \<Longrightarrow> P (reported_link now index s)"
    and "\<And>msg index s. process_link p msg = Some (index, s) \<Longrightarrow> link_name s \<noteq> None \<Longrightarrow> P (gone_link now s)"
    and "\<And>msg index s a. process_link p msg = Some (index, s) \<Longrightarrow> Q a \<Longrightarrow> concerns index (status_device s) a \<Longrightarrow>
      Q (interface_with_link now' (Some index) a (reported_link now index s))"
    and "\<And>msg index s a. process_link p msg = Some (index, s) \<Longrightarrow> Q a \<Longrightarrow> concerns index (status_device s) a \<Longrightarrow>
      interface_name (status a) \<noteq> None \<Longrightarrow> Q (interface_with_link now' None a (gone_link now s))"
    and "\<And>a address. Q a \<Longrightarrow> Q (NetworkStatusItem_new now (item_id a)
        ((status a)\<lparr>status_addresses := sort (status_addresses (status a) @ [address])\<rparr>))"
    and "\<And>a address. Q a \<Longrightarrow> Q (NetworkStatusItem_new now (item_id a)
        ((status a)\<lparr>status_addresses := remove1 address (status_addresses (status a))\<rparr>))"
  shows "db_ok (database st') \<and> items_all P Q (database st')"
proof -
  have "st' = st \<or>
      (\<exists>msg index s. process_link p msg = Some (index, s) \<and> new_link try_send now now' (index, s) st = Ok st') \<or>
      (\<exists>msg index s. process_link p msg = Some (index, s) \<and> del_link now now' (index, s) st = Ok st') \<or>
      (\<exists>index address. with_addresses now (\<lambda>known. sort (known @ [address])) index st = Ok st') \<or>
      (\<exists>index address. with_addresses now (remove1 address) index st = Ok st')"
    using assms(3)
    by (fastforce simp: message_received_def new_address_def del_address_def
        split: NetlinkPayload.splits RtnlMessage.splits option.splits)
  then show ?thesis
    using assms(1,2,4-9) new_link_all [where P = P and Q = Q, OF assms(1,2)] del_link_all [where P = P and Q = Q, OF assms(1,2)]
      with_addresses_all [where P = P and Q = Q, OF assms(1,2)]
    by (elim disjE exE conjE) metis+
qed

lemma interface_named_link:
  assumes "interface_typed a" "concerns index (status_device (status link)) a"
    and "index' = None \<or> index' = Some index \<and> operational_state (status link) \<notin> {NotFound, Misconfigured}"
  shows "interface_typed (interface_with_link now index' a link)"
  using assms by (auto simp: concerns_def interface_typed_def CanonicalNetworkId_new_def)

lemma interface_named_addresses:
  "interface_typed a \<Longrightarrow> sorted xs \<Longrightarrow> interface_typed (NetworkStatusItem_new now (item_id a) ((status a)\<lparr>status_addresses := xs\<rparr>))"
  by (auto simp: interface_typed_def NetworkStatusItem_new_def split: option.splits)

lemma message_received_keeps:
  assumes "db_ok (database st)" "database_typed (database st)" "message_received p af try_send now now' m st = Ok st'"
  shows "db_ok (database st') \<and> database_typed (database st')"
  unfolding database_named_items
proof (rule message_received_all [OF assms(1) _ assms(3)])
  show "interface_typed (NetworkStatusItem_new now (item_id a) ((status a)\<lparr>status_addresses := remove1 address (status_addresses (status a))\<rparr>))"
    if "interface_typed a" for a address
    using that by (intro interface_named_addresses) (auto simp: interface_typed_def sorted_remove1)
  show "interface_typed (interface_with_link now' (Some index) a (reported_link now index s))"
    if "process_link p msg = Some (index, s)" "interface_typed a" "concerns index (status_device s) a" for msg index s a
    using that(2,3) reported_link_state [OF that(1)] by (intro interface_named_link) simp_all
  show "link_typed (reported_link now index s)" if "process_link p msg = Some (index, s)" for msg index s
    using reported_link_state [OF that] by simp
qed (use assms(2) in \<open>simp_all add: database_named_items interface_named_link interface_named_addresses\<close>)

section \<open>The numbers of the items\<close>

text \<open>Each notification takes at most one number of each table.\<close>

definition counters_below :: "nat \<Rightarrow> InterfaceManagerDatabase \<Rightarrow> bool" where
  "counters_below k db \<longleftrightarrow> unat (next_index (links db)) + k < 2 ^ 64 \<and> unat (next_index (interfaces db)) + k < 2 ^ 64"

lemma counter_free: "unat (n :: u64) + Suc k < 2 ^ 64 \<Longrightarrow> n \<noteq> - 1"
  by (auto simp: unsigned_minus_1_eq_mask mask_eq_exp_minus_1)

lemma counter_next: "unat (n :: u64) + Suc k < 2 ^ 64 \<Longrightarrow> unat (n + 1) + k < 2 ^ 64"
  by (simp add: unat_plus_no_overflow)

lemma counters_below_free: "counters_below (Suc k) db \<Longrightarrow> counters_free db"
  using counter_free unfolding counters_below_def counters_free_def by blast

context item_store
begin

lemma put_counter:
  assumes "ok s" "put item s = Ok (s', deleted)"
  shows "ok s' \<and> counter s' = counter s + 1 \<and> rest s' = rest s"
  using put_law [OF assms(1), of item] put_rest [OF assms(2)] assms(2) by auto

lemma delete_counter:
  assumes "ok s" "delete_on i s deleted = (s', d)"
  shows "ok s' \<and> counter s' = counter s \<and> rest s' = rest s"
  using delete_law [OF assms] delete_rest [OF assms(2)] by blast

end

lemma new_link_counters:
  assumes "db_ok (database st)" "counters_below (Suc k) (database st)" "new_link try_send now now' (index, s) st = Ok st'"
  shows "counters_below k (database st')"
proof -
  let ?l = "reported_link now index s"
  from assms(3) obtain db d where db: "set_link_status_item ?l (database st) = Ok (db, d)"
    by (auto simp: new_link_def reported_link_def Let_def obind_eq_Ok)
  note 1 = link_store.put_counter [OF assms(1) db]
  have "database st' = db \<or> (\<exists>y d'. set_interface_status_item y db = Ok (database st', d'))"
    using assms(3) db unfolding new_link_def reported_link_def [symmetric] Let_def prod.case
    by (auto simp: obind_eq_Ok split_def split: option.splits)
  then show ?thesis
    using 1 interface_store.put_counter [of db] assms(2) counter_next by (auto simp: counters_below_def)
qed

lemma del_link_counters:
  assumes "db_ok (database st)" "counters_below (Suc k) (database st)" "del_link now now' (index, s) st = Ok st'"
  shows "counters_below k (database st')"
proof -
  let ?l = "gone_link now s"
  from assms(3) obtain db where db: "(case net_name (item_id ?l) of
       Some _ \<Rightarrow> obind (set_link_status_item ?l (database st)) (\<lambda>(db, deleted). Ok (db, ?l))
     | None \<Rightarrow> let (db, deleted_items) = remove_link_status_item (item_id ?l) (database st) [] in Ok (db, ?l)) = Ok (db, ?l)"
      "(case interface_on_link index ?l db of
           None \<Rightarrow> Ok (st\<lparr>database := db\<rparr>)
         | Some a \<Rightarrow> drop_interface (interface_with_link now' None a ?l) st db) = Ok st'"
    by (auto simp: del_link_eq obind_eq_Ok Let_def split: option.splits prod.splits)
  have 1: "db_ok db" "interfaces db = interfaces (database st)"
      "next_index (links db) = next_index (links (database st)) \<or> next_index (links db) = next_index (links (database st)) + 1"
    using db(1) link_store.put_counter [OF assms(1)] link_store.delete_counter [OF assms(1)]
    by (auto simp: obind_eq_Ok Let_def split: option.splits prod.splits)
  have 2: "links (database st') = links db \<and> (next_index (interfaces (database st')) = next_index (interfaces db) \<or>
      next_index (interfaces (database st')) = next_index (interfaces db) + 1)"
    using db(2) interface_store.put_counter [OF 1(1)] interface_store.delete_counter [OF 1(1)]
    by (auto simp: drop_interface_def obind_eq_Ok Let_def split: option.splits prod.splits)
  show ?thesis
    using 1(2,3) 2 assms(2) counter_next by (auto simp: counters_below_def)
qed

lemma with_addresses_counters:
  assumes "db_ok (database st)" "counters_below (Suc k) (database st)" "with_addresses now change index st = Ok st'"
  shows "counters_below k (database st')"
  using assms interface_store.put_counter [OF assms(1)] counter_next
  by (auto simp: with_addresses_def Let_def obind_eq_Ok counters_below_def split: option.splits)

lemma notification_returns:
  assumes "db_ok (database st)" "database_typed (database st)" "counters_below (Suc k) (database st)"
  shows "\<exists>st'. message_received p af try_send now now' m st = Ok st' \<and>
    db_ok (database st') \<and> database_typed (database st') \<and> counters_below k (database st')"
proof -
  note free = counters_below_free [OF assms(3)]
  have same: "counters_below k (database st)" using assms(3) by (auto simp: counters_below_def)
  have "\<exists>st'. message_received p af try_send now now' m st = Ok st' \<and> counters_below k (database st')"
    using new_link_Ok [OF assms(1) free, of try_send now now'] del_link_Ok [OF assms(1) free, of now now']
      with_addresses_Ok [OF assms(1), of now] free same
      new_link_counters [OF assms(1,3), of try_send now now'] del_link_counters [OF assms(1,3), of now now']
      with_addresses_counters [OF assms(1,3), of now]
    by (fastforce simp: message_received_def new_address_def del_address_def counters_free_def
        split: NetlinkPayload.split RtnlMessage.split option.split)
  with message_received_keeps [OF assms(1,2)] show ?thesis by metis
qed

text \<open>Any \<open>k\<close> notifications are handled without a panic when the counters are \<open>k\<close> below their end.\<close>

lemma notifications_return:
  assumes "db_ok (database st)" "database_typed (database st)" "counters_below (length ms) (database st)"
  shows "\<exists>st'. ofold (\<lambda>(now, now', m). message_received p af try_send now now' m) ms st = Ok st' \<and>
    db_ok (database st') \<and> database_typed (database st')"
  using assms
proof (induction ms arbitrary: st)
  case (Cons x ms)
  obtain now now' m where x: "x = (now, now', m)" by (cases x)
  from notification_returns [OF Cons.prems(1,2), of "length ms"] Cons.prems(3) obtain st1 where
    1: "message_received p af try_send now now' m st = Ok st1" "db_ok (database st1)" "database_typed (database st1)"
      "counters_below (length ms) (database st1)" by fastforce
  from Cons.IH [OF 1(2-4)] show ?case by (simp add: x 1(1))
qed simp

section \<open>The manager as a state machine\<close>

text \<open>
  \<open>running\<close> is the flag shared with the worker; \<open>scanning\<close> is false once the worker's loop has
  ended. The first scan is part of \<open>InterfaceManager::new\<close>; each later one is a tick of the worker.
\<close>

record ('sub, 'ch) interface_manager =
  running :: bool
  scanning :: bool
  shared :: "('sub, 'ch) manager"

definition InterfaceManager_new ::
  "unit router_result \<Rightarrow> order_choice \<Rightarrow> poll_env \<Rightarrow> Router \<Rightarrow> ('sub, 'ch) sender \<Rightarrow>
   NetlinkMessage list router_result \<Rightarrow> NetlinkMessage list router_result \<Rightarrow> 'ch \<Rightarrow>
   ('sub, 'ch) interface_manager router_result" where
  "InterfaceManager_new create_socket f env config try_send link_reply address_reply ch =
     (let p = NetlinkMessageProcessor_new f config in
      obind create_socket (\<lambda>_.
      obind (poll env config p try_send link_reply address_reply (manager_new ch)) (\<lambda>st.
      Ok \<lparr>running = True, scanning = True, shared = st\<rparr>)))"

definition worker_tick ::
  "poll_env \<Rightarrow> Router \<Rightarrow> NetlinkMessageProcessor \<Rightarrow> ('sub, 'ch) sender \<Rightarrow>
   NetlinkMessage list router_result \<Rightarrow> NetlinkMessage list router_result \<Rightarrow>
   ('sub, 'ch) interface_manager \<Rightarrow> ('sub, 'ch) interface_manager router_result" where
  "worker_tick env config p try_send link_reply address_reply m =
     (if running m
      then obind (poll env config p try_send link_reply address_reply (shared m)) (\<lambda>st. Ok (m\<lparr>shared := st\<rparr>))
      else Ok (m\<lparr>scanning := False\<rparr>))"

definition drop_manager :: "('sub, 'ch) interface_manager \<Rightarrow> ('sub, 'ch) interface_manager" where
  "drop_manager m = m\<lparr>running := False\<rparr>"

text \<open>
  What can happen to a manager: a tick of the worker with the kernel's two answers, a notification,
  a subscription, and the drop.
\<close>

datatype 'sub manager_event =
    Tick poll_env "NetlinkMessage list router_result" "NetlinkMessage list router_result"
  | Notified instant instant NetlinkMessage
  | Subscribed 'sub
  | Dropped

inductive manager_step ::
  "Router \<Rightarrow> NetlinkMessageProcessor \<Rightarrow> address_families \<Rightarrow> ('sub, 'ch) sender \<Rightarrow> 'sub manager_event \<Rightarrow>
   ('sub, 'ch) interface_manager \<Rightarrow> ('sub, 'ch) interface_manager \<Rightarrow> bool"
  for config p af try_send where
  step_tick: "scanning m \<Longrightarrow> worker_tick env config p try_send link_reply address_reply m = Ok m' \<Longrightarrow>
    manager_step config p af try_send (Tick env link_reply address_reply) m m'"
| step_notified: "message_received p af try_send now now' message (shared m) = Ok st' \<Longrightarrow>
    manager_step config p af try_send (Notified now now' message) m (m\<lparr>shared := st'\<rparr>)"
| step_subscribed: "running m \<Longrightarrow>
    manager_step config p af try_send (Subscribed s) m (m\<lparr>shared := subscribe s (shared m)\<rparr>)"
| step_dropped: "running m \<Longrightarrow> manager_step config p af try_send Dropped m (drop_manager m)"

inductive_cases manager_stepE: "manager_step config p af try_send e m m'"

inductive_simps manager_step_Tick: "manager_step config p af try_send (Tick env link_reply address_reply) m m'"

text \<open>The states of a manager with a configuration: whatever the kernel, the clock, the iteration
  orders and the channels do, and in whatever order the events come.\<close>

inductive manager_reach ::
  "Router \<Rightarrow> address_families \<Rightarrow> ('sub, 'ch) sender \<Rightarrow> ('sub, 'ch) interface_manager \<Rightarrow> bool"
  for config af try_send where
  reach_new: "InterfaceManager_new create_socket f env config try_send link_reply address_reply ch = Ok m \<Longrightarrow>
    manager_reach config af try_send m"
| reach_step: "manager_reach config af try_send m \<Longrightarrow>
    manager_step config (NetlinkMessageProcessor_new f config) af try_send e m m' \<Longrightarrow>
    manager_reach config af try_send m'"

text \<open>What holds of the first database and is kept by scans and notifications holds in every history.\<close>

lemma manager_reach_keeps:
  assumes "manager_reach config af try_send m" "I InterfaceManagerDatabase_new"
    and scan: "\<And>f env link_reply address_reply st st'. I (database st) \<Longrightarrow>
      poll env config (NetlinkMessageProcessor_new f config) try_send link_reply address_reply st = Ok st' \<Longrightarrow> I (database st')"
    and notified: "\<And>f now now' message st st'. I (database st) \<Longrightarrow>
      message_received (NetlinkMessageProcessor_new f config) af try_send now now' message st = Ok st' \<Longrightarrow> I (database st')"
  shows "I (database (shared m))"
  using assms(1)
proof (induction rule: manager_reach.induct)
  case (reach_new create_socket f env link_reply address_reply ch m)
  then obtain st where
    "poll env config (NetlinkMessageProcessor_new f config) try_send link_reply address_reply (manager_new ch) = Ok st" "shared m = st"
    by (auto simp: InterfaceManager_new_def obind_eq_Ok)
  with scan [of "manager_new ch"] assms(2) show ?case by (simp add: manager_new_def)
next
  case (reach_step m f e m')
  from reach_step.hyps(2) show ?case
  proof (elim manager_stepE)
    fix env link_reply address_reply
    assume "worker_tick env config (NetlinkMessageProcessor_new f config) try_send link_reply address_reply m = Ok m'"
    with scan [OF reach_step.IH] reach_step.IH show ?thesis
      by (auto simp: worker_tick_def obind_eq_Ok split: if_splits)
  qed (use notified [OF reach_step.IH] reach_step.IH in \<open>simp_all add: subscribe_def drop_manager_def\<close>)
qed

lemma manager_reach_ok:
  assumes "manager_reach config af try_send m"
  shows "db_ok (database (shared m)) \<and> database_typed (database (shared m))"
proof (rule manager_reach_keeps [where I = "\<lambda>db. db_ok db \<and> database_typed db", OF assms])
  show "db_ok InterfaceManagerDatabase_new \<and> database_typed InterfaceManagerDatabase_new"
    by simp (simp add: database_typed_def InterfaceManagerDatabase_new_def)
qed (use poll_keeps message_received_keeps in blast)+

section \<open>Listings\<close>

lemma distinct_if_pairs:
  "(\<And>a b M. mset xs = add_mset a (add_mset b M) \<Longrightarrow> h a \<noteq> h b) \<Longrightarrow> distinct (map h xs)"
proof (induction xs)
  case (Cons x xs)
  have "distinct (map h xs)"
  proof (rule Cons.IH)
    fix a b M
    assume "mset xs = add_mset a (add_mset b M)"
    with Cons.prems [of a b "add_mset x M"] show "h a \<noteq> h b" by (simp add: add_mset_commute)
  qed
  moreover have "h x \<noteq> h y" if y: "y \<in> set xs" for y
  proof -
    obtain M where "mset xs = add_mset y M" using y by (metis multi_member_split set_mset_mset)
    with Cons.prems [of x y M] show ?thesis by simp
  qed
  ultimately show ?case by auto
qed simp

lemma listing_distinct:
  assumes "\<And>a b M. item_bag t = add_mset a (add_mset b M) \<Longrightarrow> P (status a) \<Longrightarrow> P (status b) \<Longrightarrow> h (status a) \<noteq> h (status b)"
  shows "distinct (map h (filter P (list_status f get_name t)))"
proof (rule distinct_if_pairs)
  fix u v M
  assume "mset (filter P (list_status f get_name t)) = add_mset u (add_mset v M)"
  then have *: "image_mset status (filter_mset (\<lambda>a. P (status a)) (item_bag t)) = add_mset u (add_mset v M)"
    by (simp add: list_status_sorted(2) filter_mset_image_mset)
  then obtain a N where a: "filter_mset (\<lambda>a. P (status a)) (item_bag t) = add_mset a N" "status a = u"
      "image_mset status N = add_mset v M"
    by (auto dest!: msed_map_invR)
  then obtain b N' where b: "N = add_mset b N'" "status b = v" by (auto dest!: msed_map_invR)
  from a(1) b(1) have "add_mset a (add_mset b N') \<subseteq># item_bag t" by (metis multiset_filter_subset)
  then obtain K where "item_bag t = add_mset a (add_mset b K)" by (metis mset_subset_eq_exists_conv union_mset_add_mset_left)
  moreover have "P (status a)" "P (status b)"
    using a(1) b(1) by (metis filter_mset_eq_conv union_single_eq_member insertI2 set_mset_add_mset_insert insertI1 set_mset_filter mem_Collect_eq)+
  ultimately show "h u \<noteq> h v" using assms a(2) b(2) by metis
qed

text \<open>Items of a consistent database share neither a name nor a device, so their statuses do not.\<close>

lemma links_listed:
  assumes "db_ok db" "database_typed db"
  shows "distinct (map status_device (list_status f link_name (links db)))"
    "distinct (map link_name (filter (\<lambda>s. link_name s \<noteq> None) (list_status f link_name (links db))))"
    "filter (\<lambda>s. link_name s \<noteq> None) (list_status f link_name (links db)) =
       filter (\<lambda>s. link_name s \<noteq> None) (list_status g link_name (links db))"
proof -
  have named: "link_name (status a) = net_name (item_id a)" "net_device (item_id a) = Some (status_device (status a))"
    if "a \<in># item_bag (links db)" for a
    using that assms(2) by (auto simp: database_typed_def link_typed_def)
  have pair: "\<not> conflicts (item_id a) (item_id b)" if "item_bag (links db) = add_mset a (add_mset b M)" for a b M
    using link_store.unique [OF assms(1)] that by metis
  have dev: "status_device (status a) \<noteq> status_device (status b)" if "item_bag (links db) = add_mset a (add_mset b M)" for a b M
    using pair [OF that] named [of a] named [of b] that by (auto simp: conflicts_def same_key_def)
  have nam: "link_name (status a) \<noteq> link_name (status b)"
    if "item_bag (links db) = add_mset a (add_mset b M)" "link_name (status a) \<noteq> None" for a b M
    using pair [OF that(1)] named [of a] named [of b] that by (auto simp: conflicts_def same_key_def)
  show "distinct (map status_device (list_status f link_name (links db)))"
    using listing_distinct [of "links db" "\<lambda>_. True" status_device f link_name] dev by simp
  show "distinct (map link_name (filter (\<lambda>s. link_name s \<noteq> None) (list_status f link_name (links db))))"
    by (rule listing_distinct) (rule nam)
  have "table_ok (links db)" using assms(1) by (simp add: db_ok_def)
  then show "filter (\<lambda>s. link_name s \<noteq> None) (list_status f link_name (links db)) =
      filter (\<lambda>s. link_name s \<noteq> None) (list_status g link_name (links db))"
    by (rule list_status_named) (rule named)
qed

lemma interfaces_listed:
  assumes "db_ok db" "database_typed db"
  shows "distinct (map (\<lambda>s. status_device (network_link_status s))
      (filter (\<lambda>s. status_device (network_link_status s) \<noteq> []) (list_status f interface_name (interfaces db))))"
    "distinct (map interface_name (filter (\<lambda>s. interface_name s \<noteq> None) (list_status f interface_name (interfaces db))))"
    "filter (\<lambda>s. interface_name s \<noteq> None) (list_status f interface_name (interfaces db)) =
       filter (\<lambda>s. interface_name s \<noteq> None) (list_status g interface_name (interfaces db))"
proof -
  have named: "interface_name (status a) = net_name (item_id a)"
    and device: "status_device (network_link_status (status a)) \<noteq> [] \<Longrightarrow>
      net_device (item_id a) = Some (status_device (network_link_status (status a)))"
    if "a \<in># item_bag (interfaces db)" for a
    using that assms(2) by (auto simp: database_typed_def interface_typed_def split: option.splits)
  have pair: "\<not> conflicts (item_id a) (item_id b)" if "item_bag (interfaces db) = add_mset a (add_mset b M)" for a b M
    using interface_store.unique [OF assms(1)] that by metis
  have dev: "status_device (network_link_status (status a)) \<noteq> status_device (network_link_status (status b))"
    if "item_bag (interfaces db) = add_mset a (add_mset b M)" "status_device (network_link_status (status a)) \<noteq> []" for a b M
    using pair [OF that(1)] device [of a] device [of b] that by (auto simp: conflicts_def same_key_def)
  have nam: "interface_name (status a) \<noteq> interface_name (status b)"
    if "item_bag (interfaces db) = add_mset a (add_mset b M)" "interface_name (status a) \<noteq> None" for a b M
    using pair [OF that(1)] named [of a] named [of b] that by (auto simp: conflicts_def same_key_def)
  show "distinct (map (\<lambda>s. status_device (network_link_status s))
      (filter (\<lambda>s. status_device (network_link_status s) \<noteq> []) (list_status f interface_name (interfaces db))))"
    by (rule listing_distinct) (rule dev)
  show "distinct (map interface_name (filter (\<lambda>s. interface_name s \<noteq> None) (list_status f interface_name (interfaces db))))"
    by (rule listing_distinct) (rule nam)
  have "table_ok (interfaces db)" using assms(1) by (simp add: db_ok_def)
  then show "filter (\<lambda>s. interface_name s \<noteq> None) (list_status f interface_name (interfaces db)) =
      filter (\<lambda>s. interface_name s \<noteq> None) (list_status g interface_name (interfaces db))"
    by (rule list_status_named) (rule named)
qed

text \<open>C2: In every reachable state of an interface manager, whatever scans, notifications, subscriptions
  and drops have led to it: a listing of links is ordered by name, shows no two links of one
  device and no two of one name; a listing of interfaces is ordered by name, shows no two interfaces on
  one device and no two of one name, each with its addresses in order; and in both the order of the
  named ones does not depend on how the hash map is iterated.\<close>

theorem manager_listings:
  assumes "manager_reach config af try_send m"
  shows "sorted (map link_name (list_network_links f (shared m))) \<and>
    distinct (map status_device (list_network_links f (shared m))) \<and>
    distinct (map link_name (filter (\<lambda>s. link_name s \<noteq> None) (list_network_links f (shared m)))) \<and>
    filter (\<lambda>s. link_name s \<noteq> None) (list_network_links f (shared m)) =
      filter (\<lambda>s. link_name s \<noteq> None) (list_network_links g (shared m)) \<and>
    sorted (map interface_name (list_network_interfaces f (shared m))) \<and>
    distinct (map (\<lambda>s. status_device (network_link_status s))
      (filter (\<lambda>s. status_device (network_link_status s) \<noteq> []) (list_network_interfaces f (shared m)))) \<and>
    distinct (map interface_name (filter (\<lambda>s. interface_name s \<noteq> None) (list_network_interfaces f (shared m)))) \<and>
    filter (\<lambda>s. interface_name s \<noteq> None) (list_network_interfaces f (shared m)) =
      filter (\<lambda>s. interface_name s \<noteq> None) (list_network_interfaces g (shared m)) \<and>
    (\<forall>s \<in> set (list_network_interfaces f (shared m)). sorted (status_addresses s))"
proof -
  let ?db = "database (shared m)"
  have ok: "db_ok ?db" "database_typed ?db" using manager_reach_ok [OF assms] by simp_all
  have "sorted (status_addresses s)" if "s \<in> set (list_network_interfaces f (shared m))" for s
  proof -
    have "s \<in># mset (list_status f interface_name (interfaces ?db))"
      using that by (simp add: list_network_interfaces_def list_interface_status_def)
    then show ?thesis using ok(2) by (auto simp: list_status_sorted(2) database_typed_def interface_typed_def)
  qed
  then show ?thesis
    unfolding list_network_links_def list_link_status_def list_network_interfaces_def list_interface_status_def
    by (intro conjI ballI list_status_sorted(1) links_listed [OF ok] interfaces_listed [OF ok])
qed

section \<open>A sample manager\<close>

definition sample_item :: interface_item where
  "sample_item = sample_interface (Some 2) (Some ''Inside'') Down"

definition sample_st :: "(nat, nat \<Rightarrow> nat \<times> NetworkStatusUpdate list) manager" where
  "sample_st =
     (case set_interface_status_item sample_item InterfaceManagerDatabase_new of
        Ok (db, deleted) \<Rightarrow> \<lparr>database = db, subscribers = [0, 1], channels = (\<lambda>n. (n + 1, []))\<rparr>
      | _ \<Rightarrow> manager_new (\<lambda>n. (n + 1, [])))"

lemma sample_st:
  "db_ok (database sample_st)" "database_typed (database sample_st)" "counters_free (database sample_st)"
  "item_bag (interfaces (database sample_st)) = {#sample_item#}" "item_bag (links (database sample_st)) = {#}"
  "subscribers sample_st = [0, 1]" "channels sample_st = (\<lambda>n. (n + 1, []))"
  "next_index (interfaces (database sample_st)) = 1"
proof -
  have new: "next_index (interfaces InterfaceManagerDatabase_new) = 0" "next_index (links InterfaceManagerDatabase_new) = 0"
      "item_bag (links InterfaceManagerDatabase_new) = {#}" "item_bag (interfaces InterfaceManagerDatabase_new) = {#}"
    by (simp_all add: InterfaceManagerDatabase_new_def empty_table_def item_bag_def)
  with interface_store.put_law [OF db_new_ok, of sample_item] obtain db d where
    1: "set_interface_status_item sample_item InterfaceManagerDatabase_new = Ok (db, d)" "db_ok db"
      "item_bag (interfaces db) = {#sample_item#}" "next_index (interfaces db) = 1"
    by (auto simp: put_item_def)
  note frame = interface_frame(1) [OF 1(1)]
  have st: "sample_st = \<lparr>database = db, subscribers = [0, 1], channels = (\<lambda>n. (n + 1, []))\<rparr>"
    by (simp add: sample_st_def 1(1))
  have "interface_typed sample_item"
    by (simp add: interface_typed_def sample_item_def sample_interface_def NetworkStatusItem_new_def CanonicalNetworkId_new_def)
  then show "database_typed (database sample_st)" by (simp add: st database_typed_def 1(3) frame new)
  show "counters_free (database sample_st)" by (simp add: st counters_free_def 1(4) frame new)
  show "db_ok (database sample_st)" "item_bag (interfaces (database sample_st)) = {#sample_item#}"
    "item_bag (links (database sample_st)) = {#}" "subscribers sample_st = [0, 1]" "channels sample_st = (\<lambda>n. (n + 1, []))"
    "next_index (interfaces (database sample_st)) = 1"
    by (simp_all add: st 1 frame new)
qed

lemma sample_item:
  "net_id (item_id sample_item) = Some 2" "interface_name (status sample_item) = Some ''Inside''"
  "status_addresses (status sample_item) = [IpAddress (V4 0x0A000001) 24]" "concerns 2 ''eth0'' sample_item"
  by (simp_all add: sample_item_def sample_interface_def NetworkStatusItem_new_def CanonicalNetworkId_new_def concerns_def)

abbreviation sample_processor :: NetlinkMessageProcessor where
  "sample_processor \<equiv> NetlinkMessageProcessor_new (\<lambda>_. 0) sample_config"

abbreviation sample_message :: "RtnlMessage \<Rightarrow> NetlinkMessage" where
  "sample_message m \<equiv> \<lparr>nl_length = 60, nl_flags = 2, sequence_number = 0, payload = InnerMessage m\<rparr>"

definition sample_link_status :: NetworkLinkStatus where
  "sample_link_status = \<lparr>link_name = Some ''lan'', status_device = ''eth0'', operational_state = Up\<rparr>"

lemma sample_report: "process_link sample_processor sample_link_message = Some (2, sample_link_status)"
  by (simp add: process_link_eq sample_link_message_def NetlinkMessageProcessor_new_def sample_config_def
      hm_collect_def insert_at_def sample_link_status_def)

abbreviation sample_families :: address_families where
  "sample_families \<equiv> \<lparr>AF_INET = 2, AF_INET6 = 10\<rparr>"

theorem new_link_notification_witness:
  "\<exists>st' b. message_received sample_processor sample_families bounded_send 1 2
       (sample_message (NewLink sample_link_message)) sample_st = Ok st' \<and>
     item_bag (interfaces (database st')) = {#b#} \<and> network_link_status (status b) = sample_link_status \<and>
     item_bag (links (database st')) = {#reported_link 1 2 sample_link_status#}"
proof -
  from new_link_notification [OF sample_st(1,2,3) _ sample_report, of "sample_message (NewLink sample_link_message)"
      sample_families bounded_send 1 2] obtain st' where
    1: "message_received sample_processor sample_families bounded_send 1 2 (sample_message (NewLink sample_link_message)) sample_st = Ok st'"
      "item_bag (links (database st')) = put_item (reported_link 1 2 sample_link_status) {#}"
      "\<forall>a \<in># {#sample_item#}. concerns 2 (status_device sample_link_status) a \<longrightarrow>
       (\<exists>b. item_bag (interfaces (database st')) = add_mset b ({#sample_item#} - {#a#}) \<and>
          net_id (item_id b) = Some 2 \<and> status b = (status a)\<lparr>network_link_status := sample_link_status\<rparr>)"
    unfolding sample_st(4,5) by auto
  then obtain b where "item_bag (interfaces (database st')) = {#b#}" "network_link_status (status b) = sample_link_status"
    using sample_item(4) by (auto simp: sample_link_status_def)
  with 1(1,2) show ?thesis by (auto simp: put_item_def)
qed

theorem del_link_notification_witness:
  "\<exists>st' b. message_received sample_processor sample_families bounded_send 1 2
       (sample_message (DelLink sample_link_message)) sample_st = Ok st' \<and>
     item_bag (interfaces (database st')) = {#b#} \<and> net_id (item_id b) = None \<and>
     operational_state (network_link_status (status b)) = NotFound \<and> subscribers st' = [0, 1]"
proof -
  from del_link_notification [OF sample_st(1,2,3) _ sample_report, of "sample_message (DelLink sample_link_message)"
      sample_families bounded_send 1 2] obtain st' where
    1: "message_received sample_processor sample_families bounded_send 1 2 (sample_message (DelLink sample_link_message)) sample_st = Ok st'"
      "\<forall>a \<in># {#sample_item#}. concerns 2 (status_device sample_link_status) a \<longrightarrow>
       (if interface_name (status a) = None
        then item_bag (interfaces (database st')) = {#sample_item#} - {#a#}
        else \<exists>b. item_bag (interfaces (database st')) = add_mset b ({#sample_item#} - {#a#}) \<and>
          net_id (item_id b) = None \<and> status b = (status a)\<lparr>network_link_status := status (gone_link 1 sample_link_status)\<rparr>)"
      "subscribers st' = [0, 1]"
    unfolding sample_st(4,5,6) by auto
  then obtain b where "item_bag (interfaces (database st')) = {#b#}" "net_id (item_id b) = None"
      "status b = (status sample_item)\<lparr>network_link_status := status (gone_link 1 sample_link_status)\<rparr>"
    using sample_item(2,4) by (auto simp: sample_link_status_def)
  with 1(1,3) show ?thesis by (auto simp: gone_link_def sample_link_status_def NetworkStatusItem_new_def)
qed

definition sample_address_message :: AddressMessage where
  "sample_address_message = \<lparr>am_family = 2, prefix_len = 24, am_index = 2, address_nlas = [AddressNla [10, 0, 0, 0]]\<rparr>"

lemma sample_address: "process_address sample_families sample_address_message = Some (2, IpAddress (V4 0x0A000000) 24)"
  by (simp add: process_address_eq reported_address_def sample_address_message_def from_be_bytes_def be_nat_def)

lemma sample_index: "next_index (interfaces (database sample_st)) \<noteq> - 1"
  by (simp add: sample_st(8))

theorem address_notification_witness:
  "\<exists>st' b. message_received sample_processor sample_families bounded_send 1 2
       (sample_message (NewAddress sample_address_message)) sample_st = Ok st' \<and>
     item_bag (interfaces (database st')) = {#b#} \<and>
     status_addresses (status b) = [IpAddress (V4 0x0A000000) 24, IpAddress (V4 0x0A000001) 24] \<and>
     subscribers st' = [0, 1]"
proof -
  have in_bag: "sample_item \<in># item_bag (interfaces (database sample_st))" by (simp add: sample_st(4))
  from address_notification [OF sample_st(1,2) sample_index in_bag sample_item(1) sample_address,
      of "sample_message (NewAddress sample_address_message)" "{#IpAddress (V4 0x0A000000) 24, IpAddress (V4 0x0A000001) 24#}"
        sample_processor bounded_send 1 2]
  obtain st' b where 1: "message_received sample_processor sample_families bounded_send 1 2
       (sample_message (NewAddress sample_address_message)) sample_st = Ok st'"
      "item_bag (interfaces (database st')) = add_mset b ({#sample_item#} - {#sample_item#})"
      "status b = (status sample_item)\<lparr>status_addresses :=
         sorted_list_of_multiset {#IpAddress (V4 0x0A000000) 24, IpAddress (V4 0x0A000001) 24#}\<rparr>"
      "subscribers st' = [0, 1]"
    unfolding sample_st(4,6) sample_item(3) by auto
  have "sorted_list_of_multiset {#IpAddress (V4 0x0A000000) 24, IpAddress (V4 0x0A000001) 24#}
      = [IpAddress (V4 0x0A000000) 24, IpAddress (V4 0x0A000001) 24]"
    by (simp add: less_IpAddr_def)
  with 1 show ?thesis by (intro exI [of _ st'] exI [of _ b]) simp
qed

theorem address_round_trip_witness:
  "\<exists>st1 st2. message_received sample_processor sample_families bounded_send 1 2
       (sample_message (NewAddress sample_address_message)) sample_st = Ok st1 \<and>
     message_received sample_processor sample_families bounded_send 3 4
       (sample_message (DelAddress sample_address_message)) st1 = Ok st2 \<and>
     image_mset (\<lambda>b. (item_id b, status b)) (item_bag (interfaces (database st2))) = {#(item_id sample_item, status sample_item)#}"
proof -
  have "unat (next_index (interfaces (database sample_st))) + 2 < 2 ^ 64" "sample_item \<in># item_bag (interfaces (database sample_st))"
    by (simp_all add: sample_st(4,8))
  from address_round_trip [OF sample_st(1,2) this sample_item(1) sample_address,
      of "sample_message (NewAddress sample_address_message)" "sample_message (DelAddress sample_address_message)"
        sample_processor bounded_send 1 2 3 4]
  show ?thesis unfolding sample_st(4) by auto
qed

theorem new_link_updates_witness:
  "\<exists>st'. message_received sample_processor sample_families bounded_send 1 2
       (sample_message (NewLink sample_link_message)) sample_st = Ok st' \<and> subscribers st' = [1] \<and>
     snd (channels st' 1) = [LinkUpdate sample_link_status,
       InterfaceUpdate ((status sample_item)\<lparr>network_link_status := sample_link_status\<rparr>)]"
proof -
  have "distinct (subscribers sample_st)"
      "\<And>t. length (snd (channels sample_st t)) \<le> fst (channels sample_st t)"
    by (simp_all add: sample_st(6,7))
  moreover have "payload (sample_message (NewLink sample_link_message)) = InnerMessage (NewLink sample_link_message)" by simp
  ultimately obtain st' told where told: "message_received sample_processor sample_families bounded_send 1 2
       (sample_message (NewLink sample_link_message)) sample_st = Ok st'"
      "told = [InterfaceUpdate ((status sample_item)\<lparr>network_link_status := sample_link_status\<rparr>)]"
      "subscribers st' = filter (\<lambda>t. Suc (length told) \<le> t + 1) [0, 1]"
      "\<And>t. snd (channels st' t) = (if t \<in> set [0, 1] then take (t + 1) (LinkUpdate sample_link_status # told) else [])"
    using new_link_updates [OF sample_st(1,3) bounded_send_channel _ _ _ sample_report,
        of "sample_message (NewLink sample_link_message)" sample_families 1 2]
    unfolding sample_st(4,6,7) using sample_item(4) by (auto simp: sample_link_status_def)
  then show ?thesis by simp
qed

text \<open>A run: the first scan is refused, then two links are announced, the configured one first.\<close>

definition other_link_message :: LinkMessage where
  "other_link_message = \<lparr>interface_family = 0, lm_index = 3, link_nlas = [IfName ''wlan0'', OperState StateUp]\<rparr>"

definition other_link_status :: NetworkLinkStatus where
  "other_link_status = \<lparr>link_name = None, status_device = ''wlan0'', operational_state = Up\<rparr>"

lemma other_report: "process_link sample_processor other_link_message = Some (3, other_link_status)"
  by (simp add: process_link_eq other_link_message_def NetlinkMessageProcessor_new_def sample_config_def
      hm_collect_def insert_at_def other_link_status_def)

lemma announced_run:
  obtains m1 m2 :: "(nat, nat \<Rightarrow> nat \<times> NetworkStatusUpdate list) interface_manager"
  where "manager_reach sample_config sample_families bounded_send m1"
    "item_bag (links (database (shared m1))) = {#reported_link 3 2 sample_link_status#}"
    "manager_reach sample_config sample_families bounded_send m2"
    "item_bag (links (database (shared m2))) = {#reported_link 5 3 other_link_status, reported_link 3 2 sample_link_status#}"
proof -
  let ?st = "manager_new (\<lambda>_. (0, [])) :: (nat, nat \<Rightarrow> nat \<times> NetworkStatusUpdate list) manager"
  let ?m = "\<lparr>running = True, scanning = True, shared = ?st\<rparr>"
  have "InterfaceManager_new (Ok ()) (\<lambda>_. 0) sample_env sample_config bounded_send
       (Err (System ''netlink'')) (Ok []) (\<lambda>_. (0, [])) = Ok ?m"
    by (simp add: InterfaceManager_new_def poll_def try_poll_def)
  note m = reach_new [OF this, of sample_families]
  have st: "db_ok (database ?st)" "counters_free (database ?st)" "item_bag (links (database ?st)) = {#}"
      "item_bag (interfaces (database ?st)) = {#}" "next_index (interfaces (database ?st)) = 0"
    using db_new_ok by (simp_all add: manager_new_def counters_free_def InterfaceManagerDatabase_new_def empty_table_def item_bag_def)
  from new_link_Ok [OF st(1,2), of bounded_send 3 4 2 sample_link_status] obtain st1 where
    1: "new_link bounded_send 3 4 (2, sample_link_status) ?st = Ok st1" "db_ok (database st1)"
      "item_bag (links (database st1)) = {#reported_link 3 2 sample_link_status#}"
    by (auto simp: st(3) put_item_def)
  have "manager_step sample_config sample_processor sample_families bounded_send
      (Notified 3 4 (sample_message (NewLink sample_link_message))) ?m (?m\<lparr>shared := st1\<rparr>)"
    by (rule step_notified) (simp add: message_received_def sample_report 1(1))
  note m1 = reach_step [OF m this]
  have apart: "\<not> conflicts (item_id (reported_link 5 3 other_link_status)) (item_id (reported_link 3 2 sample_link_status))"
    by (simp add: reported_link_def NetworkStatusItem_new_def CanonicalNetworkId_new_def conflicts_def same_key_def
        other_link_status_def sample_link_status_def)
  have "counters_below (Suc (Suc 0)) (database ?st)"
    by (simp add: counters_below_def manager_new_def InterfaceManagerDatabase_new_def empty_table_def)
  from counters_below_free [OF new_link_counters [OF st(1) this 1(1)]] have "counters_free (database st1)" .
  from new_link_Ok [OF 1(2) this, of bounded_send 5 6 3 other_link_status] obtain st2 where
    2: "new_link bounded_send 5 6 (3, other_link_status) st1 = Ok st2"
      "item_bag (links (database st2)) = {#reported_link 5 3 other_link_status, reported_link 3 2 sample_link_status#}"
    using apart by (auto simp: 1(3) put_item_def)
  have "manager_step sample_config sample_processor sample_families bounded_send
      (Notified 5 6 (sample_message (NewLink other_link_message))) (?m\<lparr>shared := st1\<rparr>) (?m\<lparr>shared := st2\<rparr>)"
    using step_notified [of sample_processor sample_families bounded_send 5 6 "sample_message (NewLink other_link_message)"
        "?m\<lparr>shared := st1\<rparr>" st2]
    by (simp add: message_received_def other_report 2(1))
  from that [OF m1 _ reach_step [OF m1 this]] 1(3) 2(2) show ?thesis by simp
qed

theorem manager_listings_witness:
  "\<exists>m. manager_reach sample_config sample_families bounded_send (m :: (nat, nat \<Rightarrow> nat \<times> NetworkStatusUpdate list) interface_manager) \<and>
     list_network_links (\<lambda>_. 0) (shared m) = [other_link_status, sample_link_status]"
proof -
  obtain m :: "(nat, nat \<Rightarrow> nat \<times> NetworkStatusUpdate list) interface_manager" where
    m: "manager_reach sample_config sample_families bounded_send m"
      "item_bag (links (database (shared m))) = {#reported_link 5 3 other_link_status, reported_link 3 2 sample_link_status#}"
    by (rule announced_run)
  let ?xs = "list_network_links (\<lambda>_. 0) (shared m)"
  have "mset ?xs = mset [other_link_status, sample_link_status]"
    by (simp add: list_network_links_def list_link_status_def list_status_sorted(2) m(2))
  then have "set ?xs = set [other_link_status, sample_link_status]"
      "distinct (map link_name ?xs) \<longleftrightarrow> distinct (map link_name [other_link_status, sample_link_status])"
    by (metis set_mset_mset, metis mset_map mset_eq_imp_distinct_iff)
  moreover have "sorted (map link_name ?xs)" using manager_listings [OF m(1), of "\<lambda>_. 0"] by blast
  moreover have "sorted (map link_name [other_link_status, sample_link_status])"
      "distinct (map link_name [other_link_status, sample_link_status])"
      "inj_on link_name (set [other_link_status, sample_link_status])"
    by (simp_all add: other_link_status_def sample_link_status_def)
  ultimately have "?xs = [other_link_status, sample_link_status]"
    by (intro map_sorted_distinct_set_unique [where f = link_name]) simp_all
  with m(1) show ?thesis by blast
qed

end
