(* ===== verification/Interface_Typing.thy ===== *)
theory Interface_Typing
  imports Interface_Manager
begin

text \<open>
  How what is stored fits the configuration (\<open>interface/mod.rs\<close>): every name in the database is one that
  the configuration gives, to the device or the link at hand, whatever scans and notifications have led
  to it. Nothing is asked of the configuration or of the kernel's answers.
\<close>

section \<open>What the configuration says of an item\<close>

text \<open>The name of a link is one that the configuration gives to its device, missing only when there is none.\<close>

definition link_configured :: "Router \<Rightarrow> NetworkLinkStatus \<Rightarrow> bool" where
  "link_configured config s \<longleftrightarrow>
     (case link_name s of
        None \<Rightarrow> \<forall>(n, l) \<in> set (network_links config). link_device l \<noteq> status_device s
      | Some n \<Rightarrow> \<exists>l. (n, l) \<in> set (network_links config) \<and> link_device l = status_device s)"

text \<open>A named interface is configured, on the device of its configured link, or on none when that link is
  not configured; an interface without a name is on a reported device.\<close>

definition interface_configured :: "Router \<Rightarrow> interface_item \<Rightarrow> bool" where
  "interface_configured config a \<longleftrightarrow>
     (case interface_name (status a) of
        None \<Rightarrow> net_id (item_id a) \<noteq> None
      | Some n \<Rightarrow> \<exists>interface. (n, interface) \<in> set (network_interfaces config) \<and>
          (case net_device (item_id a) of
             None \<Rightarrow> interface_network_link interface \<notin> fst ` set (network_links config)
           | Some device \<Rightarrow> \<exists>l. (interface_network_link interface, l) \<in> set (network_links config) \<and> link_device l = device))"

definition interface_fits :: "Router \<Rightarrow> interface_item \<Rightarrow> bool" where
  "interface_fits config a \<longleftrightarrow> interface_typed a \<and> interface_configured config a \<and>
     (net_id (item_id a) = None \<longrightarrow> operational_state (network_link_status (status a)) \<in> {NotFound, Misconfigured})"

lemma interface_fits_new:
  "interface_fits config (NetworkStatusItem_new now (CanonicalNetworkId_new i n d)
     \<lparr>interface_name = n, status_addresses = xs, network_link_status = s\<rparr>) \<longleftrightarrow>
   (case d of None \<Rightarrow> i = None \<and> status_device s = [] | Some device \<Rightarrow> status_device s = device) \<and> sorted xs \<and>
   (i = None \<longleftrightarrow> operational_state s \<in> {NotFound, Misconfigured}) \<and>
   (case n of
      None \<Rightarrow> i \<noteq> None
    | Some name \<Rightarrow> \<exists>interface. (name, interface) \<in> set (network_interfaces config) \<and>
        (case d of
           None \<Rightarrow> interface_network_link interface \<notin> fst ` set (network_links config)
         | Some device \<Rightarrow> \<exists>l. (interface_network_link interface, l) \<in> set (network_links config) \<and> link_device l = device))"
  by (cases i; cases n; cases d)
    (auto simp: interface_fits_def interface_typed_def interface_configured_def NetworkStatusItem_new_def CanonicalNetworkId_new_def)

definition link_fits :: "Router \<Rightarrow> link_item \<Rightarrow> bool" where
  "link_fits config a \<longleftrightarrow> link_typed a \<and> link_configured config (status a)"

lemma process_link_configured:
  assumes "process_link (NetlinkMessageProcessor_new f config) msg = Some (index, s)"
  shows "link_configured config s"
proof -
  let ?kvs = "map (\<lambda>(name, link). (link_device link, name)) (iter_order f (network_links config))"
  have name: "link_name s = map_of (rev ?kvs) (status_device s)"
    using assms by (auto simp: process_link_eq NetlinkMessageProcessor_new_def hm_get_collect split: if_splits)
  show ?thesis
  proof (cases "link_name s")
    case None
    with name have "map_of (rev ?kvs) (status_device s) = None" by simp
    then have "status_device s \<notin> fst ` set (rev ?kvs)" by (simp only: map_of_eq_None_iff not_False_eq_True)
    with None show ?thesis by (force simp: link_configured_def)
  next
    case (Some n)
    with name have "map_of (rev ?kvs) (status_device s) = Some n" by simp
    then have "(status_device s, n) \<in> set (rev ?kvs)" by (rule map_of_SomeD)
    with Some show ?thesis by (auto simp: link_configured_def)
  qed
qed

lemma report_link_configured:
  assumes "process_link_message (NetlinkMessageProcessor_new f config) m = Some (index, s)"
  shows "link_configured config s"
  using assms process_link_configured by (auto simp: process_link_message_eq bind_eq_Some_conv)

section \<open>A scan\<close>

text \<open>A property of every key and value of a map.\<close>

definition map_all :: "('k \<Rightarrow> 'v \<Rightarrow> bool) \<Rightarrow> ('k, 'v) hash_map \<Rightarrow> bool" where
  "map_all R m \<longleftrightarrow> (\<forall>(k, v) \<in> set m. R k v)"

lemma map_all_Nil [simp]: "map_all R []"
  by (simp add: map_all_def)

lemma map_all_insert [intro]: "map_all R m \<Longrightarrow> R k v \<Longrightarrow> map_all R (hm_insert k v m)"
  using set_hm_insert [of k v m] by (auto simp: map_all_def)

lemma set_delete_subset: "set (hm_remove k m) \<subseteq> set m"
  by (auto simp: AList.delete_eq)

lemma map_all_remove [intro]: "map_all R m \<Longrightarrow> map_all R (hm_remove k m)"
  using set_delete_subset [of k m] by (auto simp: map_all_def)

lemma map_all_get: "map_all R m \<Longrightarrow> hm_get m k = Some v \<Longrightarrow> R k v"
  by (auto simp: map_all_def dest: map_of_SomeD)

lemma map_all_collect: "(\<And>k v. (k, v) \<in> set kvs \<Longrightarrow> R k v) \<Longrightarrow> map_all R (hm_collect kvs)"
  unfolding hm_collect_def
  by (rule fold_invariant [where Q = "\<lambda>(k, v). R k v"]) auto

definition configured_link :: "Router \<Rightarrow> string \<Rightarrow> string \<Rightarrow> bool" where
  "configured_link config n device \<longleftrightarrow> (\<exists>l. (n, l) \<in> set (network_links config) \<and> link_device l = device)"

definition links_fit :: "Router \<Rightarrow> link_maps \<Rightarrow> bool" where
  "links_fit config s \<longleftrightarrow> maps_named s \<and>
     map_all (\<lambda>n x. link_name (status x) = Some n \<and> link_configured config (status x)) (mapped_links s) \<and>
     map_all (\<lambda>i x. link_configured config (status x)) (polled_links s) \<and>
     map_all (configured_link config) (unmapped_links s)"

lemma link_response_fit:
  assumes "links_fit config s"
  shows "links_fit config (link_response (NetlinkMessageProcessor_new f config) now response s)" (is "links_fit config ?s")
proof (cases "process_link_message (NetlinkMessageProcessor_new f config) (payload response)")
  case None
  with assms show ?thesis by (simp add: link_response_def)
next
  case (Some r)
  obtain index link where r: "r = (index, link)" by (cases r)
  from report_link_configured Some r have "link_configured config link" by blast
  then have "map_all (\<lambda>n x. link_name (status x) = Some n \<and> link_configured config (status x)) (mapped_links ?s) \<and>
      map_all (\<lambda>i x. link_configured config (status x)) (polled_links ?s) \<and>
      map_all (configured_link config) (unmapped_links ?s)"
    using assms
    by (auto simp: links_fit_def link_response_def Some r Let_def NetworkStatusItem_new_def split: option.split)
  moreover have "maps_named ?s" using assms by (intro link_response_named) (simp add: links_fit_def)
  ultimately show ?thesis by (simp add: links_fit_def)
qed

lemma collect_links_fit: "links_fit config (collect_links (NetlinkMessageProcessor_new f config) clock config link_data)"
  unfolding collect_links_def
proof (rule fold_enumerate_keeps)
  have "map_all (configured_link config) (hm_collect (map (\<lambda>(name, link). (name, link_device link)) (network_links config)))"
    by (rule map_all_collect) (auto simp: configured_link_def)
  then show "links_fit config (link_maps_new config)"
    by (simp add: links_fit_def maps_named_def values_named_def link_maps_new_def)
qed (rule link_response_fit)

definition both_fit :: "Router \<Rightarrow> link_map \<times> interface_map \<Rightarrow> bool" where
  "both_fit config = (\<lambda>(all_links, missing). map_all (\<lambda>i x. link_fits config x) all_links \<and>
     map_all (\<lambda>i x. interface_fits config x) missing)"

lemma unmapped_link_fit:
  assumes "both_fit config s" "configured_link config (fst e) (snd e)"
    and "map_all (\<lambda>link name. \<exists>interface. (name, interface) \<in> set (network_interfaces config) \<and> interface_network_link interface = link) li"
  shows "both_fit config (unmapped_link li now now' e s)"
proof -
  obtain name dev all_links missing where e: "e = (name, dev)" "s = (all_links, missing)" by (cases e; cases s)
  obtain l where l: "(name, l) \<in> set (network_links config)" "link_device l = dev"
    using assms(2) by (auto simp: e configured_link_def)
  have "link_fits config (NetworkStatusItem_new now (CanonicalNetworkId_new None (Some name) (Some dev))
      \<lparr>link_name = Some name, status_device = dev, operational_state = NotFound\<rparr>)"
    using l by (auto simp: link_fits_def link_typed_def link_configured_def NetworkStatusItem_new_def CanonicalNetworkId_new_def)
  with assms(1) have link: "map_all (\<lambda>i x. link_fits config x)
      (hm_insert (CanonicalNetworkId_new None (Some name) (Some dev))
        (NetworkStatusItem_new now (CanonicalNetworkId_new None (Some name) (Some dev))
          \<lparr>link_name = Some name, status_device = dev, operational_state = NotFound\<rparr>) all_links)"
    by (auto simp: e both_fit_def)
  show ?thesis
  proof (cases "hm_get li name")
    case None
    with assms(1) link show ?thesis by (simp add: e both_fit_def unmapped_link_def Let_def)
  next
    case (Some iface)
    from map_all_get [OF assms(3) this] l have
      "interface_fits config (NetworkStatusItem_new now' (CanonicalNetworkId_new None (Some iface) (Some dev))
         \<lparr>interface_name = Some iface, status_addresses = [],
          network_link_status = \<lparr>link_name = Some name, status_device = dev, operational_state = NotFound\<rparr>\<rparr>)"
      by (auto simp: interface_fits_new)
    with assms(1) link Some show ?thesis by (auto simp: e both_fit_def unmapped_link_def Let_def)
  qed
qed

lemma collect_unmapped_fit:
  assumes "map_all (\<lambda>i x. link_fits config x) all_links" "map_all (configured_link config) unmapped"
  shows "both_fit config (collect_unmapped env config unmapped all_links)"
  unfolding collect_unmapped_def
proof (rule fold_enumerate_keeps)
  show "both_fit config (all_links, [])" using assms(1) by (simp add: both_fit_def)
  have li: "map_all (\<lambda>link name. \<exists>interface. (name, interface) \<in> set (network_interfaces config) \<and> interface_network_link interface = link)
      (link_network_interfaces (link_interface_order env) config)"
    unfolding link_network_interfaces_def by (rule map_all_collect) auto
  show "both_fit config (unmapped_link (link_network_interfaces (link_interface_order env) config)
      (unmapped_clock env n) (missing_clock env n) e s)"
    if "e \<in> set (iter_order (unmapped_order env) unmapped)" "both_fit config s" for n e s
    using that assms(2) by (intro unmapped_link_fit li) (auto simp: map_all_def)
qed

lemma configured_interface_fit:
  assumes "map_all (\<lambda>n x. link_name (status x) = Some n \<and> link_configured config (status x)) mapped" "values_named mapped"
    and "e \<in> set (network_interfaces config)" "map_all (\<lambda>i x. interface_fits config x) (snd s)"
  shows "map_all (\<lambda>i x. interface_fits config x) (snd (configured_interface config mapped now e s))"
proof -
  obtain name interface addresses all_interfaces where e: "e = (name, interface)" "s = (addresses, all_interfaces)"
    by (cases e; cases s)
  show ?thesis
  proof (cases "hm_get mapped (interface_network_link interface)")
    case (Some x)
    from map_all_get [OF assms(1) Some] have x: "link_name (status x) = Some (interface_network_link interface)"
      "link_configured config (status x)" by auto
    from assms(2) map_of_SomeD [OF Some] have typed: "link_typed x" "operational_state (status x) \<noteq> NotFound"
      by (auto simp: values_named_def)
    then obtain index where index: "net_id (item_id x) = Some index" "net_device (item_id x) = Some (status_device (status x))"
      by (auto simp: link_typed_def)
    have "interface_fits config (NetworkStatusItem_new now
        (CanonicalNetworkId_new (Some index) (Some name) (Some (status_device (status x))))
        \<lparr>interface_name = Some name, status_addresses = xs, network_link_status = status x\<rparr>)" if "sorted xs" for xs
      using x typed assms(3) that by (auto simp: interface_fits_new e link_configured_def link_typed_def)
    then show ?thesis
      using assms(4) Some index by (auto simp: e configured_interface_def Let_def split: option.split intro!: map_all_insert)
  next
    case None
    show ?thesis
    proof (cases "hm_get (network_links config) (interface_network_link interface)")
      case none: None
      then have "interface_network_link interface \<notin> fst ` set (network_links config)"
        by (simp only: map_of_eq_None_iff not_False_eq_True)
      then have "interface_fits config (NetworkStatusItem_new now (CanonicalNetworkId_new None (Some name) None)
          \<lparr>interface_name = Some name, status_addresses = [], network_link_status =
            \<lparr>link_name = Some (interface_network_link interface), status_device = [], operational_state = Misconfigured\<rparr>\<rparr>)"
        using assms(3) unfolding interface_fits_new by (auto simp: e simp del: map_of_eq_None_iff)
      with None none assms(4) show ?thesis by (auto simp: e configured_interface_def Let_def)
    next
      case (Some l)
      from map_of_SomeD [OF this] have "interface_fits config
          (NetworkStatusItem_new now (CanonicalNetworkId_new None (Some name) (Some (link_device l)))
          \<lparr>interface_name = Some name, status_addresses = [], network_link_status =
            \<lparr>link_name = Some (interface_network_link interface), status_device = link_device l, operational_state = Misconfigured\<rparr>\<rparr>)"
        using assms(3) unfolding interface_fits_new by (auto simp: e)
      with None Some assms(4) show ?thesis by (auto simp: e configured_interface_def Let_def)
    qed
  qed
qed

lemma device_interface_fit:
  assumes "values_named devices" "map_all (\<lambda>i x. interface_fits config x) all_interfaces"
  shows "map_all (\<lambda>i x. interface_fits config x) (device_interface devices now e all_interfaces)"
proof -
  obtain index known where e: "e = (index, known)" by (cases e)
  have "link_typed l \<and> operational_state (status l) \<noteq> NotFound" if "hm_get devices k = Some l" for k l
    using assms(1) map_of_SomeD [OF that] by (auto simp: values_named_def)
  with assms(2) show ?thesis
    by (auto simp: e device_interface_def Let_def link_typed_def interface_fits_new split: option.split)
qed

lemma add_missing_all:
  assumes "map_all R missing" "map_all R all_interfaces"
  shows "map_all R (add_missing f missing all_interfaces)"
  unfolding add_missing_def
  by (rule fold_invariant [where Q = "\<lambda>(i, x). R i x"]) (use assms in \<open>auto simp: map_all_def [of R missing]\<close>)

lemma gather_fit:
  assumes "gather env config (NetlinkMessageProcessor_new f config) link_data network_data = (all_links, all_interfaces)"
  shows "(\<forall>(i, x) \<in> set all_links. link_fits config x) \<and> (\<forall>(i, x) \<in> set all_interfaces. interface_fits config x)"
proof -
  let ?maps = "collect_links (NetlinkMessageProcessor_new f config) (link_clock env) config link_data"
  have maps: "links_fit config ?maps" by (rule collect_links_fit)
  then have "map_all (\<lambda>i x. link_fits config x) (polled_links ?maps)"
    by (auto simp: links_fit_def maps_named_def entries_def map_all_def link_fits_def)
  with maps have unmapped: "both_fit config (collect_unmapped env config (unmapped_links ?maps) (polled_links ?maps))"
    by (intro collect_unmapped_fit) (simp_all add: links_fit_def)
  let ?conf = "configured_interfaces env config (mapped_links ?maps) (collect_addresses (families env) network_data)"
  have conf: "map_all (\<lambda>i x. interface_fits config x) (snd ?conf)"
    unfolding configured_interfaces_def
    by (rule fold_enumerate_keeps) (use maps in \<open>auto simp: links_fit_def maps_named_def intro!: configured_interface_fit\<close>)
  have devices: "map_all (\<lambda>i x. interface_fits config x) (device_interfaces env (mapped_devices ?maps) (fst ?conf) (snd ?conf))"
    unfolding device_interfaces_def
    by (rule fold_enumerate_keeps) (use conf maps in \<open>auto simp: links_fit_def maps_named_def intro!: device_interface_fit\<close>)
  obtain links missing where s: "collect_unmapped env config (unmapped_links ?maps) (polled_links ?maps) = (links, missing)" by fastforce
  have "all_links = links"
    "all_interfaces = add_missing (missing_order env) missing (device_interfaces env (mapped_devices ?maps) (fst ?conf) (snd ?conf))"
    using assms by (simp_all add: gather_def Let_def s split_beta)
  moreover from unmapped have "map_all (\<lambda>i x. link_fits config x) links" "map_all (\<lambda>i x. interface_fits config x) missing"
    by (simp_all add: s both_fit_def)
  ultimately have "map_all (\<lambda>i x. link_fits config x) all_links \<and> map_all (\<lambda>i x. interface_fits config x) all_interfaces"
    using add_missing_all [OF _ devices] by simp
  then show ?thesis by (simp add: map_all_def)
qed

section \<open>A notification\<close>

text \<open>The parts of an interface that its type and its place in the configuration determine.\<close>

lemma interface_fits_relinked:
  assumes "interface_fits config a" "concerns index (status_device (status link)) a"
    and "index' = None \<longleftrightarrow> operational_state (status link) \<in> {NotFound, Misconfigured}"
    and "index' = None \<Longrightarrow> interface_name (status a) \<noteq> None"
  shows "interface_fits config (interface_with_link now index' a link)"
proof -
  have device: "net_device (item_id a) = Some (status_device (status link))"
      "status_device (network_link_status (status a)) = status_device (status link)"
    using assms(1,2) by (auto simp: concerns_def interface_fits_def interface_typed_def split: option.splits)
  have "sorted (status_addresses (status a))" "interface_configured config a"
    using assms(1) by (simp_all add: interface_fits_def interface_typed_def)
  with assms(3,4) device show ?thesis
    unfolding interface_with_link_def interface_fits_new interface_configured_def
    by (cases "interface_name (status a)"; cases index') auto
qed

lemma interface_fits_addresses:
  assumes "interface_fits config a" "sorted xs"
  shows "interface_fits config (NetworkStatusItem_new now (item_id a) ((status a)\<lparr>status_addresses := xs\<rparr>))"
  using assms by (auto simp: interface_fits_def interface_typed_def interface_configured_def NetworkStatusItem_new_def split: option.splits)

lemma message_received_fits:
  assumes "db_ok (database st)" "items_all (link_fits config) (interface_fits config) (database st)"
    and "message_received (NetlinkMessageProcessor_new f config) af try_send now now' m st = Ok st'"
  shows "db_ok (database st') \<and> items_all (link_fits config) (interface_fits config) (database st')"
proof (rule message_received_all [OF assms])
  fix msg index s
  assume report: "process_link (NetlinkMessageProcessor_new f config) msg = Some (index, s)"
  note state = reported_link_state [OF report] and named = process_link_configured [OF report]
  show "link_fits config (reported_link now index s)"
    using state named by (simp add: link_fits_def)
  show "link_fits config (gone_link now s)" if "link_name s \<noteq> None"
    using named that by (auto simp: link_fits_def gone_link_def NetworkStatusItem_new_def link_configured_def link_typed_def CanonicalNetworkId_new_def)
  fix a assume a: "interface_fits config a" "concerns index (status_device s) a"
  then show "interface_fits config (interface_with_link now' (Some index) a (reported_link now index s))"
    using state by (intro interface_fits_relinked) simp_all
  show "interface_fits config (interface_with_link now' None a (gone_link now s))" if n: "interface_name (status a) \<noteq> None"
  proof -
    have "net_device (item_id a) = Some (status_device s)"
      using a by (auto simp: concerns_def interface_fits_def interface_typed_def split: option.splits)
    with a(1) n have "\<exists>k l. (k, l) \<in> set (network_links config) \<and> link_device l = status_device s"
      by (auto simp: interface_fits_def interface_configured_def split: option.splits)
    with named have "link_name s \<noteq> None" by (auto simp: link_configured_def split: option.splits)
    then have "operational_state (status (gone_link now s)) = NotFound"
      by (auto simp: gone_link_def NetworkStatusItem_new_def)
    with a n show ?thesis by (intro interface_fits_relinked) simp_all
  qed
next
  fix a address assume a: "interface_fits config a"
  then show "interface_fits config (NetworkStatusItem_new now (item_id a)
      ((status a)\<lparr>status_addresses := sort (status_addresses (status a) @ [address])\<rparr>))"
    by (rule interface_fits_addresses) simp
  from a show "interface_fits config (NetworkStatusItem_new now (item_id a)
      ((status a)\<lparr>status_addresses := remove1 address (status_addresses (status a))\<rparr>))"
    by (rule interface_fits_addresses) (use a in \<open>simp add: interface_fits_def interface_typed_def sorted_remove1\<close>)
qed

section \<open>Every history\<close>

lemma scan_fits:
  assumes "db_ok (database st)" "items_all (link_fits config) (interface_fits config) (database st)"
    and "poll env config (NetlinkMessageProcessor_new f config) try_send link_reply address_reply st = Ok st'"
  shows "db_ok (database st') \<and> items_all (link_fits config) (interface_fits config) (database st')"
  by (rule poll_all [OF assms(1,2) gather_fit assms(3)])

lemma manager_reach_fits:
  assumes "manager_reach config af try_send m"
  shows "db_ok (database (shared m)) \<and> items_all (link_fits config) (interface_fits config) (database (shared m))"
proof (rule manager_reach_keeps [where I = "\<lambda>db. db_ok db \<and> items_all (link_fits config) (interface_fits config) db", OF assms])
  show "db_ok InterfaceManagerDatabase_new \<and> items_all (link_fits config) (interface_fits config) InterfaceManagerDatabase_new"
    by simp (simp add: items_all_def InterfaceManagerDatabase_new_def)
qed (use scan_fits message_received_fits in blast)+

text \<open>C7: In every reachable state of an interface manager, whatever the configuration, each stored item is well
  typed: a link is stored under its own name and device, has an index exactly when it is not \<open>NotFound\<close>,
  is never \<open>Misconfigured\<close>, and has the name that the configuration gives to its device, or none when it
  gives none; an interface is stored under its own name and the device of its link, has an index exactly
  when its link is neither \<open>NotFound\<close> nor \<open>Misconfigured\<close>, and has its addresses in order. A named
  interface is one of the configuration, on the device of its configured link, or without device when
  that link is not configured; one without a name has an index.\<close>

theorem stored_items_typed:
  assumes "manager_reach config af try_send m"
  shows "(\<forall>a \<in># item_bag (links (database (shared m))).
      link_typed a \<and> (net_id (item_id a) = None \<longleftrightarrow> operational_state (status a) = NotFound) \<and>
      link_configured config (status a)) \<and>
    (\<forall>a \<in># item_bag (interfaces (database (shared m))).
      interface_typed a \<and>
      (net_id (item_id a) = None \<longleftrightarrow> operational_state (network_link_status (status a)) \<in> {NotFound, Misconfigured}) \<and>
      interface_configured config a)"
  using manager_reach_fits [OF assms]
  by (auto simp: items_all_def link_fits_def interface_fits_def link_typed_def interface_typed_def)

theorem stored_items_typed_witness:
  "\<exists>m a. manager_reach sample_config sample_families bounded_send
       (m :: (nat, nat \<Rightarrow> nat \<times> NetworkStatusUpdate list) interface_manager) \<and>
     item_bag (links (database (shared m))) = {#a#} \<and> net_id (item_id a) = Some 2 \<and>
     link_typed a \<and> link_configured sample_config (status a)"
proof -
  obtain m :: "(nat, nat \<Rightarrow> nat \<times> NetworkStatusUpdate list) interface_manager" where
    m: "manager_reach sample_config sample_families bounded_send m"
      "item_bag (links (database (shared m))) = {#reported_link 3 2 sample_link_status#}"
    by (rule announced_run)
  have "net_id (item_id (reported_link 3 2 sample_link_status)) = Some 2"
    by (simp add: reported_link_def NetworkStatusItem_new_def CanonicalNetworkId_new_def)
  with m stored_items_typed [OF m(1)] show ?thesis by (metis union_single_eq_member)
qed

end
