(* ===== verification/Router_Platform.thy ===== *)
theory Router_Platform
  imports Packet_Network Ospf_Hello Interface_Typing "HOL-Library.Sublist"
begin

text \<open>
  The platform, \<open>rusty-router-platform-linux/src/lib.rs\<close>, which puts the interface manager and the
  packet sockets together, and the program, \<open>rusty-router/src/main.rs\<close>: its configuration, the
  listings it prints, and the task \<open>Ni\<close> that answers OSPF packets.

  A router, its instances and the platform they share are one state; the delegating methods are
  the operation they delegate to. Logging and the runtime are left out.
\<close>

section \<open>The platform\<close>

record ('sub, 'ch) platform =
  interface_manager :: "('sub, 'ch) interface_manager"
  network_poller :: poller
  packet_sockets :: network

text \<open>The manager is made first, with its initial scan, and dropped when the poller cannot be made.\<close>

definition LinuxRustyRouterPlatform_new ::
  "('sub, 'ch) interface_manager router_result \<Rightarrow> string + nat \<Rightarrow> ('sub, 'ch) platform router_result" where
  "LinuxRustyRouterPlatform_new new_manager epoll_create =
     obind new_manager (\<lambda>manager.
     obind (Poller_new epoll_create) (\<lambda>poller.
     Ok \<lparr>interface_manager = manager, network_poller = poller, packet_sockets = network_new\<rparr>))"

definition platform_list_network_links :: "order_choice \<Rightarrow> ('sub, 'ch) platform \<Rightarrow> NetworkLinkStatus list router_result" where
  "platform_list_network_links f pl = Ok (list_network_links f (shared (interface_manager pl)))"

definition platform_list_network_interfaces ::
  "order_choice \<Rightarrow> ('sub, 'ch) platform \<Rightarrow> NetworkInterfaceStatus list router_result" where
  "platform_list_network_interfaces f pl = Ok (list_network_interfaces f (shared (interface_manager pl)))"

definition platform_subscribe :: "'sub \<Rightarrow> ('sub, 'ch) platform \<Rightarrow> ('sub, 'ch) platform" where
  "platform_subscribe subscriber pl =
     pl\<lparr>interface_manager := (interface_manager pl)\<lparr>shared := subscribe subscriber (shared (interface_manager pl))\<rparr>\<rparr>"

text \<open>The interface that a connection returns: what \<open>send\<close> uses of it.\<close>

record packet_interface =
  packet_source :: Ipv4Addr
  packet_protocol :: u8

text \<open>What the kernel answers is a function of the device to bind to. The rest of the insertion of the
  new listener is \<open>insert_handler\<close>.\<close>

definition connect_ipv4 ::
  "order_choice \<Rightarrow> (string \<Rightarrow> socket_calls) \<Rightarrow> string \<Rightarrow> Ipv4Addr \<Rightarrow> u8 \<Rightarrow> Ipv4Addr list \<Rightarrow> u64 \<Rightarrow>
   ('sub, 'ch) platform \<Rightarrow> packet_interface router_result \<times> ('sub, 'ch) platform" where
  "connect_ipv4 f calls network_interface source protocol multicast_groups handle_id pl =
     (case platform_list_network_interfaces f pl of
        Err e \<Rightarrow> (Err e, pl)
      | Panic \<Rightarrow> (Panic, pl)
      | Ok statuses \<Rightarrow>
          let interfaces = map (\<lambda>s. status_device (network_link_status s))
                (filter (\<lambda>interface. case interface_name interface of Some name \<Rightarrow> name = network_interface | None \<Rightarrow> False) statuses)
          in if interfaces = []
             then (Err (IllegalState (''Failed to find a device matching '' @ network_interface)), pl)
             else (let (r, net) = network_interface_new (calls (last interfaces)) multicast_groups handle_id (packet_sockets pl)
                   in (obind r (\<lambda>_. Ok \<lparr>packet_source = source, packet_protocol = protocol\<rparr>), pl\<lparr>packet_sockets := net\<rparr>)))"

section \<open>The task of the program\<close>

definition OSPF_PROTOCOL_NUMBER :: u8 where "OSPF_PROTOCOL_NUMBER = 89"

definition AllSPFRouters :: Ipv4Addr where "AllSPFRouters = 0xE0000005"

text \<open>A boxed error: a protocol error or a router error.\<close>

datatype boxed_error = BoxedProtocol ProtocolError | BoxedRouter RouterError

record Ni =
  local_address :: Ipv4Addr
  receiver :: "u8 list list"
  connection :: packet_interface

definition Ni_new ::
  "order_choice \<Rightarrow> (string \<Rightarrow> socket_calls) \<Rightarrow> string \<Rightarrow> Ipv4Addr \<Rightarrow> u64 \<Rightarrow> ('sub, 'ch) platform \<Rightarrow>
   (boxed_error, Ni) outcome \<times> ('sub, 'ch) platform" where
  "Ni_new f calls name local handle_id pl =
     (let (r, pl) = connect_ipv4 f calls name local OSPF_PROTOCOL_NUMBER [AllSPFRouters] handle_id pl
      in (obind (map_err BoxedRouter r) (\<lambda>conn. Ok \<lparr>local_address = local, receiver = [], connection = conn\<rparr>), pl))"

text \<open>\<open>Nih::on_recv\<close>: the channel holds 100 packets; what does not fit is dropped.\<close>

definition Nih_on_recv :: "u8 list \<Rightarrow> Ni \<Rightarrow> Ni" where
  "Nih_on_recv data ni = (if length (receiver ni) < 100 then ni\<lparr>receiver := receiver ni @ [data]\<rparr> else ni)"

definition response_builder :: OspfHelloPacketBuilder where
  "response_builder = OspfHelloPacketBuilder_new 0x02020202 0 (Ipv4Netmask_new 4294967292) 10 2 5 40 0xAC100A01 0 [0x01010101]"

text \<open>
  The body of \<open>process\<close> for a received packet: its result, and the calls of \<open>send\<close> it makes. \<open>sendto\<close>
  is the kernel's answer.
\<close>

definition process_packet ::
  "endian \<Rightarrow> u16 \<Rightarrow> (u8 list \<Rightarrow> Ipv4Addr \<Rightarrow> string + nat) \<Rightarrow> Ipv4Addr \<Rightarrow> packet_interface \<Rightarrow> u8 list \<Rightarrow>
   (boxed_error, unit) outcome \<times> (Ipv4Addr \<times> u8 list) list" where
  "process_packet e rnd sendto local conn packet =
     (case map_err BoxedProtocol (IpV4Header_try_from packet) of
        Err e \<Rightarrow> (Err e, [])
      | Panic \<Rightarrow> (Panic, [])
      | Ok ip \<Rightarrow>
          if ip_source_address ip = local then (Ok (), [])
          else case map_err BoxedProtocol (obind (OspfHelloPacketBuilder_build e response_builder) OspfHelloPacket_bytes) of
            Err e \<Rightarrow> (Err e, [])
          | Panic \<Rightarrow> (Panic, [])
          | Ok data \<Rightarrow>
              (obind (map_err BoxedRouter
                  (send_ipv4 e rnd (packet_source conn) (packet_protocol conn) sendto AllSPFRouters data)) (\<lambda>_. Ok ()),
               [(AllSPFRouters, data)]))"

text \<open>\<open>process\<close>: without a waiting packet it waits (no result); an error is dropped, a panic is not.\<close>

definition Ni_process ::
  "endian \<Rightarrow> u16 \<Rightarrow> (u8 list \<Rightarrow> Ipv4Addr \<Rightarrow> string + nat) \<Rightarrow> Ni \<Rightarrow>
   ((boxed_error, Ni) outcome \<times> (Ipv4Addr \<times> u8 list) list) option" where
  "Ni_process e rnd sendto ni =
     (case receiver ni of
        [] \<Rightarrow> None
      | packet # rest \<Rightarrow>
          let (r, sent) = process_packet e rnd sendto (local_address ni) (connection ni) packet
          in Some (if r = Panic then Panic else Ok (ni\<lparr>receiver := rest\<rparr>), sent))"

text \<open>The loop of \<open>main\<close>: packets arrive in any order with the turns of the task. The result is the
  state and everything sent; a panic ends the program.\<close>

datatype ni_event = Arrives "u8 list" | Turn u16 "u8 list \<Rightarrow> Ipv4Addr \<Rightarrow> string + nat"

fun main_loop ::
  "endian \<Rightarrow> ni_event list \<Rightarrow> Ni \<Rightarrow> (boxed_error, Ni) outcome \<times> (Ipv4Addr \<times> u8 list) list" where
  "main_loop e [] ni = (Ok ni, [])"
| "main_loop e (Arrives data # events) ni = main_loop e events (Nih_on_recv data ni)"
| "main_loop e (Turn rnd sendto # events) ni =
     (case Ni_process e rnd sendto ni of
        None \<Rightarrow> main_loop e events ni
      | Some (Ok ni, sent) \<Rightarrow> (let (r, later) = main_loop e events ni in (r, sent @ later))
      | Some (Err er, sent) \<Rightarrow> (Err er, sent)
      | Some (Panic, sent) \<Rightarrow> (Panic, sent))"

section \<open>Connecting\<close>

lemma in_interface_listing:
  "s \<in> set (list_network_interfaces f m) \<longleftrightarrow> (\<exists>a \<in># item_bag (interfaces (database m)). status a = s)"
proof -
  have "set (list_network_interfaces f m) = set_mset (mset (list_network_interfaces f m))" by simp
  also have "\<dots> = status ` set_mset (item_bag (interfaces (database m)))"
    by (simp only: list_network_interfaces_def list_interface_status_def list_status_sorted(2) set_image_mset)
  finally show ?thesis by auto
qed

lemma interface_names_unique:
  assumes "manager_reach config af try_send m"
  shows "distinct (map interface_name (filter (\<lambda>s. interface_name s \<noteq> None) (list_network_interfaces f (shared m))))"
  unfolding list_network_interfaces_def list_interface_status_def
  using manager_reach_ok [OF assms] interfaces_listed(2) by blast

lemma filter_named_unique:
  assumes "distinct (map h (filter (\<lambda>s. h s \<noteq> None) xs))" "s \<in> set xs" "h s = Some n"
  shows "filter (\<lambda>t. case h t of Some m \<Rightarrow> m = n | None \<Rightarrow> False) xs = [s]"
proof -
  have "filter (\<lambda>t. case h t of Some m \<Rightarrow> m = n | None \<Rightarrow> False) xs = filter (\<lambda>t. h t = Some n) (filter (\<lambda>s. h s \<noteq> None) xs)"
    by (induction xs) (auto split: option.splits)
  moreover have "s \<in> set (filter (\<lambda>s. h s \<noteq> None) xs)" using assms(2,3) by simp
  ultimately show ?thesis
    using assms(1,3) by (induction xs) (auto simp: filter_empty_conv image_iff split: if_splits)
qed

text \<open>C8: In every reachable state of the manager a connection to an interface binds to the one device that
  the listing shows for the name, in whatever order the maps are iterated; a name that is not
  listed fails without a system call and without a change. A connection that fails leaves the open
  sockets as they were, and one that succeeds adds exactly one, with the caller's address and
  protocol.\<close>

theorem connect_ipv4_outcome:
  fixes pl :: "('sub, 'ch) platform"
  assumes "manager_reach config af try_send (interface_manager pl)" "network_reach (packet_sockets pl)"
    and "\<forall>device. (\<exists>e. sys_socket (calls device) = Inl e) \<or> (\<exists>fd. sys_socket (calls device) = Inr fd \<and> fd \<notin> set (open_fds (packet_sockets pl)))"
    and "connect_ipv4 f calls name source protocol groups handle_id pl = (r, pl')"
  shows "interface_manager pl' = interface_manager pl \<and>
    (\<forall>s \<in> set (list_network_interfaces g (shared (interface_manager pl))). interface_name s = Some name \<longrightarrow>
       network_interface_new (calls (status_device (network_link_status s))) groups handle_id (packet_sockets pl) =
         (obind r (\<lambda>_. Ok ()), packet_sockets pl')) \<and>
    ((\<forall>s \<in> set (list_network_interfaces g (shared (interface_manager pl))). interface_name s \<noteq> Some name) \<longrightarrow>
       r = Err (IllegalState (''Failed to find a device matching '' @ name)) \<and> pl' = pl) \<and>
    (case r of
       Ok c \<Rightarrow> c = \<lparr>packet_source = source, packet_protocol = protocol\<rparr> \<and>
         (\<exists>fd. fd \<notin> set (open_fds (packet_sockets pl)) \<and> open_fds (packet_sockets pl') = open_fds (packet_sockets pl) @ [fd])
     | Err e \<Rightarrow> open_fds (packet_sockets pl') = open_fds (packet_sockets pl)
     | Panic \<Rightarrow> False)"
proof -
  let ?list = "list_network_interfaces f (shared (interface_manager pl))"
  let ?found = "filter (\<lambda>t. case interface_name t of Some m \<Rightarrow> m = name | None \<Rightarrow> False) ?list"
  have same: "set (list_network_interfaces g (shared (interface_manager pl))) = set ?list"
    by (auto simp: in_interface_listing)
  show ?thesis
  proof (cases "\<exists>s \<in> set ?list. interface_name s = Some name")
    case False
    then have none: "?found = []" by (auto simp: filter_empty_conv split: option.splits)
    have "r = Err (IllegalState (''Failed to find a device matching '' @ name)) \<and> pl' = pl"
      using assms(4) by (simp add: connect_ipv4_def platform_list_network_interfaces_def none)
    with False show ?thesis by (auto simp: same)
  next
    case True
    then obtain s where s: "s \<in> set ?list" "interface_name s = Some name" by blast
    have found: "?found = [s]"
      using filter_named_unique [OF interface_names_unique [OF assms(1)]] s .
    have one: "t = s" if "t \<in> set ?list" "interface_name t = Some name" for t
    proof -
      have "t \<in> set ?found" using that by simp
      with found show ?thesis by simp
    qed
    let ?c = "calls (status_device (network_link_status s))"
    obtain q net where new: "network_interface_new ?c groups handle_id (packet_sockets pl) = (q, net)" by fastforce
    have r: "r = obind q (\<lambda>_. Ok \<lparr>packet_source = source, packet_protocol = protocol\<rparr>)" and pl': "pl' = pl\<lparr>packet_sockets := net\<rparr>"
      using assms(4) by (simp_all add: connect_ipv4_def platform_list_network_interfaces_def found new)
    have "obind r (\<lambda>_. Ok ()) = q" by (cases q) (simp_all add: r)
    then have bound: "network_interface_new (calls (status_device (network_link_status t))) groups handle_id (packet_sockets pl) =
        (obind r (\<lambda>_. Ok ()), packet_sockets pl')" if "t \<in> set ?list" "interface_name t = Some name" for t
      using one [OF that] new by (simp add: pl')
    have "(\<exists>e. q = Err e \<and> (net = packet_sockets pl \<or> net = packet_sockets pl\<lparr>removals := removals (packet_sockets pl) @ [handle_id]\<rparr>)) \<or>
        (\<exists>fd. fd \<notin> set (open_fds (packet_sockets pl)) \<and> q = Ok () \<and> net = packet_sockets pl
          \<lparr>open_fds := open_fds (packet_sockets pl) @ [fd], adding := adding (packet_sockets pl) @ [(handle_id, fd)]\<rparr>)"
    proof -
      have "(\<exists>e. sys_socket ?c = Inl e) \<or> (\<exists>fd. sys_socket ?c = Inr fd \<and> fd \<notin> set (open_fds (packet_sockets pl)))"
        by (rule assms(3) [rule_format])
      then obtain e where "sys_socket ?c = Inl e \<or> (\<exists>fd. sys_socket ?c = Inr fd \<and> fd \<notin> set (open_fds (packet_sockets pl)))"
        by blast
      from network_interface_new_cases [OF new conjunct1 [OF network_reach_ok [OF assms(2)]] this] show ?thesis .
    qed
    then have "case r of
       Ok c \<Rightarrow> c = \<lparr>packet_source = source, packet_protocol = protocol\<rparr> \<and>
         (\<exists>fd. fd \<notin> set (open_fds (packet_sockets pl)) \<and> open_fds (packet_sockets pl') = open_fds (packet_sockets pl) @ [fd])
     | Err e \<Rightarrow> open_fds (packet_sockets pl') = open_fds (packet_sockets pl)
     | Panic \<Rightarrow> False"
      by (elim disjE exE conjE) (simp_all add: r pl')
    moreover have "interface_manager pl' = interface_manager pl" by (simp add: pl')
    ultimately show ?thesis using bound s by (simp add: same) blast
  qed
qed

text \<open>An interface of the configuration on a link that the configuration does not have, as \<open>Unused\<close> of
  the program's own configuration.\<close>

definition stray_config :: Router where
  "stray_config =
     \<lparr>network_links = [],
      network_interfaces = [(''Unused'', \<lparr>interface_vrf = None, interface_network_link = ''doesnotexist'', interface_ip_addresses = []\<rparr>)],
      vrfs = []\<rparr>"

definition stray_status :: NetworkInterfaceStatus where
  "stray_status =
     \<lparr>interface_name = Some ''Unused'', status_addresses = [],
      network_link_status = \<lparr>link_name = Some ''doesnotexist'', status_device = [], operational_state = Misconfigured\<rparr>\<rparr>"

abbreviation new_stray ::
  "('sub, 'ch) sender \<Rightarrow> 'ch \<Rightarrow> ('sub, 'ch) interface_manager router_result" where
  "new_stray try_send ch \<equiv> InterfaceManager_new (Ok ()) (\<lambda>_. 0) sample_env stray_config try_send (Ok []) (Ok []) ch"

lemma stray_gather:
  "gather sample_env stray_config p [] [] =
     ([], [(CanonicalNetworkId_new None (Some ''Unused'') None,
            NetworkStatusItem_new 3000000000 (CanonicalNetworkId_new None (Some ''Unused'') None) stray_status)])"
  by (simp add: gather_def collect_links_def collect_unmapped_def collect_addresses_def configured_interfaces_def
      configured_interface_def device_interfaces_def add_missing_def stray_config_def stray_status_def Let_def
      sample_env_def link_maps_new_def hm_collect_def insert_at_def)

lemma stray_listing:
  "\<exists>m. new_stray try_send ch = Ok m \<and> list_network_interfaces f (shared m) = [stray_status]"
proof -
  let ?i = "CanonicalNetworkId_new None (Some ''Unused'') None"
  let ?x = "NetworkStatusItem_new 3000000000 ?i stray_status"
  have new: "item_bag (interfaces InterfaceManagerDatabase_new) = {#}" "item_bag (links InterfaceManagerDatabase_new) = {#}"
    by (simp_all add: InterfaceManagerDatabase_new_def empty_table_def item_bag_def)
  have apart: "apart ([] :: link_map)" "apart [(?i, ?x)]" by (simp_all add: apart_def ids_apart_def NetworkStatusItem_new_def conflicts_def same_key_def CanonicalNetworkId_new_def)
  from poll_links_settle [OF db_new_ok apart(1), of sample_env] obtain db1 d1 n1 where
    1: "poll_links sample_env [] InterfaceManagerDatabase_new = Ok (db1, d1, n1)" "db_ok db1"
      "interfaces db1 = interfaces InterfaceManagerDatabase_new"
    by auto
  from poll_interfaces_settle [OF 1(2) apart(2), of sample_env] obtain db2 d2 n2 est where
    2: "poll_interfaces sample_env [(?i, ?x)] db1 = Ok (db2, d2, n2)"
      "list_all2 (settled (item_bag (interfaces db1))) (iter_order (interfaces_order sample_env) [(?i, ?x)]) est"
      "item_bag (interfaces db2) = mset est"
    by auto
  have "iter_order (interfaces_order sample_env) [(?i, ?x)] = [(?i, ?x)]" by (simp add: insert_at_def)
  with 2(2) have "est = [?x]" by (simp add: list_all2_Cons1 settled_def announced_def 1(3) new)
  then have bag: "item_bag (interfaces db2) = {#?x#}" using 2(3) by simp
  have "new_stray try_send ch = Ok \<lparr>running = True, scanning = True, shared = (manager_new ch)\<lparr>database := db2\<rparr>\<rparr>"
    by (simp add: InterfaceManager_new_def poll_def try_poll_def stray_gather manager_new_def 1(1) 2(1))
  moreover have "mset (list_network_interfaces f ((manager_new ch)\<lparr>database := db2\<rparr>)) = {#stray_status#}"
    by (simp add: list_network_interfaces_def list_interface_status_def list_status_sorted(2) bag NetworkStatusItem_new_def)
  ultimately show ?thesis by auto
qed

text \<open>C15: In every reachable state, an interface that is configured on a link which is not configured, when it
  is listed, is listed with an empty device name, and a connection to it is not refused: it asks the kernel
  to bind the socket to that name, which on Linux removes the binding, so that the socket takes part in
  every device.\<close>

theorem connect_unlinked:
  assumes "manager_reach config af try_send (interface_manager pl)" "config_ok config"
    and "(name, interface) \<in> set (network_interfaces config)"
    and "interface_network_link interface \<notin> fst ` set (network_links config)"
    and "s \<in> set (list_network_interfaces f (shared (interface_manager pl)))" "interface_name s = Some name"
  shows "status_device (network_link_status s) = [] \<and>
    connect_ipv4 f calls name source protocol groups handle_id pl =
      (let (r, ps) = network_interface_new (calls []) groups handle_id (packet_sockets pl)
       in (obind r (\<lambda>_. Ok \<lparr>packet_source = source, packet_protocol = protocol\<rparr>), pl\<lparr>packet_sockets := ps\<rparr>))"
proof -
  from assms(5) obtain a where a: "a \<in># item_bag (interfaces (database (shared (interface_manager pl))))" "status a = s"
    by (auto simp: in_interface_listing)
  with manager_reach_fits [OF assms(1)] have fits: "interface_fits config a" by (auto simp: items_all_def)
  have "net_device (item_id a) = None"
  proof (cases "net_device (item_id a)")
    case (Some device)
    with fits a(2) assms(6) obtain other l where other: "(name, other) \<in> set (network_interfaces config)"
        "(interface_network_link other, l) \<in> set (network_links config)"
      by (auto simp: interface_fits_def interface_configured_def)
    with assms(2,3) have "other = interface" by (auto simp: config_ok_def dest: eq_key_imp_eq_value)
    with other(2) assms(4) show ?thesis by force
  qed
  with fits a(2) have empty: "status_device (network_link_status s) = []"
    by (auto simp: interface_fits_def interface_typed_def)
  have "filter (\<lambda>t. case interface_name t of Some m \<Rightarrow> m = name | None \<Rightarrow> False)
      (list_network_interfaces f (shared (interface_manager pl))) = [s]"
    using filter_named_unique [OF interface_names_unique [OF assms(1)]] assms(5,6) .
  with empty show ?thesis
    by (simp add: connect_ipv4_def platform_list_network_interfaces_def split: prod.split)
qed

abbreviation sample_platform :: "('sub, 'ch) interface_manager \<Rightarrow> ('sub, 'ch) platform" where
  "sample_platform m \<equiv> \<lparr>interface_manager = m, network_poller = \<lparr>epoll_fd = 4, poller_running = True, controller_running = True\<rparr>,
     packet_sockets = network_new\<rparr>"

theorem connect_ipv4_outcome_witness:
  "\<exists>m pl'. new_stray bounded_send (\<lambda>_. (0, [])) = Ok m \<and>
     connect_ipv4 (\<lambda>_. 0) (\<lambda>device. sample_calls 5 None) ''Unused'' 0xAC100A02 89 [0xE0000005] 1 (sample_platform m) =
       (Ok \<lparr>packet_source = 0xAC100A02, packet_protocol = 89\<rparr>, pl') \<and> open_fds (packet_sockets pl') = [5]"
proof -
  let ?calls = "\<lambda>device :: string. sample_calls 5 None"
  obtain m :: "(nat, nat \<Rightarrow> nat \<times> NetworkStatusUpdate list) interface_manager" where
    m: "new_stray bounded_send (\<lambda>_. (0, [])) = Ok m" "list_network_interfaces (\<lambda>_. 0) (shared m) = [stray_status]"
    using stray_listing [of bounded_send "\<lambda>_. (0, [])" "\<lambda>_. 0"] by blast
  let ?pl = "sample_platform m"
  obtain r pl' where call: "connect_ipv4 (\<lambda>_. 0) ?calls ''Unused'' 0xAC100A02 89 [0xE0000005] 1 ?pl = (r, pl')"
    by (rule prod.exhaust)
  have reach: "manager_reach stray_config sample_families bounded_send (interface_manager ?pl)"
    using reach_new [OF m(1)] by simp
  have net: "network_reach (packet_sockets ?pl)" "open_fds (packet_sockets ?pl) = []"
    by (simp_all add: network_reach_new) (simp add: network_new_def)
  have fresh: "\<forall>device. (\<exists>e. sys_socket (?calls device) = Inl e) \<or> (\<exists>fd. sys_socket (?calls device) = Inr fd \<and> fd \<notin> set (open_fds (packet_sockets ?pl)))"
    by (simp add: sample_calls_def network_new_def)
  note * = connect_ipv4_outcome [OF reach net(1) fresh call, of "\<lambda>_. 0"]
  have "stray_status \<in> set (list_network_interfaces (\<lambda>_. 0) (shared (interface_manager ?pl)))" "interface_name stray_status = Some ''Unused''"
    by (simp_all add: m(2)) (simp add: stray_status_def)
  with * have new: "network_interface_new (sample_calls 5 None) [0xE0000005] 1 network_new = (obind r (\<lambda>_. Ok ()), packet_sockets pl')"
    by (simp add: m(2))
  then have "obind r (\<lambda>_. Ok ()) = Ok ()" "open_fds (packet_sockets pl') = [5]"
    by (auto simp: sample_simps dest: sym)
  with * m(1) call show ?thesis by (cases r) auto
qed

theorem connect_unlinked_witness:
  "\<exists>m pl'. new_stray bounded_send (\<lambda>_. (0, [])) = Ok m \<and>
     connect_ipv4 (\<lambda>_. 0) (\<lambda>device. sample_calls (if device = [] then 5 else 6) None) ''Unused'' 0xAC100A02 89 [0xE0000005] 1
       (sample_platform m) = (Ok \<lparr>packet_source = 0xAC100A02, packet_protocol = 89\<rparr>, pl') \<and> open_fds (packet_sockets pl') = [5]"
proof -
  let ?calls = "\<lambda>device :: string. sample_calls (if device = [] then 5 else 6) None"
  obtain m :: "(nat, nat \<Rightarrow> nat \<times> NetworkStatusUpdate list) interface_manager" where
    m: "new_stray bounded_send (\<lambda>_. (0, [])) = Ok m" "list_network_interfaces (\<lambda>_. 0) (shared m) = [stray_status]"
    using stray_listing [of bounded_send "\<lambda>_. (0, [])" "\<lambda>_. 0"] by blast
  let ?pl = "sample_platform m"
  have reach: "manager_reach stray_config sample_families bounded_send (interface_manager ?pl)"
    using reach_new [OF m(1)] by simp
  have "config_ok stray_config" "interface_name stray_status = Some ''Unused''"
    by (simp_all add: config_ok_def stray_config_def stray_status_def)
  moreover obtain interface where "(''Unused'', interface) \<in> set (network_interfaces stray_config)"
      "interface_network_link interface \<notin> fst ` set (network_links stray_config)"
    by (simp add: stray_config_def)
  moreover have "stray_status \<in> set (list_network_interfaces (\<lambda>_. 0) (shared (interface_manager ?pl)))" by (simp add: m(2))
  ultimately have "connect_ipv4 (\<lambda>_. 0) ?calls ''Unused'' 0xAC100A02 89 [0xE0000005] 1 ?pl =
      (let (r, ps) = network_interface_new (sample_calls 5 None) [0xE0000005] 1 (packet_sockets ?pl)
       in (obind r (\<lambda>_. Ok \<lparr>packet_source = 0xAC100A02, packet_protocol = 89\<rparr>), ?pl\<lparr>packet_sockets := ps\<rparr>))"
    using connect_unlinked [OF reach, of "''Unused''" interface stray_status "\<lambda>_. 0" ?calls] by simp
  with m(1) show ?thesis by (auto simp: sample_simps)
qed

section \<open>The answers of the task\<close>

definition response :: OspfHelloPacket where
  "response = hello_built (internet_checksum (hello_wire (hello_built 0 response_builder))) response_builder"

lemma response_builder_fields:
  "hpb_neighbors response_builder = [0x01010101]" "hpb_network_mask response_builder = Ipv4Netmask_new 4294967292"
  "hpb_router_id response_builder = 0x02020202" "hpb_area_id response_builder = 0" "hpb_hello_interval response_builder = 10"
  "hpb_router_dead_interval response_builder = 40"
  by (simp_all add: response_builder_def OspfHelloPacketBuilder_new_def)

lemma response_build: "OspfHelloPacketBuilder_build e response_builder = Ok response"
proof -
  obtain p where "OspfHelloPacketBuilder_build e response_builder = Ok p"
    using hello_build_cases(2) [of response_builder e] hello_build_cases(4) [of response_builder e]
    by (auto simp: response_builder_fields)
  with hello_build_OkD [OF this] show ?thesis by (simp add: response_def)
qed

lemma response_sum: "ones_sum (hello_wire (hello_built 0 response_builder)) = 180346"
proof -
  have m: "netmask_number (Ipv4Netmask_new 4294967292) = 4294967292"
    by (simp add: Ipv4Netmask_new_def split: option.split)
  show ?thesis
    by (simp add: hello_built_def OspfHeader_bytes_def OspfHeaderBuilder_build_def with_checksum_def
        OspfHeaderBuilder_new_def OspfHelloPacket_payload_def response_builder_def
        OspfHelloPacketBuilder_new_def octets_def to_be_bytes_evals to_be_bytes_8_0 m)
qed

lemma response_parses: "OspfHelloPacket_try_from (hello_wire response) = Ok response"
proof -
  have "ospf_blank (hello_wire response) = hello_wire (hello_built 0 response_builder)"
    by (simp only: response_def hello_built_blank)
  then have "ones_sum (ospf_blank (hello_wire response)) = 180346" by (simp only: response_sum)
  then show ?thesis
    using hello_self_parse [OF response_build response_builder_fields(2), where trailing = "[]"] by (simp add: Let_def)
qed

lemma length_response: "length (hello_wire response) = 48"
  by (simp add: response_def hello_built_def response_builder_fields)

lemma ip_not_panic: "IpV4Header_try_from d \<noteq> Panic"
  by (simp add: IpV4Header_try_from_eq ipv4_parse_spec_def Let_def)

text \<open>A received packet that the task answers: it has an IP header, and another source.\<close>

definition foreign :: "Ipv4Addr \<Rightarrow> u8 list \<Rightarrow> bool" where
  "foreign local packet = (case IpV4Header_try_from packet of Ok ip \<Rightarrow> ip_source_address ip \<noteq> local | _ \<Rightarrow> False)"

definition answer :: "Ipv4Addr \<times> u8 list" where
  "answer = (AllSPFRouters, hello_wire response)"

definition answer_packet :: "packet_interface \<Rightarrow> u8 list" where
  "answer_packet conn = IpV4Header_bytes (sent_header (packet_source conn) AllSPFRouters (packet_protocol conn) 48) @ hello_wire response"

lemma process_packet_eq:
  "process_packet e rnd sendto local conn packet =
     (case IpV4Header_try_from packet of
        Err er \<Rightarrow> (Err (BoxedProtocol er), [])
      | Panic \<Rightarrow> (Panic, [])
      | Ok ip \<Rightarrow>
          if ip_source_address ip = local then (Ok (), [])
          else (case sendto (answer_packet conn) AllSPFRouters of
                  Inl er \<Rightarrow> Err (BoxedRouter (System er)) | Inr n \<Rightarrow> Ok (), [answer]))"
proof -
  have "obind (OspfHelloPacketBuilder_build e response_builder) OspfHelloPacket_bytes = Ok (hello_wire response)"
    by (simp add: response_build OspfHelloPacket_bytes_def)
  then show ?thesis
    using length_response
    by (auto simp: process_packet_def send_ipv4_eq answer_def answer_packet_def split: outcome.split sum.split)
qed

text \<open>C9: Every packet that the task receives is, on either byte order, refused with the parser's error,
  ignored when the router itself has sent it, or answered with one hello to 224.0.0.5, whatever
  its protocol and payload. What then goes to the kernel is one IP packet from the connection's
  address whose payload the router's own parser reads back as the hello meant, with the fixed
  identity of the program, and which the task, if it hears it, does not answer again.\<close>

theorem packet_answered:
  "(case IpV4Header_try_from packet of
      Err er \<Rightarrow> process_packet e rnd sendto local conn packet = (Err (BoxedProtocol er), [])
    | Panic \<Rightarrow> False
    | Ok ip \<Rightarrow> process_packet e rnd sendto local conn packet =
        (if ip_source_address ip = local then (Ok (), [])
         else (case sendto (answer_packet conn) AllSPFRouters of
                 Inl er \<Rightarrow> Err (BoxedRouter (System er)) | Inr n \<Rightarrow> Ok (), [answer]))) \<and>
   (\<exists>h. IpV4Header_try_from (answer_packet conn) = Ok h \<and> unat (ip_total_length h) = length (answer_packet conn) \<and>
      ip_source_address h = packet_source conn \<and> ip_destination_address h = AllSPFRouters \<and>
      ip_protocol h = packet_protocol conn) \<and>
   OspfHelloPacket_try_from (drop 20 (answer_packet conn)) = Ok response \<and>
   ospf_router_id (hello_header response) = 0x02020202 \<and> hello_router_dead_interval response = 40 \<and>
   hello_neighbors response = [0x01010101] \<and>
   process_packet e rnd sendto (packet_source conn) conn (answer_packet conn) = (Ok (), [])"
proof -
  let ?h = "sent_header (packet_source conn) AllSPFRouters (packet_protocol conn) 48"
  have parse: "IpV4Header_try_from (answer_packet conn) = Ok ?h"
    unfolding answer_packet_def by (rule ip_wire.decode_encode) (rule sent_header_unfragmented)
  have len: "length (IpV4Header_bytes ?h) = 20" by (simp add: IpV4Header_bytes_def Let_def octets_def)
  moreover have "unat (ip_total_length ?h) = 68" by (simp add: sent_header_def)
  moreover have "ospf_router_id (hello_header response) = 0x02020202 \<and> hello_router_dead_interval response = 40 \<and>
      hello_neighbors response = [0x01010101]"
    by (simp add: response_def hello_built_def response_builder_fields OspfHeaderBuilder_build_def with_checksum_def
        OspfHeaderBuilder_new_def)
  moreover have "IpV4Header_try_from packet \<noteq> Panic" by (rule ip_not_panic)
  ultimately show ?thesis
    using length_response response_parses
    by (simp add: process_packet_eq parse split: outcome.split) (simp add: answer_packet_def sent_header_def)
qed

text \<open>What arrives in a run.\<close>

fun arrivals :: "ni_event list \<Rightarrow> u8 list list" where
  "arrivals [] = []"
| "arrivals (Arrives data # events) = data # arrivals events"
| "arrivals (Turn rnd sendto # events) = arrivals events"

lemma Ni_process_eq:
  "Ni_process e rnd sendto ni =
     (case receiver ni of
        [] \<Rightarrow> None
      | packet # rest \<Rightarrow> Some (Ok (ni\<lparr>receiver := rest\<rparr>), if foreign (local_address ni) packet then [answer] else []))"
proof (cases "receiver ni")
  case (Cons packet rest)
  then show ?thesis
    using ip_not_panic [of packet]
    by (auto simp: Ni_process_def process_packet_eq foreign_def split: outcome.split sum.split)
qed (simp add: Ni_process_def)

text \<open>C10: However packets arrive between the turns of the task, the program's loop never panics and never
  holds more than 100 packets. It takes them in order, sends one answer for each foreign packet
  taken and nothing else, and loses a packet only when 100 are waiting; packets that the router
  itself has sent cause no answer, so no packet of its own keeps it busy.\<close>

theorem main_loop_answers:
  assumes "main_loop e events ni = (r, sent)" "length (receiver ni) \<le> 100"
  shows "\<exists>ni' taken kept. r = Ok ni' \<and> local_address ni' = local_address ni \<and> length (receiver ni') \<le> 100 \<and>
    subseq kept (arrivals events) \<and>
    (length (receiver ni) + length (arrivals events) \<le> 100 \<longrightarrow> kept = arrivals events) \<and>
    receiver ni @ kept = taken @ receiver ni' \<and>
    sent = replicate (length (filter (foreign (local_address ni)) taken)) answer"
  using assms
proof (induction e events ni arbitrary: r sent rule: main_loop.induct)
  case (1 e ni)
  then show ?case by (intro exI [of _ ni] exI [of _ "[]"]) simp
next
  case (2 e data events ni)
  show ?case
  proof (cases "length (receiver ni) < 100")
    case True
    from 2(2) have "main_loop e events (Nih_on_recv data ni) = (r, sent)" by simp
    from 2(1) [OF this] True obtain ni' taken kept where
      *: "r = Ok ni'" "local_address ni' = local_address ni" "length (receiver ni') \<le> 100" "subseq kept (arrivals events)"
        "length (receiver ni) + 1 + length (arrivals events) \<le> 100 \<longrightarrow> kept = arrivals events"
        "(receiver ni @ [data]) @ kept = taken @ receiver ni'"
        "sent = replicate (length (filter (foreign (local_address ni)) taken)) answer"
      by (auto simp: Nih_on_recv_def)
    then show ?thesis by (intro exI [of _ ni'] exI [of _ taken] exI [of _ "data # kept"]) auto
  next
    case False
    with 2 obtain ni' taken kept where
      *: "r = Ok ni'" "local_address ni' = local_address ni" "length (receiver ni') \<le> 100" "subseq kept (arrivals events)"
        "receiver ni @ kept = taken @ receiver ni'"
        "sent = replicate (length (filter (foreign (local_address ni)) taken)) answer"
      by (auto simp: Nih_on_recv_def)
    with False show ?thesis by (intro exI [of _ ni'] exI [of _ taken] exI [of _ kept]) auto
  qed
next
  case (3 e rnd sendto events ni)
  show ?case
  proof (cases "receiver ni")
    case Nil
    with 3 show ?thesis by (simp add: Ni_process_eq)
  next
    case (Cons packet rest)
    let ?ni = "ni\<lparr>receiver := rest\<rparr>" and ?a = "if foreign (local_address ni) packet then [answer] else []"
    obtain later where later: "main_loop e events ?ni = (r, later)" "sent = ?a @ later"
      using 3(3) by (auto simp: Ni_process_eq Cons split: prod.splits)
    have "Ni_process e rnd sendto ni = Some (Ok ?ni, ?a)" by (simp add: Ni_process_eq Cons)
    from 3(2) [OF this refl refl later(1)] 3(4) Cons obtain ni' taken kept where
      *: "r = Ok ni'" "local_address ni' = local_address ni" "length (receiver ni') \<le> 100" "subseq kept (arrivals events)"
        "length rest + length (arrivals events) \<le> 100 \<longrightarrow> kept = arrivals events" "rest @ kept = taken @ receiver ni'"
        "later = replicate (length (filter (foreign (local_address ni)) taken)) answer"
      by auto
    then show ?thesis
      using later(2) Cons by (intro exI [of _ ni'] exI [of _ "packet # taken"] exI [of _ kept]) auto
  qed
qed

lemma foreign_answer: "foreign local (answer_packet conn) \<longleftrightarrow> packet_source conn \<noteq> local"
proof -
  have "IpV4Header_try_from (answer_packet conn) = Ok (sent_header (packet_source conn) AllSPFRouters (packet_protocol conn) 48)"
    unfolding answer_packet_def by (rule ip_wire.decode_encode) (rule sent_header_unfragmented)
  then show ?thesis by (simp add: foreign_def sent_header_def)
qed

text \<open>A router hears itself and a neighbor, whose packet it answers.\<close>

definition sample_conn :: "Ipv4Addr \<Rightarrow> packet_interface" where
  "sample_conn source = \<lparr>packet_source = source, packet_protocol = OSPF_PROTOCOL_NUMBER\<rparr>"

definition sample_events :: "ni_event list" where
  "sample_events =
     [Arrives (answer_packet (sample_conn 2)), Arrives (answer_packet (sample_conn 3)),
      Turn 0 (\<lambda>_ _. Inr 68), Turn 0 (\<lambda>_ _. Inr 68), Turn 0 (\<lambda>_ _. Inr 68)]"

theorem main_loop_answers_witness:
  "\<exists>ni'. main_loop Little sample_events \<lparr>local_address = 2, receiver = [], connection = sample_conn 2\<rparr> = (Ok ni', [answer])"
proof -
  let ?ni = "\<lparr>local_address = 2, receiver = [], connection = sample_conn 2\<rparr>"
  obtain r sent where run: "main_loop Little sample_events ?ni = (r, sent)" by (rule prod.exhaust)
  then have "sent = [answer]"
    by (simp add: sample_events_def Nih_on_recv_def Ni_process_eq foreign_answer sample_conn_def)
  moreover from main_loop_answers [OF run] obtain ni' where "r = Ok ni'" by auto
  ultimately show ?thesis using run by simp
qed

section \<open>The start of the program\<close>

datatype capability = CAP_NET_RAW | CAP_NET_ADMIN | OtherCapability string

definition required_capabilities :: "capability list" where
  "required_capabilities = [CAP_NET_RAW, CAP_NET_ADMIN]"

definition missing_capability :: "capability list \<Rightarrow> capability option" where
  "missing_capability effective = find (\<lambda>c. c \<notin> set effective) required_capabilities"

text \<open>The permitted capabilities that are warned about.\<close>

definition superfluous_capabilities :: "capability list \<Rightarrow> capability list" where
  "superfluous_capabilities permitted = filter (\<lambda>c. c \<notin> set required_capabilities) permitted"

definition main_config :: Router where
  "main_config =
     \<lparr>network_links = hm_collect
        [(''iface0'', \<lparr>link_device = ''vlan.10'', network_link_type = GenericInterface\<rparr>),
         (''iface1'', \<lparr>link_device = ''eth1'', network_link_type = GenericInterface\<rparr>),
         (''iface2'', \<lparr>link_device = ''dummy0'', network_link_type = GenericInterface\<rparr>),
         (''iface3'', \<lparr>link_device = ''lo'', network_link_type = GenericInterface\<rparr>)],
      network_interfaces = hm_collect
        [(''Inside'', \<lparr>interface_vrf = None, interface_network_link = ''iface0'', interface_ip_addresses = []\<rparr>),
         (''Outside'', \<lparr>interface_vrf = None, interface_network_link = ''iface1'', interface_ip_addresses = []\<rparr>),
         (''Unused'', \<lparr>interface_vrf = None, interface_network_link = ''doesnotexist'', interface_ip_addresses = []\<rparr>),
         (''Loopback'', \<lparr>interface_vrf = None, interface_network_link = ''iface3'', interface_ip_addresses = []\<rparr>)],
      vrfs = []\<rparr>"

text \<open>\<open>main\<close> up to its loop; without a result it has returned because of a missing capability. The
  listings in between only print.\<close>

definition main_start ::
  "capability list \<Rightarrow> ('sub, 'ch) platform router_result \<Rightarrow> 'sub \<Rightarrow> order_choice \<Rightarrow> (string \<Rightarrow> socket_calls) \<Rightarrow> u64 \<Rightarrow>
   (boxed_error, (Ni \<times> ('sub, 'ch) platform) option) outcome" where
  "main_start effective new_router subscriber f calls handle_id =
     (case missing_capability effective of
        Some c \<Rightarrow> Ok None
      | None \<Rightarrow>
          obind (map_err BoxedRouter new_router) (\<lambda>pl.
          let pl = platform_subscribe subscriber pl;
              (r, pl) = Ni_new f calls ''Inside'' 0xAC100A02 handle_id pl
          in obind r (\<lambda>ni. Ok (Some (ni, pl)))))"

text \<open>The shipped configuration has the shape that scans rely on, and one interface on no link.\<close>

lemma main_config_ok: "config_ok main_config \<and> devices_distinct main_config"
  by (simp add: config_ok_def devices_distinct_def main_config_def hm_collect_def)

text \<open>When the kernel does not answer the first scan, the error is only logged and the router is made
  with an empty database, for every configuration; the program then ends with the error that no
  device matches \<open>Inside\<close>, before it has opened any socket.\<close>

theorem start_without_links:
  "\<exists>m. InterfaceManager_new (Ok ()) g env config try_send (Err e) address_reply ch = Ok m \<and>
    main_start (required_capabilities @ others) (LinuxRustyRouterPlatform_new (Ok m) (Inr epoll)) subscriber f calls handle_id
      = Err (BoxedRouter (IllegalState ''Failed to find a device matching Inside''))"
proof -
  let ?m = "\<lparr>running = True, scanning = True, shared = manager_new ch\<rparr>"
  have new: "InterfaceManager_new (Ok ()) g env config try_send (Err e) address_reply ch = Ok ?m"
    by (simp add: InterfaceManager_new_def poll_def try_poll_def)
  have "s \<notin> set (list_network_interfaces f (subscribe subscriber (manager_new ch)))" for s
    by (simp add: in_interface_listing subscribe_def manager_new_def InterfaceManagerDatabase_new_def empty_table_def item_bag_def)
  then have none: "list_network_interfaces f (subscribe subscriber (manager_new ch)) = []"
    by (metis list.set_intros(1) neq_Nil_conv)
  have "missing_capability (required_capabilities @ others) = None"
    by (simp add: missing_capability_def required_capabilities_def)
  then have "main_start (required_capabilities @ others) (LinuxRustyRouterPlatform_new (Ok ?m) (Inr epoll)) subscriber f calls handle_id
      = Err (BoxedRouter (IllegalState ''Failed to find a device matching Inside''))"
    by (simp add: main_start_def LinuxRustyRouterPlatform_new_def Poller_new_def platform_subscribe_def Ni_new_def
        connect_ipv4_def platform_list_network_interfaces_def none)
  with new show ?thesis by blast
qed

section \<open>What the program prints\<close>

datatype ordering = Less | Equal | Greater

definition compare_strings :: "string \<Rightarrow> string \<Rightarrow> ordering" where
  "compare_strings a b = (if a < b then Less else if a = b then Equal else Greater)"

text \<open>The order of \<open>sort_by\<close>: by name where both have one, by device otherwise.\<close>

definition compare_links :: "NetworkLinkStatus \<Rightarrow> NetworkLinkStatus \<Rightarrow> ordering" where
  "compare_links a b =
     (case (link_name a, link_name b) of
        (Some a_name, Some b_name) \<Rightarrow> compare_strings a_name b_name
      | _ \<Rightarrow> compare_strings (status_device a) (status_device b))"

text \<open>The lines printed for the links, in the order that \<open>sort_by\<close> gives them, and for the interfaces.
  The texts of addresses come from the standard library.\<close>

definition banner :: "string \<Rightarrow> string list" where
  "banner title = [replicate 80 (CHR ''=''), title, replicate 80 (CHR ''='')]"

definition tab :: string where "tab = [char_of (9 :: nat)]"

definition display_IpAddress :: "(IpAddr \<Rightarrow> string) \<Rightarrow> IpAddress \<Rightarrow> string" where
  "display_IpAddress show_addr a = show_addr (ip_addr a) @ ''/'' @ show_nat (unat (ip_prefix a))"

definition mapped_link_lines :: "NetworkLinkStatus list \<Rightarrow> string list" where
  "mapped_link_lines sorted_links = List.map_filter (\<lambda>s. case link_name s of
     Some name \<Rightarrow> Some (name @ tab @ status_device s @ tab @ display_state (operational_state s)) | None \<Rightarrow> None) sorted_links"

definition available_device_lines :: "NetworkLinkStatus list \<Rightarrow> string list" where
  "available_device_lines sorted_links = List.map_filter (\<lambda>s. case link_name s of
     None \<Rightarrow> Some (status_device s @ tab @ display_state (operational_state s)) | Some _ \<Rightarrow> None) sorted_links"

definition print_links :: "NetworkLinkStatus list \<Rightarrow> string list" where
  "print_links sorted_links =
     banner ''Mapped Link'' @ mapped_link_lines sorted_links @ [''''] @
     banner ''Available Devices'' @ available_device_lines sorted_links @ ['''']"

definition address_lines :: "(IpAddr \<Rightarrow> string) \<Rightarrow> NetworkInterfaceStatus \<Rightarrow> string list" where
  "address_lines show_addr s = map (\<lambda>addr. tab @ display_IpAddress show_addr addr) (status_addresses s)"

definition named_line :: "string \<Rightarrow> NetworkInterfaceStatus \<Rightarrow> string" where
  "named_line name s = name @ '' ('' @ status_device (network_link_status s) @ '')''"

definition mapped_interface_lines :: "(IpAddr \<Rightarrow> string) \<Rightarrow> NetworkInterfaceStatus \<Rightarrow> string list" where
  "mapped_interface_lines show_addr s = (case interface_name s of
     Some name \<Rightarrow>
       if operational_state (network_link_status s) \<noteq> NotFound then named_line name s # address_lines show_addr s else []
   | None \<Rightarrow> [])"

definition missing_interface_lines :: "NetworkInterfaceStatus \<Rightarrow> string list" where
  "missing_interface_lines s =
     (if operational_state (network_link_status s) = NotFound
      then (case interface_name s of Some name \<Rightarrow> [named_line name s] | None \<Rightarrow> []) else [])"

definition unmapped_interface_lines :: "(IpAddr \<Rightarrow> string) \<Rightarrow> NetworkInterfaceStatus \<Rightarrow> string list" where
  "unmapped_interface_lines show_addr s =
     (if interface_name s = None then status_device (network_link_status s) # address_lines show_addr s else [])"

definition print_interfaces :: "(IpAddr \<Rightarrow> string) \<Rightarrow> NetworkInterfaceStatus list \<Rightarrow> string list" where
  "print_interfaces show_addr addresses =
     banner ''Mapped Router Interfaces'' @ concat (map (mapped_interface_lines show_addr) addresses) @ [''''] @
     banner ''Missing Network Interfaces'' @ concat (map missing_interface_lines addresses) @ [''''] @
     banner ''Unmapped Interface'' @ concat (map (unmapped_interface_lines show_addr) addresses) @ ['''']"

text \<open>The program's order of links is not an order: with the shipped configuration and one device
  without a name between \<open>eth1\<close> and \<open>vlan.10\<close>, three links each come before the next in a circle, which
  the contract of \<open>sort_by\<close> forbids.\<close>

theorem link_order_cycle:
  assumes "''eth1'' < device" "device < ''vlan.10''"
  shows "\<exists>a b. hm_get (network_links main_config) ''iface0'' = Some a \<and> hm_get (network_links main_config) ''iface1'' = Some b \<and>
    compare_links \<lparr>link_name = Some ''iface0'', status_device = link_device a, operational_state = Up\<rparr>
      \<lparr>link_name = Some ''iface1'', status_device = link_device b, operational_state = Up\<rparr> = Less \<and>
    compare_links \<lparr>link_name = Some ''iface1'', status_device = link_device b, operational_state = Up\<rparr>
      \<lparr>link_name = None, status_device = device, operational_state = Up\<rparr> = Less \<and>
    compare_links \<lparr>link_name = None, status_device = device, operational_state = Up\<rparr>
      \<lparr>link_name = Some ''iface0'', status_device = link_device a, operational_state = Up\<rparr> = Less"
proof -
  have "''iface0'' < ''iface1''" by (simp add: less_char_def)
  with assms show ?thesis by (simp add: compare_links_def compare_strings_def main_config_def hm_collect_def)
qed

theorem link_order_cycle_witness:
  "\<exists>a :: NetworkLink. compare_links \<lparr>link_name = None, status_device = ''eth2'', operational_state = Up\<rparr>
      \<lparr>link_name = Some ''iface0'', status_device = link_device a, operational_state = Up\<rparr> = Less"
proof -
  have "''eth1'' < ''eth2''" "''eth2'' < ''vlan.10''" by (simp_all add: less_char_def)
  from link_order_cycle [OF this] show ?thesis by blast
qed

text \<open>The interface on the unknown link is not printed under the missing interfaces but under the mapped
  ones, without a device.\<close>

theorem unlinked_printed_as_mapped:
  "\<exists>m. new_stray try_send ch = Ok m \<and>
    print_interfaces show_addr (list_network_interfaces f (shared m)) =
      banner ''Mapped Router Interfaces'' @ [''Unused ()'', ''''] @
      banner ''Missing Network Interfaces'' @ [''''] @ banner ''Unmapped Interface'' @ ['''']"
proof -
  obtain m where m: "new_stray try_send ch = Ok m" "list_network_interfaces f (shared m) = [stray_status]"
    using stray_listing [of try_send ch f] by blast
  have "print_interfaces show_addr [stray_status] =
      banner ''Mapped Router Interfaces'' @ [''Unused ()'', ''''] @
      banner ''Missing Network Interfaces'' @ [''''] @ banner ''Unmapped Interface'' @ ['''']"
    by (simp add: print_interfaces_def mapped_interface_lines_def missing_interface_lines_def unmapped_interface_lines_def
        named_line_def address_lines_def stray_status_def)
  with m show ?thesis by auto
qed

end
