(* ===== verification/Interface_Scan.thy ===== *)
theory Interface_Scan
  imports Interface_Manager
begin

text \<open>
  Which interfaces a scan ends with (\<open>try_poll\<close> of \<open>interface/mod.rs\<close>): for a configuration whose
  interfaces are on different links, the maps that the scan's stages build are described by what
  they hold for an identifier, and the interfaces of a whole scan by the kernel's reports, the
  addresses that it has given and the configuration.
\<close>

section \<open>What a map says of an identifier\<close>

definition view :: "(CanonicalNetworkId, 'a NetworkStatusItem) hash_map \<Rightarrow> (CanonicalNetworkId \<times> 'a) set" where
  "view m = {(i, status x) | i x. hm_get m i = Some x}"

lemma view_Nil [simp]: "view [] = {}"
  by (simp add: view_def)

lemma view_insert: "view (hm_insert i x m) = insert (i, status x) {e \<in> view m. fst e \<noteq> i}"
  by (auto simp: view_def split: if_splits)

lemma view_insert_fresh: "i \<notin> fst ` view m \<Longrightarrow> view (hm_insert i x m) = insert (i, status x) (view m)"
  by (auto simp: view_insert)

lemma view_covers: "hm_wf m \<Longrightarrow> covers (view m) m"
  by (force simp: covers_def view_def item_entry_def)

text \<open>A loop that enters one entry for each element of a list, or none, all under different identifiers.\<close>

lemma view_fold_enumerate:
  assumes step: "\<And>n x m. x \<in> set xs \<Longrightarrow> (case entry x of
      None \<Rightarrow> view (body n x m) = view m
    | Some (i, s) \<Rightarrow> i \<notin> fst ` view m \<longrightarrow> view (body n x m) = insert (i, s) (view m))"
    and apart: "distinct (map fst (List.map_filter entry xs))"
      "fst ` view m \<inter> fst ` set (List.map_filter entry xs) = {}"
  shows "view (fold (\<lambda>(n, x). body n x) (enumerate k xs) m) = view m \<union> set (List.map_filter entry xs)"
  using assms
proof (induction xs arbitrary: k m)
  case (Cons x xs)
  show ?case
  proof (cases "entry x")
    case None
    with Cons.prems(1) [of x k m] have "view (body k x m) = view m" by simp
    with Cons.IH [of "body k x m" "Suc k"] Cons.prems None show ?thesis
      by (simp add: List.map_filter_simps)
  next
    case (Some e)
    obtain i s where e: "e = (i, s)" by (cases e)
    with Cons.prems(3) Some have "i \<notin> fst ` view m" by (simp add: List.map_filter_simps)
    with Cons.prems(1) [of x k m] Some e have v: "view (body k x m) = insert (i, s) (view m)" by simp
    have "view (fold (\<lambda>(n, x). body n x) (enumerate (Suc k) xs) (body k x m))
        = view (body k x m) \<union> set (List.map_filter entry xs)"
    proof (rule Cons.IH)
      show "distinct (map fst (List.map_filter entry xs))"
        using Cons.prems(2) Some by (simp add: List.map_filter_simps)
      show "fst ` view (body k x m) \<inter> fst ` set (List.map_filter entry xs) = {}"
        using Cons.prems(2,3) Some e unfolding v by (auto simp: List.map_filter_simps)
    qed (use Cons.prems(1) in simp)
    then show ?thesis by (simp add: v List.map_filter_simps Some e)
  qed
qed (simp add: List.map_filter_simps)

section \<open>The addresses given\<close>

definition given :: "address_families \<Rightarrow> NetlinkMessage list \<Rightarrow> u64 \<Rightarrow> IpAddress list" where
  "given af network_data index =
     map snd (filter (\<lambda>(i, a). i = index) (List.map_filter (\<lambda>m. process_address_message af (payload m)) network_data))"

lemma collect_addresses_given:
  "hm_wf (collect_addresses af network_data) \<and>
   hm_get (collect_addresses af network_data) i = (case given af network_data i of [] \<Rightarrow> None | known \<Rightarrow> Some known)"
proof -
  define old where "old m i = (case hm_get m i of None \<Rightarrow> [] | Some known \<Rightarrow> known)" for m :: address_map and i
  have "hm_wf (fold (address_response af) xs m) \<and>
      hm_get (fold (address_response af) xs m) i = (case old m i @ given af xs i of [] \<Rightarrow> None | known \<Rightarrow> Some known)"
    if "hm_wf m" "[] \<notin> snd ` set m" for xs m
    using that
  proof (induction xs arbitrary: m)
    case Nil
    have "known \<noteq> []" if "hm_get m i = Some known" for known
      using map_of_SomeD [OF that] Nil(2) by force
    then show ?case using Nil by (auto simp: old_def given_def List.map_filter_simps split: option.split list.split)
  next
    case (Cons x xs)
    show ?case
    proof (cases "process_address_message af (payload x)")
      case None
      with Cons show ?thesis by (simp add: address_response_def given_def List.map_filter_simps)
    next
      case (Some r)
      obtain j a where r: "r = (j, a)" by (cases r)
      let ?m = "hm_insert j (old m j @ [a]) m"
      have step: "address_response af x m = ?m"
        by (simp add: address_response_def Some r old_def split: option.split)
      have "[] \<notin> snd ` set ?m" using Cons.prems(2) set_hm_insert [of j "old m j @ [a]" m] by auto
      with Cons.IH [of ?m] Cons.prems(1) have
        "hm_wf (fold (address_response af) xs ?m) \<and>
         hm_get (fold (address_response af) xs ?m) i = (case old ?m i @ given af xs i of [] \<Rightarrow> None | known \<Rightarrow> Some known)"
        by simp
      moreover have "old ?m i @ given af xs i = old m i @ given af (x # xs) i"
        by (simp add: old_def given_def List.map_filter_simps Some r)
      ultimately show ?thesis by (simp only: fold.simps comp_apply step)
    qed
  qed
  from this [of "[]" network_data] show ?thesis by (simp add: collect_addresses_def old_def)
qed

section \<open>The links found by name and by index\<close>

definition indexed :: "(u64 \<times> NetworkLinkStatus) list \<Rightarrow> link_maps \<Rightarrow> bool" where
  "indexed rs s \<longleftrightarrow>
     (\<forall>n x. hm_get (mapped_links s) n = Some x \<longrightarrow>
        (\<exists>i. (i, status x) \<in> set rs \<and> link_name (status x) = Some n \<and>
          item_id x = CanonicalNetworkId_new (Some i) (Some n) (Some (status_device (status x))))) \<and>
     (\<forall>(i, st) \<in> set rs. \<forall>n. link_name st = Some n \<longrightarrow> hm_get (mapped_links s) n \<noteq> None) \<and>
     (\<forall>i x. hm_get (mapped_devices s) i = Some x \<longrightarrow> (i, status x) \<in> set rs) \<and>
     (\<forall>(i, st) \<in> set rs. hm_get (mapped_devices s) i \<noteq> None)"

lemma link_response_indexed:
  assumes "indexed rs s"
  shows "indexed (rs @ reports p [response]) (link_response p now response s)"
proof (cases "process_link_message p (payload response)")
  case None
  with assms show ?thesis by (simp add: link_response_def reports_def List.map_filter_simps)
next
  case (Some r)
  obtain index st where r: "r = (index, st)" by (cases r)
  have rs: "rs @ reports p [response] = rs @ [(index, st)]"
    by (simp add: reports_def List.map_filter_simps Some r)
  let ?x = "NetworkStatusItem_new now (CanonicalNetworkId_new (Some index) (link_name st) (Some (status_device st))) st"
  have x: "status ?x = st" "item_id ?x = CanonicalNetworkId_new (Some index) (link_name st) (Some (status_device st))"
    by (simp_all add: NetworkStatusItem_new_def)
  have maps: "mapped_links (link_response p now response s) =
        (case link_name st of None \<Rightarrow> mapped_links s | Some n \<Rightarrow> hm_insert n ?x (mapped_links s))"
      "mapped_devices (link_response p now response s) = hm_insert index ?x (mapped_devices s)"
    by (simp_all add: link_response_def Some r Let_def NetworkStatusItem_new_def split: option.split)
  from assms have old:
    "\<And>n x. hm_get (mapped_links s) n = Some x \<Longrightarrow> (\<exists>i. (i, status x) \<in> set rs \<and> link_name (status x) = Some n \<and>
        item_id x = CanonicalNetworkId_new (Some i) (Some n) (Some (status_device (status x))))"
    "\<And>i t n. (i, t) \<in> set rs \<Longrightarrow> link_name t = Some n \<Longrightarrow> hm_get (mapped_links s) n \<noteq> None"
    "\<And>i x. hm_get (mapped_devices s) i = Some x \<Longrightarrow> (i, status x) \<in> set rs"
    "\<And>i t. (i, t) \<in> set rs \<Longrightarrow> hm_get (mapped_devices s) i \<noteq> None"
    unfolding indexed_def by blast+
  have new: "hm_get (mapped_links (link_response p now response s)) n =
      (if link_name st = Some n then Some ?x else hm_get (mapped_links s) n)" for n
    by (simp add: maps split: option.split)
  show ?thesis
    unfolding rs indexed_def new
  proof (intro conjI allI impI ballI)
    fix n x
    assume "(if link_name st = Some n then Some ?x else hm_get (mapped_links s) n) = Some x"
    then show "\<exists>i. (i, status x) \<in> set (rs @ [(index, st)]) \<and> link_name (status x) = Some n \<and>
        item_id x = CanonicalNetworkId_new (Some i) (Some n) (Some (status_device (status x)))"
      using old(1) [of n x] x by (cases "link_name st = Some n") auto
  next
    fix e
    assume "e \<in> set (rs @ [(index, st)])"
    then show "case e of (i, t) \<Rightarrow> \<forall>n. link_name t = Some n \<longrightarrow>
        (if link_name st = Some n then Some ?x else hm_get (mapped_links s) n) \<noteq> None"
      using old(2) by (cases e rule: prod.exhaust) auto
  next
    fix i x
    assume "hm_get (mapped_devices (link_response p now response s)) i = Some x"
    then show "(i, status x) \<in> set (rs @ [(index, st)])"
      using old(3) [of i x] x by (cases "i = index") (auto simp: maps)
  next
    fix e
    assume "e \<in> set (rs @ [(index, st)])"
    then show "case e of (i, t) \<Rightarrow> hm_get (mapped_devices (link_response p now response s)) i \<noteq> None"
      using old(4) by (cases e rule: prod.exhaust) (auto simp: maps)
  qed
qed

lemma collect_links_indexed: "indexed (reports p link_data) (collect_links p clock config link_data)"
proof -
  have "indexed (rs @ reports p xs) (fold (\<lambda>(n, response). link_response p (clock n) response) (enumerate k xs) s)"
    if "indexed rs s" for rs s k xs
    using that
  proof (induction xs arbitrary: rs s k)
    case (Cons x xs)
    from Cons.IH [OF link_response_indexed [OF Cons.prems, of p x "clock k"], of "Suc k"]
    show ?case by (simp add: reports_Cons [of p x xs])
  qed (simp add: reports_def List.map_filter_simps)
  from this [of "[]" "link_maps_new config" link_data 0] show ?thesis
    by (simp add: collect_links_def) (simp add: indexed_def link_maps_new_def)
qed

section \<open>The configured interfaces\<close>

definition link_report :: "(u64 \<times> NetworkLinkStatus) list \<Rightarrow> string \<Rightarrow> (u64 \<times> NetworkLinkStatus) option" where
  "link_report rs name = find (\<lambda>(i, s). link_name s = Some name) rs"

text \<open>The interface of a configuration, given the state of an interface whose link is not reported.\<close>

definition configured_entry ::
  "NetworkLinkOperationalState \<Rightarrow> Router \<Rightarrow> (u64 \<times> NetworkLinkStatus) list \<Rightarrow> (u64 \<Rightarrow> IpAddress list) \<Rightarrow>
   string \<times> NetworkInterface \<Rightarrow> CanonicalNetworkId \<times> NetworkInterfaceStatus" where
  "configured_entry unreported_state config rs known = (\<lambda>(name, interface).
     case link_report rs (interface_network_link interface) of
       Some (index, s) \<Rightarrow>
         (CanonicalNetworkId_new (Some index) (Some name) (Some (status_device s)),
          \<lparr>interface_name = Some name, status_addresses = sort (known index), network_link_status = s\<rparr>)
     | None \<Rightarrow>
         (case hm_get (network_links config) (interface_network_link interface) of
            Some l \<Rightarrow>
              (CanonicalNetworkId_new None (Some name) (Some (link_device l)),
               \<lparr>interface_name = Some name, status_addresses = [],
                network_link_status = \<lparr>link_name = Some (interface_network_link interface),
                  status_device = link_device l, operational_state = unreported_state\<rparr>\<rparr>)
          | None \<Rightarrow>
              (CanonicalNetworkId_new None (Some name) None,
               \<lparr>interface_name = Some name, status_addresses = [],
                network_link_status = \<lparr>link_name = Some (interface_network_link interface),
                  status_device = [], operational_state = Misconfigured\<rparr>\<rparr>)))"

lemma configured_entry_name: "net_name (fst (configured_entry u config rs known e)) = Some (fst e)"
  by (cases e) (simp add: configured_entry_def CanonicalNetworkId_new_def split: option.split)

text \<open>Reports of a kernel that names each link once.\<close>

definition names_distinct :: "(u64 \<times> NetworkLinkStatus) list \<Rightarrow> bool" where
  "names_distinct rs \<longleftrightarrow>
     (\<forall>i s j t n. (i, s) \<in> set rs \<and> (j, t) \<in> set rs \<and> link_name s = Some n \<and> link_name t = Some n \<longrightarrow> i = j \<and> s = t)"

lemma reports_names_distinct:
  assumes "config_ok config" "reports_distinct (reports (NetlinkMessageProcessor_new f config) link_data)"
  shows "names_distinct (reports (NetlinkMessageProcessor_new f config) link_data)"
proof -
  let ?rs = "reports (NetlinkMessageProcessor_new f config) link_data"
  have "i = j \<and> s = t" if "(i, s) \<in> set ?rs" "(j, t) \<in> set ?rs" "link_name s = Some n" "link_name t = Some n" for i s j t n
  proof -
    from report_configured [OF assms(1) that(1,3)] report_configured [OF assms(1) that(2,4)]
    have "status_device s = status_device t" using config_link_same [OF assms(1)] by metis
    with report_same [OF assms(2) that(1,2)] show ?thesis by simp
  qed
  then show ?thesis unfolding names_distinct_def by blast
qed

lemma link_report_in: "link_report rs n = Some (i, s) \<Longrightarrow> (i, s) \<in> set rs \<and> link_name s = Some n"
  unfolding link_report_def by (metis (mono_tags, lifting) case_prodD find_Some_iff nth_mem)

lemma link_report_iff:
  assumes "names_distinct rs"
  shows "link_report rs n = Some (i, s) \<longleftrightarrow> (i, s) \<in> set rs \<and> link_name s = Some n"
proof
  assume "link_report rs n = Some (i, s)"
  then show "(i, s) \<in> set rs \<and> link_name s = Some n" by (rule link_report_in)
next
  assume *: "(i, s) \<in> set rs \<and> link_name s = Some n"
  then have "link_report rs n \<noteq> None" by (auto simp: link_report_def find_None_iff)
  then obtain j t where j: "link_report rs n = Some (j, t)" by auto
  with link_report_in [OF this] * assms have "i = j \<and> s = t" unfolding names_distinct_def by blast
  with j show "link_report rs n = Some (i, s)" by simp
qed

lemma mapped_link:
  assumes "indexed rs maps" "names_distinct rs"
  shows "case link_report rs n of
      None \<Rightarrow> hm_get (mapped_links maps) n = None
    | Some (i, s) \<Rightarrow> \<exists>x. hm_get (mapped_links maps) n = Some x \<and> status x = s \<and>
        item_id x = CanonicalNetworkId_new (Some i) (Some n) (Some (status_device s))"
proof (cases "hm_get (mapped_links maps) n")
  case None
  then have "\<not> (\<exists>(i, s) \<in> set rs. link_name s = Some n)" using assms(1) by (auto simp: indexed_def)
  then have "link_report rs n = None" by (auto simp: link_report_def find_None_iff)
  with None show ?thesis by simp
next
  case (Some x)
  with assms(1) obtain i where i: "(i, status x) \<in> set rs" "link_name (status x) = Some n"
      "item_id x = CanonicalNetworkId_new (Some i) (Some n) (Some (status_device (status x)))"
    unfolding indexed_def by blast
  then have "link_report rs n = Some (i, status x)" by (simp add: link_report_iff [OF assms(2)])
  with Some i(3) show ?thesis by simp
qed

definition remaining :: "(u64 \<times> NetworkLinkStatus) list \<Rightarrow> NetworkInterface \<Rightarrow> address_map \<Rightarrow> address_map" where
  "remaining rs interface A = (case link_report rs (interface_network_link interface) of Some (i, s) \<Rightarrow> hm_remove i A | None \<Rightarrow> A)"

lemma configured_interface_view:
  assumes "indexed rs maps" "names_distinct rs"
    and known: "\<And>i s. link_report rs (interface_network_link interface) = Some (i, s) \<Longrightarrow>
      (case hm_get A i of None \<Rightarrow> [] | Some known \<Rightarrow> known) = known i"
  shows "\<exists>x. configured_interface config (mapped_links maps) now (name, interface) (A, m) =
      (remaining rs interface A, hm_insert (fst (configured_entry Misconfigured config rs known (name, interface))) x m) \<and>
    status x = snd (configured_entry Misconfigured config rs known (name, interface)) \<and> refreshed x = now"
proof (cases "link_report rs (interface_network_link interface)")
  case None
  with mapped_link [OF assms(1,2), of "interface_network_link interface"] show ?thesis
    by (auto simp: configured_interface_def configured_entry_def remaining_def Let_def NetworkStatusItem_new_def split: option.split)
next
  case (Some r)
  obtain i s where r: "r = (i, s)" by (cases r)
  with mapped_link [OF assms(1,2), of "interface_network_link interface"] Some obtain x where
    x: "hm_get (mapped_links maps) (interface_network_link interface) = Some x" "status x = s"
      "item_id x = CanonicalNetworkId_new (Some i) (Some (interface_network_link interface)) (Some (status_device s))"
    by auto
  have "net_id (item_id x) = Some i" "net_device (item_id x) = Some (status_device s)"
    by (simp_all add: x(3) CanonicalNetworkId_new_def)
  with x(1,2) known [of i s] Some r show ?thesis
    by (intro exI [of _ "NetworkStatusItem_new now (fst (configured_entry Misconfigured config rs known (name, interface)))
          (snd (configured_entry Misconfigured config rs known (name, interface)))"])
      (simp add: configured_interface_def configured_entry_def remaining_def Let_def NetworkStatusItem_new_def del: map_of_eq_Some_iff)
qed

definition used :: "(u64 \<times> NetworkLinkStatus) list \<Rightarrow> (string \<times> NetworkInterface) list \<Rightarrow> u64 set" where
  "used rs xs = {i. \<exists>name interface s. (name, interface) \<in> set xs \<and> link_report rs (interface_network_link interface) = Some (i, s)}"

lemma remaining_get: "hm_get (remaining rs interface A) j =
    (case link_report rs (interface_network_link interface) of
       None \<Rightarrow> hm_get A j | Some (i, s) \<Rightarrow> if j = i then None else hm_get A j)"
  by (simp add: remaining_def split: option.split)

lemma used_Cons: "used rs ((name, interface) # xs) =
    (case link_report rs (interface_network_link interface) of None \<Rightarrow> used rs xs | Some (i, s) \<Rightarrow> insert i (used rs xs))"
  by (auto simp: used_def split: option.split)

lemma configured_fold:
  assumes "indexed rs maps" "names_distinct rs" "reports_distinct rs"
    and "distinct (map fst xs)" "distinct (map (\<lambda>(name, interface). interface_network_link interface) xs)" "hm_wf A"
    and "\<And>i. i \<in> used rs xs \<Longrightarrow> (case hm_get A i of None \<Rightarrow> [] | Some known \<Rightarrow> known) = known i"
    and "\<And>e. e \<in> set xs \<Longrightarrow> Some (fst e) \<notin> net_name ` fst ` view m"
    and "fold (\<lambda>(n, e). configured_interface config (mapped_links maps) (clock n) e) (enumerate k xs) (A, m) = (A', m')"
  shows "hm_wf A' \<and> (\<forall>i. hm_get A' i = (if i \<in> used rs xs then None else hm_get A i)) \<and>
    view m' = view m \<union> configured_entry Misconfigured config rs known ` set xs"
  using assms(4-)
proof (induction xs arbitrary: A m k)
  case (Cons e xs)
  obtain name interface where e: "e = (name, interface)" by (cases e)
  let ?c = "configured_entry Misconfigured config rs known e"
  have known: "(case hm_get A i of None \<Rightarrow> [] | Some known \<Rightarrow> known) = known i"
    if "link_report rs (interface_network_link interface) = Some (i, s)" for i s
    using Cons.prems(4) [of i] that by (simp add: e used_Cons)
  have "\<exists>x. configured_interface config (mapped_links maps) (clock k) (name, interface) (A, m) =
      (remaining rs interface A, hm_insert (fst (configured_entry Misconfigured config rs known (name, interface))) x m) \<and>
    status x = snd (configured_entry Misconfigured config rs known (name, interface)) \<and> refreshed x = clock k"
    by (rule configured_interface_view [OF assms(1,2)]) (rule known)
  then obtain x where
    step: "configured_interface config (mapped_links maps) (clock k) e (A, m) = (remaining rs interface A, hm_insert (fst ?c) x m)"
      "status x = snd ?c"
    by (auto simp: e)
  have "net_name (fst ?c) \<notin> net_name ` fst ` view m" using Cons.prems(5) [of e] by (simp add: configured_entry_name)
  then have fresh: "fst ?c \<notin> fst ` view m" by blast
  have view: "view (hm_insert (fst ?c) x m) = insert ?c (view m)"
    by (simp add: view_insert_fresh [OF fresh] step(2))
  have others: "i \<noteq> j" if "i \<in> used rs xs" "link_report rs (interface_network_link interface) = Some (j, s)" for i j s
  proof
    assume "i = j"
    with that(1) obtain n' interface' t where t: "(n', interface') \<in> set xs" "link_report rs (interface_network_link interface') = Some (j, t)"
      by (auto simp: used_def)
    from link_report_in [OF t(2)] link_report_in [OF that(2)] report_same [OF assms(3), of j s j t]
    have "interface_network_link interface' = interface_network_link interface" by simp
    with Cons.prems(2) t(1) show False by (auto simp: e rev_image_eqI)
  qed
  have "hm_wf A' \<and> (\<forall>i. hm_get A' i = (if i \<in> used rs xs then None else hm_get (remaining rs interface A) i)) \<and>
    view m' = view (hm_insert (fst ?c) x m) \<union> configured_entry Misconfigured config rs known ` set xs"
  proof (rule Cons.IH [of "remaining rs interface A" "hm_insert (fst ?c) x m" "Suc k"])
    show "distinct (map fst xs)" "distinct (map (\<lambda>(name, interface). interface_network_link interface) xs)"
      using Cons.prems(1,2) by simp_all
    show "hm_wf (remaining rs interface A)"
      using Cons.prems(3) by (simp add: remaining_def split: option.split)
    show "(case hm_get (remaining rs interface A) i of None \<Rightarrow> [] | Some known \<Rightarrow> known) = known i" if "i \<in> used rs xs" for i
      using Cons.prems(4) [of i] that others [OF that] by (auto simp: e used_Cons remaining_get split: option.splits)
    show "Some (fst e') \<notin> net_name ` fst ` view (hm_insert (fst ?c) x m)" if "e' \<in> set xs" for e'
    proof -
      have "fst e' \<noteq> fst e" using Cons.prems(1) that by (metis distinct.simps(2) image_eqI list.map(2) list.set_map)
      then show ?thesis using Cons.prems(5) [of e'] that unfolding view by (simp add: configured_entry_name)
    qed
    show "fold (\<lambda>(n, e). configured_interface config (mapped_links maps) (clock n) e) (enumerate (Suc k) xs)
        (remaining rs interface A, hm_insert (fst ?c) x m) = (A', m')"
      using Cons.prems(6) by (simp add: step(1))
  qed
  then show ?case
    unfolding view by (auto simp: e used_Cons remaining_get split: option.splits if_splits)
qed (simp add: used_def)

section \<open>The other interfaces\<close>

lemma set_map_filter: "set (List.map_filter f xs) = {y. \<exists>x \<in> set xs. f x = Some y}"
  by (force simp: List.map_filter_def)

lemma distinct_entries:
  assumes "distinct xs" "\<And>x y i s t. x \<in> set xs \<Longrightarrow> y \<in> set xs \<Longrightarrow> entry x = Some (i, s) \<Longrightarrow> entry y = Some (i, t) \<Longrightarrow> x = y"
  shows "distinct (map fst (List.map_filter entry xs))"
  using assms
proof (induction xs)
  case (Cons x xs)
  have IH: "distinct (map fst (List.map_filter entry xs))" using Cons by simp
  show ?case
  proof (cases "entry x")
    case None
    with IH show ?thesis by (simp add: List.map_filter_simps)
  next
    case (Some e)
    obtain i s where e: "e = (i, s)" by (cases e)
    have "(i, t) \<notin> set (List.map_filter entry xs)" for t
    proof
      assume "(i, t) \<in> set (List.map_filter entry xs)"
      then obtain y where "y \<in> set xs" "entry y = Some (i, t)" by (auto simp: List.map_filter_def)
      with Cons.prems(2) [of x y i s t] Cons.prems(1) Some e show False by auto
    qed
    with IH show ?thesis by (auto simp: List.map_filter_simps Some e)
  qed
qed (simp add: List.map_filter_simps)

definition device_entry :: "link_maps \<Rightarrow> u64 \<times> IpAddress list \<Rightarrow> (CanonicalNetworkId \<times> NetworkInterfaceStatus) option" where
  "device_entry maps = (\<lambda>(index, known). map_option (\<lambda>x.
     (CanonicalNetworkId_new (Some index) None (Some (status_device (status x))),
      \<lparr>interface_name = None, status_addresses = sort known, network_link_status = status x\<rparr>)) (hm_get (mapped_devices maps) index))"

lemma device_interfaces_view:
  assumes "hm_wf A" "\<forall>(i, s) \<in> view m. net_name i \<noteq> None"
  shows "view (device_interfaces env (mapped_devices maps) A m) = view m \<union> {e. \<exists>x \<in> set A. device_entry maps x = Some e}"
proof -
  let ?A = "iter_order (address_order env) A"
  have "view (fold (\<lambda>(n, x). device_interface (mapped_devices maps) (address_clock env n) x) (enumerate 0 ?A) m)
      = view m \<union> set (List.map_filter (device_entry maps) ?A)"
  proof (rule view_fold_enumerate)
    fix n and x :: "u64 \<times> IpAddress list" and m' :: interface_map
    show "case device_entry maps x of
        None \<Rightarrow> view (device_interface (mapped_devices maps) (address_clock env n) x m') = view m'
      | Some (i, s) \<Rightarrow> i \<notin> fst ` view m' \<longrightarrow> view (device_interface (mapped_devices maps) (address_clock env n) x m') = insert (i, s) (view m')"
      by (cases x) (auto simp: device_entry_def device_interface_def Let_def view_insert_fresh NetworkStatusItem_new_def split: option.split)
  next
    have "distinct (map fst ?A)" using assms(1) by simp
    then have "distinct ?A" by (simp add: distinct_map)
    then show "distinct (map fst (List.map_filter (device_entry maps) ?A))"
    proof (rule distinct_entries)
      fix x y i s t
      assume *: "x \<in> set ?A" "y \<in> set ?A" "device_entry maps x = Some (i, s)" "device_entry maps y = Some (i, t)"
      obtain a k b l where xy: "x = (a, k)" "y = (b, l)" by (cases x; cases y)
      from *(3,4) have "a = b" by (auto simp: device_entry_def CanonicalNetworkId_new_def xy)
      with *(1,2) assms(1) show "x = y" by (auto simp: xy dest: eq_key_imp_eq_value)
    qed
    have "net_name i = None" if "(i, s) \<in> set (List.map_filter (device_entry maps) ?A)" for i s
      using that by (auto simp: List.map_filter_def device_entry_def CanonicalNetworkId_new_def)
    then show "fst ` view m \<inter> fst ` set (List.map_filter (device_entry maps) ?A) = {}"
      using assms(2) by fastforce
  qed
  then show ?thesis by (simp add: device_interfaces_def set_map_filter)
qed

text \<open>Each interface of the configuration is on a link of its own.\<close>

definition interfaces_distinct :: "Router \<Rightarrow> bool" where
  "interfaces_distinct config \<longleftrightarrow> distinct (map (\<lambda>(name, interface). interface_network_link interface) (network_interfaces config))"

lemma interface_same:
  assumes "interfaces_distinct config" "(n, c) \<in> set (network_interfaces config)" "(n', c') \<in> set (network_interfaces config)"
    and "interface_network_link c = interface_network_link c'"
  shows "n = n' \<and> c = c'"
  using assms distinct_map_eq [of "\<lambda>(n, c). interface_network_link c" "network_interfaces config" "(n, c)" "(n', c')"]
  by (auto simp: interfaces_distinct_def)

lemma link_network_interfaces_iff:
  assumes "interfaces_distinct config"
  shows "hm_get (link_network_interfaces f config) name = Some iface \<longleftrightarrow>
    (\<exists>c. (iface, c) \<in> set (network_interfaces config) \<and> interface_network_link c = name)"
proof -
  let ?kvs = "map (\<lambda>(name, interface). (interface_network_link interface, name)) (iter_order f (network_interfaces config))"
  have "mset (map fst ?kvs) = mset (map (\<lambda>(name, interface). interface_network_link interface) (network_interfaces config))"
    by (simp add: comp_def split_def image_mset.compositionality del: mset_map flip: mset_map) (simp add: mset_map)
  then have "distinct (map fst ?kvs)"
    using assms unfolding interfaces_distinct_def by (metis mset_eq_imp_distinct_iff)
  then have "distinct (map fst (rev ?kvs))" by (metis distinct_rev rev_map)
  then show ?thesis
    by (auto simp: link_network_interfaces_def hm_get_collect hm_get_iff)
qed

definition missing_interface :: "(string, string) hash_map \<Rightarrow> string \<times> string \<Rightarrow> (CanonicalNetworkId \<times> NetworkInterfaceStatus) option" where
  "missing_interface link_interfaces = (\<lambda>(name, dev). map_option (\<lambda>iface.
     (CanonicalNetworkId_new None (Some iface) (Some dev),
      \<lparr>interface_name = Some iface, status_addresses = [],
       network_link_status = \<lparr>link_name = Some name, status_device = dev, operational_state = NotFound\<rparr>\<rparr>))
     (hm_get link_interfaces name))"

lemma fold_unmapped_snd:
  "snd (fold (\<lambda>(n, e). unmapped_link li (clock n) (clock' n) e) (enumerate k xs) s) =
   fold (\<lambda>(n, e). (\<lambda>m. snd (unmapped_link li (clock n) (clock' n) e ([], m)))) (enumerate k xs) (snd s)"
proof (induction xs arbitrary: k s)
  case (Cons e xs)
  have "snd (unmapped_link li (clock k) (clock' k) e s) = snd (unmapped_link li (clock k) (clock' k) e ([], snd s))"
    by (cases s; cases e) (simp add: unmapped_link_def Let_def split: option.split)
  with Cons.IH [of "Suc k" "unmapped_link li (clock k) (clock' k) e s"] show ?case by simp
qed simp

lemma collect_unmapped_view:
  assumes "interfaces_distinct config" "hm_wf unmapped" "config_ok config"
  shows "view (snd (collect_unmapped env config unmapped all_links)) =
    {e. \<exists>x \<in> set unmapped. missing_interface (link_network_interfaces (link_interface_order env) config) x = Some e}"
proof -
  let ?li = "link_network_interfaces (link_interface_order env) config" and ?xs = "iter_order (unmapped_order env) unmapped"
  have "view (fold (\<lambda>(n, e). (\<lambda>m. snd (unmapped_link ?li (unmapped_clock env n) (missing_clock env n) e ([], m)))) (enumerate 0 ?xs) [])
      = view ([] :: interface_map) \<union> set (List.map_filter (missing_interface ?li) ?xs)"
  proof (rule view_fold_enumerate)
    fix n and x :: "string \<times> string" and m' :: interface_map
    show "case missing_interface ?li x of
        None \<Rightarrow> view (snd (unmapped_link ?li (unmapped_clock env n) (missing_clock env n) x ([], m'))) = view m'
      | Some (i, s) \<Rightarrow> i \<notin> fst ` view m' \<longrightarrow>
          view (snd (unmapped_link ?li (unmapped_clock env n) (missing_clock env n) x ([], m'))) = insert (i, s) (view m')"
      by (cases x) (auto simp: missing_interface_def unmapped_link_def Let_def view_insert_fresh NetworkStatusItem_new_def split: option.split)
  next
    have "distinct (map fst ?xs)" using assms(2) by simp
    then have "distinct ?xs" by (simp add: distinct_map)
    then show "distinct (map fst (List.map_filter (missing_interface ?li) ?xs))"
    proof (rule distinct_entries)
      fix x y i s t
      assume *: "x \<in> set ?xs" "y \<in> set ?xs" "missing_interface ?li x = Some (i, s)" "missing_interface ?li y = Some (i, t)"
      obtain n d n' d' where xy: "x = (n, d)" "y = (n', d')" by (cases x; cases y)
      from *(3,4) obtain iface where i: "hm_get ?li n = Some iface" "hm_get ?li n' = Some iface"
        by (auto simp: missing_interface_def xy CanonicalNetworkId_new_def simp del: map_of_eq_Some_iff)
      with link_network_interfaces_iff [OF assms(1)] obtain c c' where
        "(iface, c) \<in> set (network_interfaces config)" "interface_network_link c = n"
        "(iface, c') \<in> set (network_interfaces config)" "interface_network_link c' = n'"
        by metis
      then have "n = n'" using assms(3) by (auto simp: config_ok_def dest: eq_key_imp_eq_value)
      with *(1,2) assms(2) show "x = y" by (auto simp: xy dest: eq_key_imp_eq_value)
    qed
  qed simp
  then show ?thesis
    by (simp add: collect_unmapped_def fold_unmapped_snd set_map_filter)
qed

lemma add_missing_view:
  assumes "hm_wf missing"
  shows "view (add_missing f missing m) = view missing \<union> {e \<in> view m. fst e \<notin> fst ` view missing}"
proof -
  have "view (fold (\<lambda>(i, x). hm_insert i x) xs m) = view xs \<union> {e \<in> view m. fst e \<notin> fst ` view xs}"
    if "distinct (map fst xs)" for xs and m :: interface_map
    using that
  proof (induction xs arbitrary: m)
    case (Cons e xs)
    obtain i x where e: "e = (i, x)" by (cases e)
    have "(i, b) \<notin> view xs" for b using Cons.prems by (auto simp: e view_def image_iff dest!: map_of_SomeD)
    moreover have "view (e # xs) = insert (i, status x) {e \<in> view xs. fst e \<noteq> i}"
      by (auto simp: e view_def split: if_splits)
    ultimately show ?case using Cons.IH [of "hm_insert i x m"] Cons.prems by (auto simp: e view_insert)
  qed (simp add: view_def)
  moreover have "view (iter_order f missing) = view missing"
    using assms by (auto simp: view_def hm_get_iff)
  ultimately show ?thesis using assms by (simp add: add_missing_def)
qed

section \<open>The interfaces of a whole scan\<close>

text \<open>The devices with addresses that no configured interface is on.\<close>

definition unassigned :: "Router \<Rightarrow> (u64 \<times> NetworkLinkStatus) list \<Rightarrow> (u64 \<Rightarrow> IpAddress list) \<Rightarrow> (u64 \<times> NetworkLinkStatus) set" where
  "unassigned config rs known =
     {(i, s) \<in> set rs. known i \<noteq> [] \<and> (\<forall>(name, interface) \<in> set (network_interfaces config). link_name s \<noteq> Some (interface_network_link interface))}"

definition unassigned_entry :: "(u64 \<Rightarrow> IpAddress list) \<Rightarrow> u64 \<times> NetworkLinkStatus \<Rightarrow> CanonicalNetworkId \<times> NetworkInterfaceStatus" where
  "unassigned_entry known = (\<lambda>(i, s). (CanonicalNetworkId_new (Some i) None (Some (status_device s)),
     \<lparr>interface_name = None, status_addresses = sort (known i), network_link_status = s\<rparr>))"

definition expected_interfaces ::
  "Router \<Rightarrow> (u64 \<times> NetworkLinkStatus) list \<Rightarrow> (u64 \<Rightarrow> IpAddress list) \<Rightarrow> (CanonicalNetworkId \<times> NetworkInterfaceStatus) set" where
  "expected_interfaces config rs known =
     configured_entry NotFound config rs known ` set (network_interfaces config) \<union>
     unassigned_entry known ` unassigned config rs known"

text \<open>An interface on a link that is configured and not reported.\<close>

lemma missing_interface_iff:
  assumes "config_ok config" "interfaces_distinct config" "names_distinct rs" "set unmapped = unreported config rs"
  shows "(\<exists>x \<in> set unmapped. missing_interface (link_network_interfaces f config) x = Some e) \<longleftrightarrow>
    (\<exists>c \<in> set (network_interfaces config). link_report rs (interface_network_link (snd c)) = None \<and>
       hm_get (network_links config) (interface_network_link (snd c)) \<noteq> None \<and> e = configured_entry NotFound config rs known c)"
    (is "?l \<longleftrightarrow> ?r")
proof -
  have none: "link_report rs n = None \<longleftrightarrow> (\<forall>(i, s) \<in> set rs. link_name s \<noteq> Some n)" for n
    by (auto simp: link_report_def find_None_iff)
  have link: "hm_get (network_links config) n = Some l \<longleftrightarrow> (n, l) \<in> set (network_links config)" for n l
    using assms(1) by (simp add: config_ok_def)
  show ?thesis
  proof
    assume ?l
    then obtain n d iface where x: "(n, d) \<in> unreported config rs" "hm_get (link_network_interfaces f config) n = Some iface"
        "e = (CanonicalNetworkId_new None (Some iface) (Some d),
          \<lparr>interface_name = Some iface, status_addresses = [],
           network_link_status = \<lparr>link_name = Some n, status_device = d, operational_state = NotFound\<rparr>\<rparr>)"
      unfolding assms(4) by (auto simp: missing_interface_def simp del: map_of_eq_Some_iff)
    from x(1) obtain l where l: "(n, l) \<in> set (network_links config)" "d = link_device l" "link_report rs n = None"
      by (auto simp: unreported_def none)
    from x(2) link_network_interfaces_iff [OF assms(2)] obtain c where
      "(iface, c) \<in> set (network_interfaces config)" "interface_network_link c = n" by blast
    with l x(3) show ?r
      by (intro bexI [of _ "(iface, c)"]) (auto simp: configured_entry_def link [symmetric] simp del: map_of_eq_Some_iff)
  next
    assume ?r
    then obtain iface c l where c: "(iface, c) \<in> set (network_interfaces config)" "link_report rs (interface_network_link c) = None"
        "hm_get (network_links config) (interface_network_link c) = Some l" "e = configured_entry NotFound config rs known (iface, c)"
      by auto
    have "(interface_network_link c, link_device l) \<in> set unmapped"
      using c(2,3) unfolding assms(4) by (auto simp: unreported_def none link)
    moreover have "hm_get (link_network_interfaces f config) (interface_network_link c) = Some iface"
      using c(1) link_network_interfaces_iff [OF assms(2)] by blast
    ultimately show ?l
      using c(2-4) by (intro bexI [of _ "(interface_network_link c, link_device l)"])
        (auto simp: missing_interface_def configured_entry_def simp del: map_of_eq_Some_iff)
  qed
qed

text \<open>What the two ways to enter a missing interface have in common, and where they differ.\<close>

lemma configured_entry_states:
  "fst (configured_entry u config rs known c) = fst (configured_entry v config rs known c)"
  "link_report rs (interface_network_link (snd c)) \<noteq> None \<or> hm_get (network_links config) (interface_network_link (snd c)) = None \<Longrightarrow>
   configured_entry u config rs known c = configured_entry v config rs known c"
  by (cases c; auto simp: configured_entry_def split: option.split)+

lemma unassigned_devices:
  assumes "indexed rs maps" "reports_distinct rs" "hm_wf A"
    and "\<And>i. hm_get A i = (if i \<in> used rs xs then None else case known i of [] \<Rightarrow> None | ks \<Rightarrow> Some ks)"
    and "set xs = set (network_interfaces config)" "names_distinct rs"
  shows "{e. \<exists>x \<in> set A. device_entry maps x = Some e} = unassigned_entry known ` unassigned config rs known"
proof -
  have in_A: "(i, ks) \<in> set A \<longleftrightarrow> i \<notin> used rs xs \<and> ks \<noteq> [] \<and> known i = ks" for i ks
    using assms(4) [of i] hm_get_iff [OF assms(3), of i ks] by (auto split: if_splits list.splits)
  have found: "hm_get (mapped_devices maps) i = Some x \<Longrightarrow> (i, status x) \<in> set rs"
      "(i, s) \<in> set rs \<Longrightarrow> hm_get (mapped_devices maps) i \<noteq> None" for i x s
    using assms(1) unfolding indexed_def by blast+
  have dev: "status x = s" if "hm_get (mapped_devices maps) i = Some x" "(i, s) \<in> set rs" for i x s
    using report_same [OF assms(2) found(1) [OF that(1)] that(2)] by simp
  have used: "i \<in> used rs xs \<longleftrightarrow> (\<exists>(name, c) \<in> set (network_interfaces config). link_name s = Some (interface_network_link c))"
    if "(i, s) \<in> set rs" for i s
  proof -
    have "i \<in> used rs xs \<longleftrightarrow> (\<exists>name c t. (name, c) \<in> set (network_interfaces config) \<and> (i, t) \<in> set rs \<and> link_name t = Some (interface_network_link c))"
      by (simp add: used_def assms(5) link_report_iff [OF assms(6)])
    moreover have "t = s" if "(i, t) \<in> set rs" for t
      using report_same [OF assms(2) that \<open>(i, s) \<in> set rs\<close>] by simp
    ultimately show ?thesis using that by blast
  qed
  show ?thesis
  proof (intro set_eqI iffI)
    fix e
    assume "e \<in> {e. \<exists>x \<in> set A. device_entry maps x = Some e}"
    then obtain i ks x where e: "(i, ks) \<in> set A" "hm_get (mapped_devices maps) i = Some x"
        "e = (CanonicalNetworkId_new (Some i) None (Some (status_device (status x))),
          \<lparr>interface_name = None, status_addresses = sort ks, network_link_status = status x\<rparr>)"
      by (auto simp: device_entry_def simp del: map_of_eq_Some_iff)
    from found(1) [OF e(2)] have s: "(i, status x) \<in> set rs" .
    with e(1) used [OF s] have "(i, status x) \<in> unassigned config rs known" by (auto simp: unassigned_def in_A)
    with e(1,3) show "e \<in> unassigned_entry known ` unassigned config rs known"
      by (intro image_eqI [of _ _ "(i, status x)"]) (auto simp: unassigned_entry_def in_A)
  next
    fix e
    assume "e \<in> unassigned_entry known ` unassigned config rs known"
    then obtain i s where s: "(i, s) \<in> unassigned config rs known" "e = unassigned_entry known (i, s)" by auto
    then have rs: "(i, s) \<in> set rs" by (simp add: unassigned_def)
    from found(2) [OF rs] obtain x where x: "hm_get (mapped_devices maps) i = Some x" by auto
    note x = x dev [OF x rs]
    have "(i, known i) \<in> set A" using s(1) used [OF rs] by (auto simp: in_A unassigned_def)
    with s(2) x show "e \<in> {e. \<exists>x \<in> set A. device_entry maps x = Some e}"
      by (auto simp: device_entry_def unassigned_entry_def intro!: bexI [of _ "(i, known i)"] simp del: map_of_eq_Some_iff)
  qed
qed

lemma overriding_union:
  assumes "M = g ` {c \<in> N. P c}" "\<And>c. c \<in> N \<Longrightarrow> k (f c) \<in> k ` M \<longleftrightarrow> P c" "\<And>e. e \<in> U \<Longrightarrow> k e \<notin> k ` M"
    and "\<And>c. \<not> P c \<Longrightarrow> f c = g c"
  shows "M \<union> {e \<in> f ` N \<union> U. k e \<notin> k ` M} = g ` N \<union> U"
proof -
  define Q where "Q e \<longleftrightarrow> k e \<notin> k ` M" for e
  have Q: "\<And>c. c \<in> N \<Longrightarrow> Q (f c) \<longleftrightarrow> \<not> P c" "\<And>e. e \<in> U \<Longrightarrow> Q e" using assms(2,3) by (simp_all add: Q_def)
  have "{e \<in> f ` N \<union> U. Q e} = f ` {c \<in> N. \<not> P c} \<union> U" using Q by auto
  also have "f ` {c \<in> N. \<not> P c} = g ` {c \<in> N. \<not> P c}" using assms(4) by (intro image_cong) simp_all
  finally have "{e \<in> f ` N \<union> U. k e \<notin> k ` M} = g ` {c \<in> N. \<not> P c} \<union> U" by (simp only: Q_def)
  moreover have "g ` {c \<in> N. P c} \<union> (g ` {c \<in> N. \<not> P c} \<union> U) = g ` N \<union> U" by blast
  ultimately show ?thesis using assms(1) by simp
qed

lemma gather_interfaces:
  assumes "config_ok config" "interfaces_distinct config"
    and "rs = reports (NetlinkMessageProcessor_new f config) link_data" "reports_distinct rs"
    and "gather env config (NetlinkMessageProcessor_new f config) link_data network_data = (all_links, all_interfaces)"
  shows "view all_interfaces = expected_interfaces config rs (given (families env) network_data)"
proof -
  let ?p = "NetlinkMessageProcessor_new f config"
  let ?maps = "collect_links ?p (link_clock env) config link_data" and ?A = "collect_addresses (families env) network_data"
  let ?xs = "iter_order (interface_order env) (network_interfaces config)" and ?known = "given (families env) network_data"
  let ?missing = "snd (collect_unmapped env config (unmapped_links ?maps) (polled_links ?maps))"
  note idx = collect_links_indexed [of ?p link_data "link_clock env" config, folded assms(3)]
  note seen = collect_links_seen [OF assms(1), of ?p link_data "link_clock env", folded assms(3)]
  have names: "names_distinct rs" using reports_names_distinct [OF assms(1), of f link_data] assms(3,4) by simp
  obtain A' m' where conf: "configured_interfaces env config (mapped_links ?maps) ?A = (A', m')" by fastforce
  have all: "all_interfaces = add_missing (missing_order env) ?missing (device_interfaces env (mapped_devices ?maps) A' m')"
    using assms(5) by (auto simp: gather_def conf Let_def split: prod.splits)
  have xs: "distinct (map fst ?xs)" "distinct (map (\<lambda>(name, interface). interface_network_link interface) ?xs)"
  proof -
    show "distinct (map fst ?xs)" using assms(1) by (simp add: config_ok_def)
    have "mset (map (\<lambda>(name, interface). interface_network_link interface) ?xs)
        = mset (map (\<lambda>(name, interface). interface_network_link interface) (network_interfaces config))"
      by (simp only: mset_map mset_iter_order)
    with assms(2) show "distinct (map (\<lambda>(name, interface). interface_network_link interface) ?xs)"
      unfolding interfaces_distinct_def by (metis mset_eq_imp_distinct_iff)
  qed
  note given = collect_addresses_given [of "families env" network_data]
  have "hm_wf A' \<and> (\<forall>i. hm_get A' i = (if i \<in> used rs ?xs then None else hm_get ?A i)) \<and>
      view m' = view ([] :: interface_map) \<union> configured_entry Misconfigured config rs ?known ` set ?xs"
  proof (rule configured_fold [OF idx names assms(4) xs])
    show "fold (\<lambda>(n, e). configured_interface config (mapped_links ?maps) (interface_clock env n) e) (enumerate 0 ?xs) (?A, []) = (A', m')"
      using conf by (simp add: configured_interfaces_def)
    show "(case hm_get ?A i of None \<Rightarrow> [] | Some known \<Rightarrow> known) = ?known i" for i
      using given [of i] by (auto split: list.split)
  qed (use given in simp_all)
  then have A': "hm_wf A'" "\<And>i. hm_get A' i = (if i \<in> used rs ?xs then None else case ?known i of [] \<Rightarrow> None | ks \<Rightarrow> Some ks)"
      and m': "view m' = configured_entry Misconfigured config rs ?known ` set (network_interfaces config)"
    using given by simp_all
  have "net_name i \<noteq> None" if "(i, s) \<in> view m'" for i s
  proof -
    from that obtain c where "configured_entry Misconfigured config rs ?known c = (i, s)" unfolding m' by (metis imageE)
    with configured_entry_name [of Misconfigured config rs ?known c] show ?thesis by simp
  qed
  then have "\<forall>(i, s) \<in> view m'. net_name i \<noteq> None" by blast
  note dev = device_interfaces_view [OF A'(1) this, of env ?maps]
  have un: "{e. \<exists>x \<in> set A'. device_entry ?maps x = Some e} = unassigned_entry ?known ` unassigned config rs ?known"
    by (rule unassigned_devices [OF idx assms(4) A' _ names]) simp
  have wf: "hm_wf ?missing"
    using collect_unmapped_named [of "polled_links ?maps" env config "unmapped_links ?maps"] collect_links_named [of ?p "link_clock env" config link_data]
    by (auto simp: both_named_def maps_named_def entries_def split: prod.splits)
  have M: "view ?missing = {configured_entry NotFound config rs ?known c | c. c \<in> set (network_interfaces config) \<and>
      link_report rs (interface_network_link (snd c)) = None \<and> hm_get (network_links config) (interface_network_link (snd c)) \<noteq> None}"
    using seen missing_interface_iff [OF assms(1,2) names, of "unmapped_links ?maps" "link_interface_order env" _ ?known]
      collect_unmapped_view [OF assms(2) _ assms(1), of "unmapped_links ?maps" env "polled_links ?maps"]
    unfolding seen_def by blast
  let ?P = "\<lambda>c. link_report rs (interface_network_link (snd c)) = None \<and> hm_get (network_links config) (interface_network_link (snd c)) \<noteq> None"
    and ?NI = "set (network_interfaces config)" and ?un = "unassigned_entry ?known ` unassigned config rs ?known"
    and ?conf = "\<lambda>u c. configured_entry u config rs ?known c"
  have V: "view all_interfaces = view ?missing \<union> {e \<in> ?conf Misconfigured ` ?NI \<union> ?un. fst e \<notin> fst ` view ?missing}"
    unfolding all add_missing_view [OF wf] dev un m' ..
  have in_M: "i \<in> fst ` view ?missing \<longleftrightarrow> (\<exists>d \<in> ?NI. ?P d \<and> i = fst (?conf NotFound d))" for i
    unfolding M by force
  have one: "c = d" if "c \<in> ?NI" "d \<in> ?NI" "fst (?conf u c) = fst (?conf v d)" for c d u v
  proof -
    have "fst c = fst d" using arg_cong [OF that(3), of net_name] by (simp add: configured_entry_name)
    with that(1,2) assms(1) show ?thesis by (metis config_ok_def eq_key_imp_eq_value prod.collapse)
  qed
  have yes: "fst (?conf Misconfigured c) \<in> fst ` view ?missing \<longleftrightarrow> ?P c" if "c \<in> ?NI" for c
    unfolding in_M using one that configured_entry_states(1) by blast
  have other: "?conf Misconfigured c = ?conf NotFound c" if "\<not> ?P c" for c
    by (rule configured_entry_states(2)) (use that in argo)
  have un_out: "fst e \<notin> fst ` view ?missing" if e: "e \<in> ?un" for e
  proof
    assume "fst e \<in> fst ` view ?missing"
    then obtain d where "fst e = fst (?conf NotFound d)" unfolding in_M by blast
    then have "net_name (fst e) = Some (fst d)" by (simp add: configured_entry_name)
    with e show False by (auto simp: unassigned_entry_def CanonicalNetworkId_new_def)
  qed
  have "view ?missing = ?conf NotFound ` {c \<in> ?NI. ?P c}" unfolding M by blast
  from overriding_union [OF this yes un_out other] show ?thesis
    unfolding V expected_interfaces_def .
qed

section \<open>The interfaces do not compete\<close>

text \<open>What an identifier of a configured interface says of its link.\<close>

lemma configured_entry_id:
  "net_id (fst (configured_entry u config rs known c)) = map_option fst (link_report rs (interface_network_link (snd c)))"
  "net_device (fst (configured_entry u config rs known c)) =
     (case link_report rs (interface_network_link (snd c)) of Some (i, s) \<Rightarrow> Some (status_device s)
      | None \<Rightarrow> map_option link_device (hm_get (network_links config) (interface_network_link (snd c))))"
  by (cases c; simp add: configured_entry_def CanonicalNetworkId_new_def split: option.split)+

lemma configured_device:
  assumes config: "config_ok config" "devices_distinct config"
    and rs: "rs = reports (NetlinkMessageProcessor_new f config) link_data" "reports_distinct rs"
    and "(i, s) \<in> set rs" "net_device (fst (configured_entry u config rs known c)) = Some (status_device s)"
  shows "link_name s = Some (interface_network_link (snd c))"
proof (cases "link_report rs (interface_network_link (snd c))")
  case None
  with assms(6) obtain l where l: "hm_get (network_links config) (interface_network_link (snd c)) = Some l" "link_device l = status_device s"
    by (auto simp: configured_entry_id simp del: map_of_eq_Some_iff)
  from configured_reported [OF config assms(5) [unfolded rs(1)] map_of_SomeD [OF l(1)] l(2)] show ?thesis .
next
  case (Some r)
  obtain j t where r: "r = (j, t)" by (cases r)
  with Some link_report_in have t: "(j, t) \<in> set rs" "link_name t = Some (interface_network_link (snd c))" by simp_all
  from assms(6) Some r have "status_device t = status_device s" by (simp add: configured_entry_id)
  with report_same [OF rs(2) t(1) assms(5)] t(2) show ?thesis by simp
qed

lemma configured_apart:
  assumes config: "config_ok config" "devices_distinct config" "interfaces_distinct config"
    and rs: "rs = reports (NetlinkMessageProcessor_new f config) link_data" "reports_distinct rs"
    and cd: "c \<in> set (network_interfaces config)" "d \<in> set (network_interfaces config)"
    and "conflicts (fst (configured_entry u config rs known c)) (fst (configured_entry u config rs known d))"
  shows "c = d"
proof -
  let ?link = "\<lambda>c. interface_network_link (snd c)" and ?id = "\<lambda>c. fst (configured_entry u config rs known c)"
  have link: "c = d" if "?link c = ?link d"
    using interface_same [OF config(3), of "fst c" "snd c" "fst d" "snd d"] cd that by (simp add: prod_eq_iff)
  have index: "?link c = ?link d" if "net_id (?id c) = Some i" "net_id (?id d) = Some i" for i
  proof -
    from that obtain s t where "link_report rs (?link c) = Some (i, s)" "link_report rs (?link d) = Some (i, t)"
      by (auto simp: configured_entry_id)
    with link_report_in report_same [OF rs(2), of i s i t] show ?thesis by (metis option.inject)
  qed
  have device: "?link c = ?link d" if "net_device (?id c) = Some v" "net_device (?id d) = Some v" for v
  proof (cases "link_report rs (?link c)")
    case (Some r)
    obtain i s where "r = (i, s)" by (cases r)
    with Some link_report_in have s: "(i, s) \<in> set rs" "link_name s = Some (?link c)" by simp_all
    moreover have "v = status_device s" using that(1) Some \<open>r = (i, s)\<close> by (simp add: configured_entry_id)
    ultimately show ?thesis using configured_device [OF config(1,2) rs s(1)] that(2) by simp
  next
    case None
    with that(1) obtain l where l: "hm_get (network_links config) (?link c) = Some l" "v = link_device l"
      by (auto simp: configured_entry_id simp del: map_of_eq_Some_iff)
    show ?thesis
    proof (cases "link_report rs (?link d)")
      case (Some r)
      obtain i s where "r = (i, s)" by (cases r)
      with Some link_report_in have s: "(i, s) \<in> set rs" "link_name s = Some (?link d)" by simp_all
      moreover have "v = status_device s" using that(2) Some \<open>r = (i, s)\<close> by (simp add: configured_entry_id)
      ultimately show ?thesis using configured_device [OF config(1,2) rs s(1)] that(1) by simp
    next
      case None
      with that(2) obtain l' where "hm_get (network_links config) (?link d) = Some l'" "v = link_device l'"
        by (auto simp: configured_entry_id simp del: map_of_eq_Some_iff)
      with l config_device_same [OF config(2) map_of_SomeD [OF l(1)] map_of_SomeD, of "?link d" l'] show ?thesis by simp
    qed
  qed
  consider "fst c = fst d" | i where "net_id (?id c) = Some i" "net_id (?id d) = Some i"
    | v where "net_device (?id c) = Some v" "net_device (?id d) = Some v"
    using assms(8) unfolding conflicts_def same_key_def configured_entry_name by (metis not_None_eq option.inject)
  then show ?thesis
  proof cases
    case 1
    with cd config(1) show ?thesis by (metis config_ok_def eq_key_imp_eq_value prod.collapse)
  qed (use index device link in blast)+
qed

lemma unassigned_apart:
  assumes config: "config_ok config" "devices_distinct config"
    and rs: "rs = reports (NetlinkMessageProcessor_new f config) link_data" "reports_distinct rs"
    and "c \<in> set (network_interfaces config)" "(i, s) \<in> unassigned config rs known"
  shows "\<not> conflicts (fst (configured_entry u config rs known c)) (fst (unassigned_entry known (i, s))) \<and>
    \<not> conflicts (fst (unassigned_entry known (i, s))) (fst (configured_entry u config rs known c))"
proof -
  from assms(6) have s: "(i, s) \<in> set rs" and free: "link_name s \<noteq> Some (interface_network_link (snd c))"
    using assms(5) by (auto simp: unassigned_def)
  have "net_device (fst (configured_entry u config rs known c)) \<noteq> Some (status_device s)"
    using configured_device [OF config rs s] free by blast
  moreover have "net_id (fst (configured_entry u config rs known c)) \<noteq> Some i"
  proof
    assume "net_id (fst (configured_entry u config rs known c)) = Some i"
    then obtain t where "link_report rs (interface_network_link (snd c)) = Some (i, t)" by (auto simp: configured_entry_id)
    with link_report_in report_same [OF rs(2) s, of i t] free show False by metis
  qed
  ultimately show ?thesis
    by (auto simp: conflicts_def same_key_def unassigned_entry_def CanonicalNetworkId_new_def)
qed

lemma ids_apart_union:
  assumes "\<And>c. c \<in> C \<Longrightarrow> conflicts (f c) (f c)" "\<And>e. e \<in> E \<Longrightarrow> conflicts (g e) (g e)"
    and "\<And>c d. c \<in> C \<Longrightarrow> d \<in> C \<Longrightarrow> conflicts (f c) (f d) \<Longrightarrow> c = d"
    and "\<And>e e'. e \<in> E \<Longrightarrow> e' \<in> E \<Longrightarrow> conflicts (g e) (g e') \<Longrightarrow> e = e'"
    and "\<And>c e. c \<in> C \<Longrightarrow> e \<in> E \<Longrightarrow> \<not> conflicts (f c) (g e) \<and> \<not> conflicts (g e) (f c)"
  shows "ids_apart (f ` C \<union> g ` E)"
  unfolding ids_apart_def
proof (intro ballI conjI impI notI)
  fix i
  assume "i \<in> f ` C \<union> g ` E"
  then show "conflicts i i" using assms(1,2) by blast
next
  fix i j
  assume "i \<in> f ` C \<union> g ` E" "j \<in> f ` C \<union> g ` E" "i \<noteq> j" "conflicts i j"
  then show False by (elim UnE imageE) (metis assms(3-5))+
qed

lemma expected_interfaces_apart:
  assumes config: "config_ok config" "devices_distinct config" "interfaces_distinct config"
    and rs: "rs = reports (NetlinkMessageProcessor_new f config) link_data" "reports_distinct rs"
  shows "ids_apart (fst ` expected_interfaces config rs known)"
proof -
  let ?conf = "\<lambda>c. fst (configured_entry NotFound config rs known c)" and ?un = "\<lambda>e. fst (unassigned_entry known e)"
  have ids: "fst ` expected_interfaces config rs known = ?conf ` set (network_interfaces config) \<union> ?un ` unassigned config rs known"
    by (simp add: expected_interfaces_def image_Un image_image)
  have self: "conflicts (?conf c) (?conf c)" "conflicts (?un e) (?un e)" for c e
    by (simp add: conflicts_def same_key_def configured_entry_name)
      (cases e, simp add: conflicts_def same_key_def unassigned_entry_def CanonicalNetworkId_new_def)
  have uu: "e = e'" if "e \<in> unassigned config rs known" "e' \<in> unassigned config rs known" "conflicts (?un e) (?un e')" for e e'
    using that report_same [OF rs(2), of "fst e" "snd e" "fst e'" "snd e'"]
    by (cases e; cases e') (auto simp: unassigned_def unassigned_entry_def conflicts_def same_key_def CanonicalNetworkId_new_def)
  show ?thesis
    unfolding ids
  proof (rule ids_apart_union)
    show "c = d" if "c \<in> set (network_interfaces config)" "d \<in> set (network_interfaces config)" "conflicts (?conf c) (?conf d)" for c d
      using configured_apart [OF config rs that] .
    show "\<not> conflicts (?conf c) (?un e) \<and> \<not> conflicts (?un e) (?conf c)"
      if "c \<in> set (network_interfaces config)" "e \<in> unassigned config rs known" for c e
      using unassigned_apart [OF config(1,2) rs that(1), of "fst e" "snd e"] that(2) by simp
  qed (use self uu in simp_all)
qed

section \<open>What a scan leaves of the interfaces\<close>

definition interface_times :: "poll_env \<Rightarrow> instant set" where
  "interface_times env = range (interface_clock env) \<union> range (address_clock env) \<union> range (missing_clock env)"

lemma interface_times [simp]:
  "interface_clock env n \<in> interface_times env" "address_clock env n \<in> interface_times env" "missing_clock env n \<in> interface_times env"
  by (simp_all add: interface_times_def)

lemma made_at_Nil [simp]: "made_at T []"
  by (simp add: made_at_def)

lemma gather_interface_times:
  assumes "gather env config p link_data network_data = (all_links, all_interfaces)"
  shows "made_at (interface_times env) all_interfaces"
proof -
  let ?T = "interface_times env"
  have conf: "made_at ?T (snd (configured_interfaces env config mapped A))" for mapped A
    unfolding configured_interfaces_def
  proof (rule fold_enumerate_keeps)
    fix n e and s :: "address_map \<times> interface_map"
    assume "made_at ?T (snd s)"
    then show "made_at ?T (snd (configured_interface config mapped (interface_clock env n) e s))"
      by (cases s; cases e) (auto simp: configured_interface_def Let_def NetworkStatusItem_new_def
          split: option.split prod.split intro!: made_at_insert)
  qed simp
  have dev: "made_at ?T (device_interfaces env devices A m)" if "made_at ?T m" for devices A m
    unfolding device_interfaces_def
  proof (rule fold_enumerate_keeps)
    fix n and e :: "u64 \<times> IpAddress list" and s :: interface_map
    assume "made_at ?T s"
    then show "made_at ?T (device_interface devices (address_clock env n) e s)"
      by (cases e) (auto simp: device_interface_def Let_def NetworkStatusItem_new_def split: option.split intro!: made_at_insert)
  qed (rule that)
  have mis: "made_at ?T (snd (collect_unmapped env config unmapped all_links))" for unmapped all_links
    unfolding collect_unmapped_def
  proof (rule fold_enumerate_keeps)
    fix n e and s :: "link_map \<times> interface_map"
    assume "made_at ?T (snd s)"
    then show "made_at ?T (snd (unmapped_link (link_network_interfaces (link_interface_order env) config) (unmapped_clock env n) (missing_clock env n) e s))"
      by (cases s; cases e) (auto simp: unmapped_link_def Let_def NetworkStatusItem_new_def split: option.split intro!: made_at_insert)
  qed simp
  have add: "made_at ?T (add_missing f missing m)" if "made_at ?T missing" "made_at ?T m" for f missing m
    unfolding add_missing_def
    by (rule fold_invariant [where Q = "\<lambda>(i, x). refreshed x \<in> ?T"])
      (use that in \<open>auto simp: made_at_def [of _ missing] intro!: made_at_insert\<close>)
  obtain maps where maps: "maps = collect_links p (link_clock env) config link_data" by blast
  have "all_interfaces = add_missing (missing_order env) (snd (collect_unmapped env config (unmapped_links maps) (polled_links maps)))
      (device_interfaces env (mapped_devices maps)
        (fst (configured_interfaces env config (mapped_links maps) (collect_addresses (families env) network_data)))
        (snd (configured_interfaces env config (mapped_links maps) (collect_addresses (families env) network_data))))"
    using assms by (auto simp: gather_def Let_def maps split: prod.splits)
  then show ?thesis using conf dev mis add by metis
qed

lemma scan_interfaces_settle:
  assumes "db_ok (database st)" "config_ok config" "devices_distinct config" "interfaces_distinct config"
    and "reports_distinct (reports (NetlinkMessageProcessor_new f config) link_data)"
    and "length link_data + length network_data + length (network_links config) + length (network_interfaces config) < 2 ^ 64"
  shows "\<exists>st'. poll env config (NetlinkMessageProcessor_new f config) try_send (Ok link_data) (Ok network_data) st = Ok st' \<and>
    image_mset item_id (item_bag (interfaces (database st'))) =
      mset_set (fst ` expected_interfaces config (reports (NetlinkMessageProcessor_new f config) link_data) (given (families env) network_data)) \<and>
    (\<forall>a \<in># item_bag (interfaces (database st')).
       (item_id a, status a) \<in> expected_interfaces config (reports (NetlinkMessageProcessor_new f config) link_data) (given (families env) network_data) \<or>
       a \<in># item_bag (interfaces (database st)) \<and> (\<exists>t \<in> interface_times env. t \<le> refreshed a + hold_period))"
proof -
  let ?p = "NetlinkMessageProcessor_new f config"
  let ?E = "expected_interfaces config (reports ?p link_data) (given (families env) network_data)"
  obtain all_links all_interfaces where
    g: "gather env config ?p link_data network_data = (all_links, all_interfaces)" by fastforce
  from gather_named [OF g] have named: "entries interface_typed all_interfaces" by simp
  then have wf: "hm_wf all_interfaces" by (simp add: entries_def)
  have cov: "covers ?E all_interfaces"
    using view_covers [OF wf] gather_interfaces [OF assms(2,4) refl assms(5) g] by simp
  then have "ids_apart (fst ` set all_interfaces)"
    using expected_interfaces_apart [OF assms(2-4) refl assms(5)] by (simp add: covers_def)
  with named have apart: "apart all_interfaces" by (auto simp: apart_def entries_def)
  have len: "length all_links < 2 ^ 64" "length all_interfaces < 2 ^ 64"
    using length_gather [OF g] assms(6) by linarith+
  from poll_links_settle [OF assms(1) gather_apart [OF assms(2,3,5) g] len(1), of env] obtain db1 d1 n1 where
    1: "poll_links env all_links (database st) = Ok (db1, d1, n1)" "db_ok db1" "interfaces db1 = interfaces (database st)"
    by blast
  from poll_interfaces_settle [OF 1(2) apart len(2), of env] obtain db2 d2 n2 est where
    2: "poll_interfaces env all_interfaces db1 = Ok (db2, d2, n2)"
      "list_all2 (settled (item_bag (interfaces (database st)))) (iter_order (interfaces_order env) all_interfaces) est"
      "item_bag (interfaces db2) = mset est"
    unfolding 1(3) by blast
  obtain kept ch where r: "retain_subscribers try_send (poll_updates d1 n1 d2 n2) (subscribers st) (channels st) = (kept, ch)"
    by fastforce
  have run: "poll env config ?p try_send (Ok link_data) (Ok network_data) st
      = Ok (st\<lparr>database := db2, subscribers := kept, channels := ch\<rparr>)"
    by (simp add: poll_def try_poll_def g 1(1) 2(1) r)
  have "image_mset item_id (mset est) = mset_set (fst ` ?E)"
    using settled_ids [OF named 2(2)] cov by (metis covers_def)
  moreover have "(item_id a, status a) \<in> ?E \<or>
       a \<in># item_bag (interfaces (database st)) \<and> (\<exists>t \<in> interface_times env. t \<le> refreshed a + hold_period)" if "a \<in># mset est" for a
    using settled_expected [OF cov gather_interface_times [OF g] named 2(2)] that by simp
  ultimately show ?thesis using 2(3) run by simp
qed

text \<open>C4: A scan as before, for a configuration that also has each interface on a link of its own, leaves
  one interface for each that is configured, under the index and device of its link when the kernel
  has reported it, with exactly the addresses given for that index, in order; one as \<open>NotFound\<close> when
  the link is configured but not reported, one as \<open>Misconfigured\<close> when there is no such link; and one
  without a name for each other reported device that has addresses. As for the links, an entry
  stored before may stay while it is within the hold period.\<close>

theorem scan_interfaces:
  assumes "db_ok (database st)" "config_ok config" "devices_distinct config" "interfaces_distinct config"
    and "reports_distinct (reports (NetlinkMessageProcessor_new f config) link_data)"
    and "length link_data + length network_data + length (network_links config) + length (network_interfaces config) < 2 ^ 64"
  shows "\<exists>st'. poll env config (NetlinkMessageProcessor_new f config) try_send (Ok link_data) (Ok network_data) st = Ok st' \<and>
    image_mset item_id (item_bag (interfaces (database st'))) =
      mset_set (fst ` expected_interfaces config (reports (NetlinkMessageProcessor_new f config) link_data) (given (families env) network_data)) \<and>
    (\<forall>a \<in># item_bag (interfaces (database st')).
       (item_id a, status a) \<in> expected_interfaces config (reports (NetlinkMessageProcessor_new f config) link_data) (given (families env) network_data) \<or>
       a \<in># item_bag (interfaces (database st)) \<and> (\<exists>t \<in> interface_times env. t \<le> refreshed a + hold_period))"
  using assms by (rule scan_interfaces_settle)

text \<open>One reported link with one address.\<close>

abbreviation sample_links :: "NetlinkMessage list" where
  "sample_links \<equiv> [sample_message (NewLink sample_link_message)]"

abbreviation sample_addresses :: "NetlinkMessage list" where
  "sample_addresses \<equiv> [sample_message (NewAddress sample_address_message)]"

definition sample_interface_status :: NetworkInterfaceStatus where
  "sample_interface_status =
     \<lparr>interface_name = Some ''Inside'', status_addresses = [IpAddress (V4 0x0A000000) 24], network_link_status = sample_link_status\<rparr>"

lemma sample_reports: "reports sample_processor sample_links = [(2, sample_link_status)]"
  by (simp add: reports_def List.map_filter_simps sample_report)

lemma sample_expected:
  "expected_interfaces sample_config [(2, sample_link_status)] (given sample_families sample_addresses) =
     {(CanonicalNetworkId_new (Some 2) (Some ''Inside'') (Some ''eth0''), sample_interface_status)}"
proof -
  have "given sample_families sample_addresses 2 = [IpAddress (V4 0x0A000000) 24]"
    by (simp add: given_def List.map_filter_simps sample_address)
  then show ?thesis
    by (auto simp: expected_interfaces_def configured_entry_def unassigned_def link_report_def sample_config_def sample_link_status_def
        sample_interface_status_def)
qed

theorem scan_interfaces_witness:
  "\<exists>st'. poll sample_env sample_config sample_processor bounded_send (Ok sample_links) (Ok sample_addresses)
       \<lparr>database = InterfaceManagerDatabase_new, subscribers = [], channels = (\<lambda>_. (1, []))\<rparr> = Ok st' \<and>
     image_mset status (item_bag (interfaces (database st'))) = {#sample_interface_status#}"
proof -
  let ?st = "\<lparr>database = InterfaceManagerDatabase_new, subscribers = [] :: nat list, channels = (\<lambda>_. (1, []))\<rparr>"
  have ok: "db_ok (database ?st)" "devices_distinct sample_config" "interfaces_distinct sample_config"
      "length sample_links + length sample_addresses + length (network_links sample_config) + length (network_interfaces sample_config) < 2 ^ 64"
    by (simp_all add: devices_distinct_def interfaces_distinct_def sample_config_def)
  have "reports_distinct (reports sample_processor sample_links)"
    unfolding sample_reports by (simp add: reports_distinct_def)
  from scan_interfaces [OF ok(1) sample_config_ok ok(2,3) this ok(4), of sample_env bounded_send] obtain st' where
    st': "poll sample_env sample_config sample_processor bounded_send (Ok sample_links) (Ok sample_addresses) ?st = Ok st'"
      "image_mset item_id (item_bag (interfaces (database st'))) = {#CanonicalNetworkId_new (Some 2) (Some ''Inside'') (Some ''eth0'')#}"
      "\<forall>a \<in># item_bag (interfaces (database st')). status a = sample_interface_status \<or> a \<in># item_bag (interfaces (database ?st))"
    unfolding sample_reports by (auto simp: sample_env_def sample_expected)
  have "item_bag (interfaces (database ?st)) = {#}"
    by (simp add: InterfaceManagerDatabase_new_def empty_table_def item_bag_def)
  moreover from st'(2) obtain a where "item_bag (interfaces (database st')) = {#a#}" by (auto dest!: msed_map_invR)
  ultimately show ?thesis using st'(1,3) by auto
qed

end
