(* ===== verification/Interface_Convergence.thy ===== *)
theory Interface_Convergence
  imports Interface_Scan
begin

text \<open>
  Time and the interface manager (\<open>interface/mod.rs\<close>): the manager with the latest time at which it has
  made an item, the scan that finds it quiet for longer than \<open>ENTROPY_HOLD_PERIOD_SECONDS\<close>, and what
  becomes of a notification when a scan follows whose answers are older.
\<close>

section \<open>The manager in time\<close>

definition env_times :: "poll_env \<Rightarrow> instant set" where
  "env_times env = scan_times env \<union> interface_times env"

primrec event_times :: "'sub manager_event \<Rightarrow> instant set" where
  "event_times (Tick env link_reply address_reply) = env_times env"
| "event_times (Notified now now' message) = {now, now'}"
| "event_times (Subscribed s) = {}"
| "event_times Dropped = {}"

text \<open>The states that a manager can be in when no clock has been read after \<open>T\<close>.\<close>

inductive manager_by ::
  "Router \<Rightarrow> address_families \<Rightarrow> ('sub, 'ch) sender \<Rightarrow> instant \<Rightarrow> ('sub, 'ch) interface_manager \<Rightarrow> bool"
  for config af try_send where
  by_new: "InterfaceManager_new create_socket f env config try_send link_reply address_reply ch = Ok m \<Longrightarrow>
    env_times env \<subseteq> {..T} \<Longrightarrow> manager_by config af try_send T m"
| by_step: "manager_by config af try_send T m \<Longrightarrow> T \<le> T' \<Longrightarrow> event_times e \<subseteq> {..T'} \<Longrightarrow>
    manager_step config (NetlinkMessageProcessor_new f config) af try_send e m m' \<Longrightarrow>
    manager_by config af try_send T' m'"

lemma manager_by_reach: "manager_by config af try_send T m \<Longrightarrow> manager_reach config af try_send m"
  by (induction rule: manager_by.induct) (auto intro: manager_reach.intros)

definition stored_by :: "instant \<Rightarrow> InterfaceManagerDatabase \<Rightarrow> bool" where
  "stored_by T = items_all (\<lambda>a. refreshed a \<le> T) (\<lambda>a. refreshed a \<le> T)"

lemma stored_by_later: "stored_by T db \<Longrightarrow> T \<le> T' \<Longrightarrow> stored_by T' db"
  by (auto simp: stored_by_def items_all_def intro: order_trans)

lemma poll_stored_by:
  assumes "db_ok (database st)" "stored_by T (database st)" "env_times env \<subseteq> {..T}"
    and "poll env config p try_send link_reply address_reply st = Ok st'"
  shows "stored_by T (database st')"
proof -
  have "db_ok (database st') \<and> items_all (\<lambda>a. refreshed a \<le> T) (\<lambda>a. refreshed a \<le> T) (database st')"
  proof (rule poll_all [OF assms(1) _ _ assms(4)])
    show "(\<forall>(i, x) \<in> set all_links. refreshed x \<le> T) \<and> (\<forall>(i, x) \<in> set all_interfaces. refreshed x \<le> T)"
      if "gather env config p link_data network_data = (all_links, all_interfaces)"
      for link_data network_data all_links all_interfaces
      using gather_times [OF that] gather_interface_times [OF that] assms(3)
      by (fastforce simp: made_at_def env_times_def)
  qed (use assms(2) in \<open>simp add: stored_by_def\<close>)
  then show ?thesis by (simp add: stored_by_def)
qed

lemma notified_stored_by:
  assumes "db_ok (database st)" "stored_by T (database st)" "now \<le> T" "now' \<le> T"
    and "message_received p af try_send now now' message st = Ok st'"
  shows "stored_by T (database st')"
proof -
  have "db_ok (database st') \<and> items_all (\<lambda>a. refreshed a \<le> T) (\<lambda>a. refreshed a \<le> T) (database st')"
    by (rule message_received_all [OF assms(1) _ assms(5)])
      (use assms(2-4) in \<open>simp_all add: stored_by_def reported_link_def gone_link_def interface_with_link_def NetworkStatusItem_new_def\<close>)
  then show ?thesis by (simp add: stored_by_def)
qed

lemma manager_by_stored: "manager_by config af try_send T m \<Longrightarrow> stored_by T (database (shared m))"
proof (induction rule: manager_by.induct)
  case (by_new create_socket f env link_reply address_reply ch m T)
  have new: "db_ok (database (manager_new ch))" "stored_by T (database (manager_new ch))"
    by (simp_all add: manager_new_def) (simp add: stored_by_def items_all_def InterfaceManagerDatabase_new_def)
  from by_new(1) obtain st where
    "poll env config (NetlinkMessageProcessor_new f config) try_send link_reply address_reply (manager_new ch) = Ok st" "shared m = st"
    by (auto simp: InterfaceManager_new_def obind_eq_Ok)
  with poll_stored_by [OF new by_new(2)] show ?case by simp
next
  case (by_step T m T' e f m')
  have ok: "db_ok (database (shared m))" using manager_reach_ok [OF manager_by_reach [OF by_step(1)]] by simp
  have old: "stored_by T' (database (shared m))" using by_step.IH by_step(2) by (rule stored_by_later)
  from by_step(4) show ?case
  proof (elim manager_stepE)
    fix env link_reply address_reply
    assume "e = Tick env link_reply address_reply"
      "worker_tick env config (NetlinkMessageProcessor_new f config) try_send link_reply address_reply m = Ok m'"
    with poll_stored_by [OF ok old] old by_step(3) show ?thesis
      by (auto simp: worker_tick_def obind_eq_Ok split: if_splits)
  next
    fix now now' message st'
    assume "e = Notified now now' message" "m' = m\<lparr>shared := st'\<rparr>"
      "message_received (NetlinkMessageProcessor_new f config) af try_send now now' message (shared m) = Ok st'"
    with notified_stored_by [OF ok old, of now now'] by_step(3) show ?thesis by (metis atMost_iff event_times.simps(2) insert_subset interface_manager.select_convs(3) interface_manager.surjective interface_manager.update_convs(3))
  qed (use old in \<open>simp_all add: subscribe_def drop_manager_def\<close>)
qed

section \<open>Each identifier is expected once\<close>

lemma report_same_entry:
  "reports_distinct rs \<Longrightarrow> x \<in> set rs \<Longrightarrow> y \<in> set rs \<Longrightarrow> fst x = fst y \<Longrightarrow> x = y"
  using report_same [of rs "fst x" "snd x" "fst y" "snd y"] by (metis prod.collapse)

lemma inj_on_images:
  assumes "\<And>x y. x \<in> A \<Longrightarrow> y \<in> A \<Longrightarrow> h (f x) = h (f y) \<Longrightarrow> x = y"
    and "\<And>x y. x \<in> B \<Longrightarrow> y \<in> B \<Longrightarrow> h (g x) = h (g y) \<Longrightarrow> x = y"
    and "\<And>x y. h (f x) \<noteq> h (g y)"
  shows "inj_on h (f ` A \<union> g ` B)"
  using assms by (auto intro!: inj_onI) metis+

lemma expected_inj:
  assumes "config_ok config" "reports_distinct rs"
  shows "inj_on fst (expected config rs)"
  unfolding expected_def
proof (rule inj_on_images)
  show "x = y" if "fst (missing_entry x) = fst (missing_entry y)" for x y
    using that by (simp add: missing_entry_def CanonicalNetworkId_new_def split_beta prod_eq_iff)
  show "x = y" if "x \<in> set rs" "y \<in> set rs" "fst (report_entry x) = fst (report_entry y)" for x y
    using that(3) by (intro report_same_entry [OF assms(2) that(1,2)]) (simp add: report_entry_def CanonicalNetworkId_new_def split_beta)
qed (simp add: report_entry_def missing_entry_def CanonicalNetworkId_new_def split_beta)

lemma expected_interfaces_inj:
  assumes "config_ok config" "reports_distinct rs"
  shows "inj_on fst (expected_interfaces config rs known)"
  unfolding expected_interfaces_def
proof (rule inj_on_images)
  let ?conf = "configured_entry NotFound config rs known" and ?un = "unassigned_entry known"
  show "x = y" if "x \<in> set (network_interfaces config)" "y \<in> set (network_interfaces config)" "fst (?conf x) = fst (?conf y)" for x y
  proof -
    from arg_cong [OF that(3), of net_name] have "fst x = fst y" by (simp add: configured_entry_name)
    with that(1,2) assms(1) show ?thesis by (metis config_ok_def eq_key_imp_eq_value prod.collapse)
  qed
  show "x = y" if "x \<in> unassigned config rs known" "y \<in> unassigned config rs known" "fst (?un x) = fst (?un y)" for x y
  proof (rule report_same_entry [OF assms(2)])
    show "x \<in> set rs" "y \<in> set rs" using that(1,2) by (simp_all add: unassigned_def split_beta)
    show "fst x = fst y" using that(3) by (simp add: unassigned_entry_def CanonicalNetworkId_new_def split_beta)
  qed
  show "fst (?conf x) \<noteq> fst (?un y)" for x y
  proof
    assume "fst (?conf x) = fst (?un y)"
    from arg_cong [OF this, of net_name] show False
      by (simp add: configured_entry_name) (simp add: unassigned_entry_def CanonicalNetworkId_new_def split_beta)
  qed
qed

lemma bag_exact:
  assumes "image_mset f M = mset_set (fst ` E)" "\<forall>a \<in># M. (f a, g a) \<in> E" "inj_on fst E"
  shows "image_mset (\<lambda>a. (f a, g a)) M = mset_set E"
proof -
  let ?N = "image_mset (\<lambda>a. (f a, g a)) M" and ?restore = "the_inv_into E fst"
  have restore: "image_mset ?restore (image_mset fst K) = K" if "set_mset K \<subseteq> E" for K
  proof -
    have "image_mset (\<lambda>e. ?restore (fst e)) K = image_mset (\<lambda>e. e) K"
      using that by (intro image_mset_cong the_inv_into_f_f [OF assms(3)]) auto
    then show ?thesis by (simp add: image_mset.compositionality comp_def)
  qed
  have "image_mset fst ?N = image_mset fst (mset_set E)"
    using assms(1) image_mset_mset_set [OF assms(3)] by (simp add: image_mset.compositionality comp_def)
  moreover have "set_mset ?N \<subseteq> E" using assms(2) by auto
  moreover have "set_mset (mset_set E) \<subseteq> E" by (cases "finite E") simp_all
  ultimately show ?thesis using restore by metis
qed

section \<open>A quiet manager converges\<close>

lemma scan_tick:
  assumes "scanning m" "running m" "poll env config p try_send link_reply address_reply (shared m) = Ok st'"
  shows "manager_step config p af try_send (Tick env link_reply address_reply) m (m\<lparr>shared := st'\<rparr>)"
  using assms by (simp add: manager_step_Tick worker_tick_def)

lemma quiet_bag:
  assumes "image_mset item_id M' = mset_set (fst ` E)" "inj_on fst E" "\<forall>a \<in># M. refreshed a \<le> T"
    and "\<forall>a \<in># M'. (item_id a, status a) \<in> E \<or> a \<in># M \<and> (\<exists>t \<in> ticks. t \<le> refreshed a + hold_period)"
    and "\<forall>t \<in> ticks. T + hold_period < t"
  shows "image_mset (\<lambda>a. (item_id a, status a)) M' = mset_set E"
proof (rule bag_exact [OF assms(1) _ assms(2)])
  show "\<forall>a \<in># M'. (item_id a, status a) \<in> E"
    using assms(3-5) by (meson add_le_mono1 leD less_le_trans order.trans)
qed

text \<open>C5: In every history of a manager in which no clock has been read after \<open>T\<close> a scan can be made whose
  clocks all read more than the hold period after \<open>T\<close>; for a configuration without repeated devices
  or links and a kernel that reports each device once, it leaves exactly what the kernel has just
  reported and what is configured, with the status just seen, and nothing else of the past: the
  links, the interfaces, and so the listings.\<close>

theorem quiet_scan_converges:
  assumes "manager_by config af try_send T m" "running m" "scanning m"
    and "config_ok config" "devices_distinct config" "interfaces_distinct config"
    and "reports_distinct (reports (NetlinkMessageProcessor_new f config) link_data)"
    and "length link_data + length network_data + length (network_links config) + length (network_interfaces config) < 2 ^ 64"
    and "\<forall>t \<in> env_times env. T + hold_period < t"
  shows "\<exists>m'. manager_step config (NetlinkMessageProcessor_new f config) af try_send (Tick env (Ok link_data) (Ok network_data)) m m' \<and>
    image_mset (\<lambda>a. (item_id a, status a)) (item_bag (links (database (shared m')))) =
      mset_set (expected config (reports (NetlinkMessageProcessor_new f config) link_data)) \<and>
    image_mset (\<lambda>a. (item_id a, status a)) (item_bag (interfaces (database (shared m')))) =
      mset_set (expected_interfaces config (reports (NetlinkMessageProcessor_new f config) link_data) (given (families env) network_data)) \<and>
    mset (list_network_links g (shared m')) =
      image_mset snd (mset_set (expected config (reports (NetlinkMessageProcessor_new f config) link_data))) \<and>
    mset (list_network_interfaces g (shared m')) =
      image_mset snd (mset_set (expected_interfaces config (reports (NetlinkMessageProcessor_new f config) link_data) (given (families env) network_data)))"
proof -
  let ?p = "NetlinkMessageProcessor_new f config" and ?db = "database (shared m)"
  let ?L = "expected config (reports ?p link_data)"
    and ?I = "expected_interfaces config (reports ?p link_data) (given (families env) network_data)"
  have ok: "db_ok ?db" using manager_reach_ok [OF manager_by_reach [OF assms(1)]] by simp
  have old: "\<forall>a \<in># item_bag (links ?db). refreshed a \<le> T" "\<forall>a \<in># item_bag (interfaces ?db). refreshed a \<le> T"
    using manager_by_stored [OF assms(1)] by (simp_all add: stored_by_def items_all_def)
  have times: "\<forall>t \<in> scan_times env. T + hold_period < t" "\<forall>t \<in> interface_times env. T + hold_period < t"
    using assms(9) by (simp_all add: env_times_def)
  from scan_links_settle [OF ok assms(4,5,7,8), of env try_send] obtain st' where
    1: "poll env config ?p try_send (Ok link_data) (Ok network_data) (shared m) = Ok st'"
      "image_mset item_id (item_bag (links (database st'))) = mset_set (fst ` ?L)"
      "\<forall>a \<in># item_bag (links (database st')). (item_id a, status a) \<in> ?L \<or>
         a \<in># item_bag (links ?db) \<and> (\<exists>t \<in> scan_times env. t \<le> refreshed a + hold_period)"
    by blast
  have 2: "image_mset item_id (item_bag (interfaces (database st'))) = mset_set (fst ` ?I)"
      "\<forall>a \<in># item_bag (interfaces (database st')). (item_id a, status a) \<in> ?I \<or>
         a \<in># item_bag (interfaces ?db) \<and> (\<exists>t \<in> interface_times env. t \<le> refreshed a + hold_period)"
    using scan_interfaces_settle [OF ok assms(4-8), of env try_send] unfolding 1(1) by auto
  have L: "image_mset (\<lambda>a. (item_id a, status a)) (item_bag (links (database st'))) = mset_set ?L"
    by (rule quiet_bag [OF 1(2) expected_inj [OF assms(4,7)] old(1) 1(3) times(1)])
  have I: "image_mset (\<lambda>a. (item_id a, status a)) (item_bag (interfaces (database st'))) = mset_set ?I"
    by (rule quiet_bag [OF 2(1) expected_interfaces_inj [OF assms(4,7)] old(2) 2(2) times(2)])
  have "mset (list_network_links g st') = image_mset snd (mset_set ?L)"
    "mset (list_network_interfaces g st') = image_mset snd (mset_set ?I)"
    unfolding L [symmetric] I [symmetric]
    by (simp_all add: list_network_links_def list_network_interfaces_def list_link_status_def list_interface_status_def
        list_status_sorted(2) image_mset.compositionality comp_def)
  with scan_tick [OF assms(3,2) 1(1)] L I show ?thesis by (intro exI [of _ "m\<lparr>shared := st'\<rparr>"]) simp
qed

text \<open>A link seen up at three seconds and not reported at nine.\<close>

definition late_env :: poll_env where
  "late_env = sample_env\<lparr>link_clock := \<lambda>_. 9000000000, unmapped_clock := \<lambda>_. 9000000000, missing_clock := \<lambda>_. 9000000000,
     interface_clock := \<lambda>_. 9000000000, address_clock := \<lambda>_. 9000000000\<rparr>"

lemma sample_times: "env_times sample_env = {3000000000}" "env_times late_env = {9000000000}"
  "scan_times sample_env = {3000000000}"
  by (simp_all add: env_times_def scan_times_def interface_times_def late_env_def sample_env_def)

abbreviation lost_link :: NetworkLinkStatus where
  "lost_link \<equiv> \<lparr>link_name = Some ''lan'', status_device = ''eth0'', operational_state = NotFound\<rparr>"

theorem quiet_scan_converges_witness:
  "\<exists>m m'. InterfaceManager_new (Ok ()) (\<lambda>_. 0) sample_env sample_config bounded_send
       (Ok sample_links) (Ok sample_addresses) (\<lambda>_. (1, [])) = Ok m \<and>
     manager_step sample_config sample_processor sample_families bounded_send (Tick late_env (Ok []) (Ok [])) m m' \<and>
     list_network_links (\<lambda>_. 0) (shared m') = [lost_link] \<and>
     list_network_interfaces (\<lambda>_. 0) (shared m') =
       [\<lparr>interface_name = Some ''Inside'', status_addresses = [], network_link_status = lost_link\<rparr>]"
proof -
  let ?ch = "\<lambda>_ :: nat. (1 :: nat, [] :: NetworkStatusUpdate list)"
  have cfg: "devices_distinct sample_config" "interfaces_distinct sample_config"
      "length sample_links + length sample_addresses + length (network_links sample_config) + length (network_interfaces sample_config) < 2 ^ 64"
      "length ([] :: NetlinkMessage list) + length ([] :: NetlinkMessage list) + length (network_links sample_config)
         + length (network_interfaces sample_config) < 2 ^ 64"
    by (simp_all add: devices_distinct_def interfaces_distinct_def sample_config_def)
  have rs: "reports_distinct (reports sample_processor sample_links)" "reports sample_processor [] = []"
      "reports_distinct (reports sample_processor [])"
    unfolding sample_reports by (simp_all add: reports_distinct_def reports_def List.map_filter_simps)
  have "db_ok (database (manager_new ?ch))" by (simp add: manager_new_def)
  from scan_links_settle [OF this sample_config_ok cfg(1) rs(1) cfg(3), of sample_env bounded_send] obtain st where
    "poll sample_env sample_config sample_processor bounded_send (Ok sample_links) (Ok sample_addresses) (manager_new ?ch) = Ok st"
    by blast
  then have new: "InterfaceManager_new (Ok ()) (\<lambda>_. 0) sample_env sample_config bounded_send (Ok sample_links) (Ok sample_addresses) ?ch =
      Ok \<lparr>running = True, scanning = True, shared = st\<rparr>" (is "_ = Ok ?m")
    by (simp add: InterfaceManager_new_def)
  have m: "manager_by sample_config sample_families bounded_send 3000000000 ?m"
    using new by (rule by_new) (simp add: sample_times)
  have late: "\<forall>t \<in> env_times late_env. 3000000000 + hold_period < t" by (simp add: sample_times hold_period_def)
  have L: "expected sample_config [] = {(CanonicalNetworkId_new None (Some ''lan'') (Some ''eth0''), lost_link)}"
    by (auto simp: expected_def unreported_def missing_entry_def sample_config_def)
  have I: "expected_interfaces sample_config [] known =
      {(CanonicalNetworkId_new None (Some ''Inside'') (Some ''eth0''),
        \<lparr>interface_name = Some ''Inside'', status_addresses = [], network_link_status = lost_link\<rparr>)}" for known
    by (auto simp: expected_interfaces_def configured_entry_def unassigned_def link_report_def sample_config_def)
  from quiet_scan_converges [OF m _ _ sample_config_ok cfg(1,2) rs(3) cfg(4) late, of "\<lambda>_. 0"] obtain m' where
    "manager_step sample_config sample_processor sample_families bounded_send (Tick late_env (Ok []) (Ok [])) ?m m'"
    "mset (list_network_links (\<lambda>_. 0) (shared m')) = {#lost_link#}"
    "mset (list_network_interfaces (\<lambda>_. 0) (shared m')) =
       {#\<lparr>interface_name = Some ''Inside'', status_addresses = [], network_link_status = lost_link\<rparr>#}"
    unfolding rs(2) L I by auto
  with new show ?thesis unfolding mset_single_iff by blast
qed

section \<open>A notification and a scan whose answer is older\<close>

text \<open>
  A scan asks the kernel before it takes the lock on the database, so what it has been told may be
  older than a notification that has been handled meanwhile.
\<close>

lemma settled_entry:
  assumes "covers E polled" "entries P polled" "apart polled" "list_all2 (settled M) (iter_order f polled) est"
    and "i \<in> fst ` E"
  obtains x y where "(i, x) \<in> set polled" "(i, status x) \<in> E" "item_id x = i" "y \<in> set est" "settled M (i, x) y" "conflicts i i"
proof -
  have "i \<in> fst ` set polled" using assms(1,5) by (simp add: covers_def)
  then obtain x where x: "(i, x) \<in> set polled" by auto
  then have "(i, x) \<in> set (iter_order f polled)" by simp
  with assms(4) obtain y where "y \<in> set est" "settled M (i, x) y"
    by (metis in_set_conv_nth list_all2_lengthD list_all2_nthD)
  moreover have "(i, status x) \<in> E" "item_id x = i" "conflicts i i"
  proof -
    have "item_entry (i, x) \<in> E" using x assms(1) unfolding covers_def by blast
    then show "(i, status x) \<in> E" by (simp add: item_entry_def)
    show "item_id x = i" using x assms(2) by (auto simp: entries_def)
    have "i \<in> fst ` set polled" using x by force
    then show "conflicts i i" using assms(3) unfolding apart_def ids_apart_def by blast
  qed
  ultimately show ?thesis using that x by blast
qed

lemma scan_keeps_recent:
  assumes "db_ok (database st)" "config_ok config" "devices_distinct config"
    and "reports_distinct (reports (NetlinkMessageProcessor_new f config) link_data)"
    and "length link_data + length network_data + length (network_links config) + length (network_interfaces config) < 2 ^ 64"
    and "a \<in># item_bag (links (database st))" "\<forall>t \<in> scan_times env. t \<le> refreshed a + hold_period"
    and "item_id a \<in> fst ` expected config (reports (NetlinkMessageProcessor_new f config) link_data)"
  shows "\<exists>st'. poll env config (NetlinkMessageProcessor_new f config) try_send (Ok link_data) (Ok network_data) st = Ok st' \<and>
    a \<in># item_bag (links (database st'))"
proof -
  let ?E = "expected config (reports (NetlinkMessageProcessor_new f config) link_data)"
  from scan_links_run [OF assms(1-5), of env try_send] obtain st' all_links est where
    run: "poll env config (NetlinkMessageProcessor_new f config) try_send (Ok link_data) (Ok network_data) st = Ok st'"
      "item_bag (links (database st')) = mset est"
    and seen: "covers ?E all_links" "made_at (scan_times env) all_links" "entries link_typed all_links" "apart all_links"
      "list_all2 (settled (item_bag (links (database st)))) (iter_order (links_order env) all_links) est"
    by blast
  obtain x y where xy: "(item_id a, x) \<in> set all_links" "y \<in> set est"
      "settled (item_bag (links (database st))) (item_id a, x) y" "conflicts (item_id a) (item_id a)"
    by (rule settled_entry [OF seen(1,3-5) assms(8)])
  have "refreshed x \<le> refreshed a + hold_period"
    using xy(1) seen(2) assms(7) by (auto simp: made_at_def)
  then have "\<not> announced (item_bag (links (database st))) (item_id a, x)"
    using assms(6) by (auto simp: announced_def replaced_def)
  with xy(3) have "y \<in># item_bag (links (database st))" "item_id y = item_id a" by (simp_all add: settled_def)
  with link_store.unique_id [OF assms(1) this(1) assms(6)] xy(4) have "y = a" by simp
  with run xy(2) show ?thesis by auto
qed

lemma scan_takes_new:
  assumes "db_ok (database st)" "config_ok config" "devices_distinct config"
    and "reports_distinct (reports (NetlinkMessageProcessor_new f config) link_data)"
    and "length link_data + length network_data + length (network_links config) + length (network_interfaces config) < 2 ^ 64"
    and "(i, s) \<in> expected config (reports (NetlinkMessageProcessor_new f config) link_data)"
    and "\<And>a. a \<in># item_bag (links (database st)) \<Longrightarrow> item_id a \<noteq> i"
  shows "\<exists>st' b. poll env config (NetlinkMessageProcessor_new f config) try_send (Ok link_data) (Ok network_data) st = Ok st' \<and>
    b \<in># item_bag (links (database st')) \<and> item_id b = i \<and> status b = s"
proof -
  let ?E = "expected config (reports (NetlinkMessageProcessor_new f config) link_data)"
  from scan_links_run [OF assms(1-5), of env try_send] obtain st' all_links est where
    run: "poll env config (NetlinkMessageProcessor_new f config) try_send (Ok link_data) (Ok network_data) st = Ok st'"
      "item_bag (links (database st')) = mset est"
    and seen: "covers ?E all_links" "entries link_typed all_links" "apart all_links"
      "list_all2 (settled (item_bag (links (database st)))) (iter_order (links_order env) all_links) est"
    by blast
  have "i \<in> fst ` ?E" using assms(6) by force
  then obtain x y where xy: "(i, status x) \<in> ?E" "item_id x = i" "y \<in> set est"
      "settled (item_bag (links (database st))) (i, x) y"
    by (rule settled_entry [OF seen])
  have "announced (item_bag (links (database st))) (i, x)" using assms(7) by (auto simp: announced_def)
  with xy(4) have "y = x" by (simp add: settled_def)
  moreover have "status x = s"
    using inj_onD [OF expected_inj [OF assms(2,4)] _ xy(1) assms(6)] by simp
  ultimately show ?thesis using run xy(2,3) by auto
qed

text \<open>C22: Within the hold period a notified link stands against a scan: after a \<open>NewLink\<close> notification that
  reports a link, a scan whose answer shows that device under the same index and name, in whatever
  state, and whose clocks read at most the hold period after the notification, leaves the link with
  the status that the notification gave.\<close>

theorem recent_link_kept:
  assumes "db_ok (database st)" "counters_free (database st)" "config_ok config" "devices_distinct config"
    and "payload message = InnerMessage (NewLink msg)" "process_link (NetlinkMessageProcessor_new f config) msg = Some (index, s)"
    and "reports_distinct (reports (NetlinkMessageProcessor_new f config) link_data)"
    and "length link_data + length network_data + length (network_links config) + length (network_interfaces config) < 2 ^ 64"
    and "(index, older) \<in> set (reports (NetlinkMessageProcessor_new f config) link_data)"
    and "link_name older = link_name s" "status_device older = status_device s"
    and "\<forall>t \<in> scan_times env. t \<le> now + hold_period"
  shows "\<exists>st1 st2. message_received (NetlinkMessageProcessor_new f config) af try_send now now' message st = Ok st1 \<and>
    poll env config (NetlinkMessageProcessor_new f config) try_send (Ok link_data) (Ok network_data) st1 = Ok st2 \<and>
    (\<exists>b \<in># item_bag (links (database st2)). status b = s \<and> net_id (item_id b) = Some index)"
proof -
  let ?p = "NetlinkMessageProcessor_new f config" and ?l = "reported_link now index s"
  from new_link_Ok [OF assms(1,2), of try_send now now' index s] obtain st1 where
    1: "new_link try_send now now' (index, s) st = Ok st1" "db_ok (database st1)"
      "item_bag (links (database st1)) = put_item ?l (item_bag (links (database st)))" by blast
  have "item_id ?l = fst (report_entry (index, older))"
    by (simp add: reported_link_def report_entry_def NetworkStatusItem_new_def assms(10,11))
  then have "item_id ?l \<in> fst ` expected config (reports ?p link_data)"
    using assms(9) unfolding expected_def by blast
  moreover have "?l \<in># item_bag (links (database st1))" by (simp add: 1(3) put_item_def)
  moreover have "refreshed ?l = now" "status ?l = s" "net_id (item_id ?l) = Some index"
    by (simp_all add: reported_link_def NetworkStatusItem_new_def CanonicalNetworkId_new_def)
  ultimately obtain st2 where
    "poll env config ?p try_send (Ok link_data) (Ok network_data) st1 = Ok st2" "?l \<in># item_bag (links (database st2))"
    using scan_keeps_recent [OF 1(2) assms(3,4,7,8), of ?l env try_send] assms(12) by auto
  moreover have "message_received ?p af try_send now now' message st = Ok st1"
    using 1(1) assms(5,6) by (simp add: message_received_def)
  ultimately show ?thesis using \<open>status ?l = s\<close> \<open>net_id (item_id ?l) = Some index\<close> by blast
qed

text \<open>C23: The hold period does not protect a deletion: a \<open>DelLink\<close> notification leaves a configured link
  without an index, under another identifier than the scan's, so a scan whose answer still shows
  the link brings it back in the state it had then, however recent the notification.\<close>

theorem deletion_undone:
  assumes "db_ok (database st)" "counters_free (database st)" "config_ok config" "devices_distinct config"
    and "payload message = InnerMessage (DelLink msg)" "process_link (NetlinkMessageProcessor_new f config) msg = Some (index, s)"
    and "link_name s = Some name"
    and "reports_distinct (reports (NetlinkMessageProcessor_new f config) link_data)"
    and "length link_data + length network_data + length (network_links config) + length (network_interfaces config) < 2 ^ 64"
    and "(index, older) \<in> set (reports (NetlinkMessageProcessor_new f config) link_data)"
    and "link_name older = Some name" "status_device older = status_device s"
  shows "\<exists>st1 st2. message_received (NetlinkMessageProcessor_new f config) af try_send now now' message st = Ok st1 \<and>
    gone_link now s \<in># item_bag (links (database st1)) \<and>
    poll env config (NetlinkMessageProcessor_new f config) try_send (Ok link_data) (Ok network_data) st1 = Ok st2 \<and>
    (\<exists>b \<in># item_bag (links (database st2)). status b = older \<and> net_id (item_id b) = Some index)"
proof -
  let ?p = "NetlinkMessageProcessor_new f config" and ?l = "gone_link now s"
  let ?i = "CanonicalNetworkId_new (Some index) (Some name) (Some (status_device s))"
  from del_link_Ok [OF assms(1,2), of now now' index s] obtain st1 where
    1: "del_link now now' (index, s) st = Ok st1" "db_ok (database st1)"
      "item_bag (links (database st1)) = put_item ?l (item_bag (links (database st)))"
    using assms(7) by auto
  have "(?i, older) = report_entry (index, older)" by (simp add: report_entry_def assms(11,12))
  then have exp: "(?i, older) \<in> expected config (reports ?p link_data)"
    using assms(10) unfolding expected_def by blast
  have clash: "conflicts (item_id ?l) ?i" "item_id ?l \<noteq> ?i"
    using assms(7) by (simp_all add: gone_link_def NetworkStatusItem_new_def CanonicalNetworkId_new_def conflicts_def same_key_def)
  have "item_id a \<noteq> ?i" if "a \<in># item_bag (links (database st1))" for a
    using that clash unfolding 1(3) put_item_def by auto
  from scan_takes_new [OF 1(2) assms(3,4,8,9) exp this, of env try_send] obtain st2 b where
    2: "poll env config ?p try_send (Ok link_data) (Ok network_data) st1 = Ok st2"
      "b \<in># item_bag (links (database st2))" "item_id b = ?i" "status b = older" by blast
  have run: "message_received ?p af try_send now now' message st = Ok st1"
    using 1(1) assms(5,6) by (simp add: message_received_def)
  have gone: "?l \<in># item_bag (links (database st1))" by (simp add: 1(3) put_item_def)
  from 2(3) have "net_id (item_id b) = Some index" by (simp add: CanonicalNetworkId_new_def)
  with run gone 2(1,2,4) show ?thesis by blast
qed

section \<open>An interface without an index\<close>

text \<open>Notifications find interfaces by their index, so one without an index stays as it is.\<close>

lemma unindexed_kept:
  assumes "db_ok (database st)" "database_typed (database st)" "counters_free (database st)"
    and "b \<in># item_bag (interfaces (database st))" "net_id (item_id b) = None"
    and "message_received p af try_send now now' m st = Ok st'"
  shows "b \<in># item_bag (interfaces (database st'))"
proof -
  let ?M = "item_bag (interfaces (database st))"
  have other: "b \<in># add_mset x (?M - {#a#})" "b \<in># ?M - {#a#}" if "a \<in># ?M" "net_id (item_id a) = Some k" for a k x
    using assms(4,5) that by (auto simp: in_diff_count count_inI)
  have new: "b \<in># item_bag (interfaces (database st'))" if "new_link try_send now now' (index, s) st = Ok st'" for index s
  proof (cases "interface_on_link index (reported_link now index s) (database st)")
    case (Some a)
    with new_link_Ok [OF assms(1,3), of try_send now now' index s] that replace_on_link(1) [OF assms(1,2) Some, of "Some index" now']
      other [of a index] interface_on_link_concerns [OF assms(1)]
    show ?thesis by (auto simp: concerns_def)
  qed (use new_link_Ok [OF assms(1,3), of try_send now now' index s] that assms(4) in auto)
  have del: "b \<in># item_bag (interfaces (database st'))" if "del_link now now' (index, s) st = Ok st'" for index s
  proof (cases "interface_on_link index (gone_link now s) (database st)")
    case (Some a)
    with del_link_Ok [OF assms(1,3), of now now' index s] that replace_on_link [OF assms(1,2) Some, of None now']
      other [of a index] interface_on_link_concerns [OF assms(1)]
    show ?thesis by (auto simp: concerns_def Let_def split: if_splits)
  qed (use del_link_Ok [OF assms(1,3), of now now' index s] that assms(4) in auto)
  have addr: "b \<in># item_bag (interfaces (database st'))" if "with_addresses now change index st = Ok st'" for change index
  proof (cases "get_interface_status_item_by_device_index index (database st)")
    case (Some a)
    then have a: "a \<in># ?M" "net_id (item_id a) = Some index" by (simp_all add: device_index_lookup [OF assms(1)])
    with with_addresses_replaces [OF assms(1) _ a, of now change] that other [OF a] assms(3) show ?thesis
      by (auto simp: counters_free_def)
  qed (use that assms(4) in \<open>simp add: with_addresses_def\<close>)
  have "st' = st \<or> (\<exists>index s. new_link try_send now now' (index, s) st = Ok st') \<or> (\<exists>index s. del_link now now' (index, s) st = Ok st') \<or>
      (\<exists>change index. with_addresses now change index st = Ok st')"
    using assms(6)
    by (fastforce simp: message_received_def new_address_def del_address_def
        split: NetlinkPayload.splits RtnlMessage.splits option.splits)
  with new del addr assms(4) show ?thesis by blast
qed

lemma unindexed_stays:
  assumes "db_ok (database st)" "database_typed (database st)" "counters_below (length ms) (database st)"
    and "b \<in># item_bag (interfaces (database st))" "net_id (item_id b) = None"
  shows "\<exists>st'. ofold (\<lambda>(now, now', m). message_received p af try_send now now' m) ms st = Ok st' \<and>
    db_ok (database st') \<and> b \<in># item_bag (interfaces (database st'))"
  using assms
proof (induction ms arbitrary: st)
  case (Cons x ms)
  obtain now now' m where x: "x = (now, now', m)" by (cases x)
  have room: "counters_below (Suc (length ms)) (database st)" using Cons.prems(3) by simp
  from notification_returns [OF Cons.prems(1,2) room] obtain st1 where
    1: "message_received p af try_send now now' m st = Ok st1" "db_ok (database st1)" "database_typed (database st1)"
      "counters_below (length ms) (database st1)" by blast
  from unindexed_kept [OF Cons.prems(1,2) counters_below_free [OF room] Cons.prems(4,5) 1(1)]
  have "b \<in># item_bag (interfaces (database st1))" .
  from Cons.IH [OF 1(2-4) this Cons.prems(5)] show ?case by (simp add: x 1(1))
qed simp

text \<open>A scan that sees its link puts an interface without an index on it, however recent it is.\<close>

lemma scan_restores:
  assumes "db_ok (database st)" "config_ok config" "devices_distinct config" "interfaces_distinct config"
    and "reports_distinct (reports (NetlinkMessageProcessor_new f config) link_data)"
    and "length link_data + length network_data + length (network_links config) + length (network_interfaces config) < 2 ^ 64"
    and "b \<in># item_bag (interfaces (database st))" "net_id (item_id b) = None" "net_name (item_id b) = Some name"
    and "(name, interface) \<in> set (network_interfaces config)"
    and "(index, s) \<in> set (reports (NetlinkMessageProcessor_new f config) link_data)" "link_name s = Some (interface_network_link interface)"
  shows "\<exists>st'. poll env config (NetlinkMessageProcessor_new f config) try_send (Ok link_data) (Ok network_data) st = Ok st' \<and>
    (\<exists>c \<in># item_bag (interfaces (database st')). net_id (item_id c) = Some index \<and>
       status c = \<lparr>interface_name = Some name, status_addresses = sort (given (families env) network_data index), network_link_status = s\<rparr>)"
proof -
  let ?rs = "reports (NetlinkMessageProcessor_new f config) link_data" and ?known = "given (families env) network_data"
  let ?E = "expected_interfaces config ?rs ?known"
  let ?id = "CanonicalNetworkId_new (Some index) (Some name) (Some (status_device s))"
  let ?status = "\<lparr>interface_name = Some name, status_addresses = sort (?known index), network_link_status = s\<rparr>"
  have "link_report ?rs (interface_network_link interface) = Some (index, s)"
    using link_report_iff [OF reports_names_distinct [OF assms(2,5)]] assms(11,12) by simp
  then have entry: "(?id, ?status) \<in> ?E"
    using assms(10) by (force simp: expected_interfaces_def configured_entry_def)
  from scan_interfaces_settle [OF assms(1-6), of env try_send] obtain st' where
    1: "poll env config (NetlinkMessageProcessor_new f config) try_send (Ok link_data) (Ok network_data) st = Ok st'"
      "image_mset item_id (item_bag (interfaces (database st'))) = mset_set (fst ` ?E)"
      "\<forall>a \<in># item_bag (interfaces (database st')). (item_id a, status a) \<in> ?E \<or> a \<in># item_bag (interfaces (database st))"
    by blast
  have "unassigned config ?rs ?known \<subseteq> set ?rs" by (auto simp: unassigned_def)
  then have "finite ?E" by (simp add: expected_interfaces_def finite_subset)
  with entry have "?id \<in># mset_set (fst ` ?E)" by force
  then obtain c where c: "c \<in># item_bag (interfaces (database st'))" "item_id c = ?id" unfolding 1(2) [symmetric] by auto
  have "c \<notin># item_bag (interfaces (database st))"
  proof
    assume "c \<in># item_bag (interfaces (database st))"
    moreover have "c \<noteq> b" using c(2) assms(8) by (auto simp: CanonicalNetworkId_new_def)
    ultimately obtain M where "item_bag (interfaces (database st)) = add_mset c (add_mset b M)"
      using assms(7) by (metis multi_member_split insert_noteq_member)
    with interface_store.unique [OF assms(1), of c b M] c(2) assms(9) show False
      by (auto simp: conflicts_def same_key_def CanonicalNetworkId_new_def)
  qed
  with 1(3) c have "(?id, status c) \<in> ?E" by metis
  from inj_onD [OF expected_interfaces_inj [OF assms(2,5), of ?known] _ this entry] have "status c = ?status" by simp
  with 1(1) c show ?thesis by (auto simp: CanonicalNetworkId_new_def intro!: bexI [of _ c])
qed

lemma flap_state:
  assumes "db_ok (database st)" "database_typed (database st)" "counters_below (2 + k) (database st)"
    and "a \<in># item_bag (interfaces (database st))" "concerns index (status_device s) a" "interface_name (status a) = Some name"
    and "payload m1 = InnerMessage (DelLink msg1)" "process_link p msg1 = Some (index, s)" "link_name s = Some n"
    and "payload m2 = InnerMessage (NewLink msg2)" "process_link p msg2 = Some (index, s')" "status_device s' = status_device s"
  shows "\<exists>st1 st2 b. message_received p af try_send t1 t1' m1 st = Ok st1 \<and>
    message_received p af try_send t2 t2' m2 st1 = Ok st2 \<and>
    reported_link t2 index s' \<in># item_bag (links (database st2)) \<and>
    item_bag (interfaces (database st2)) = add_mset b (item_bag (interfaces (database st)) - {#a#}) \<and>
    interface_name (status b) = Some name \<and> net_id (item_id b) = None \<and> net_name (item_id b) = Some name \<and>
    operational_state (network_link_status (status b)) = NotFound \<and>
    db_ok (database st2) \<and> database_typed (database st2) \<and> counters_below k (database st2)"
proof -
  let ?l = "gone_link t1 s"
  let ?b = "interface_with_link t1' None a ?l"
  have room: "counters_below (Suc (Suc k)) (database st)" using assms(3) by simp
  have on: "interface_on_link index ?l (database st) = Some a"
    using assms(4,5) interface_on_link_concerns [OF assms(1)] by simp
  from del_link_Ok [OF assms(1) counters_below_free [OF room], of t1 t1' index s] obtain st1 where
    1: "del_link t1 t1' (index, s) st = Ok st1" "db_ok (database st1)"
      "item_bag (interfaces (database st1)) = add_mset ?b (item_bag (interfaces (database st)) - {#a#})"
    using on assms(6,9) replace_on_link(1) [OF assms(1,2) on, of None t1'] by (auto simp: Let_def)
  have run1: "message_received p af try_send t1 t1' m1 st = Ok st1"
    using 1(1) assms(7,8) by (simp add: message_received_def)
  obtain M where M: "item_bag (interfaces (database st)) = add_mset a M" using assms(4) by (meson multi_member_split)
  have "net_id (item_id c) \<noteq> Some index" if c: "c \<in># M" for c
  proof
    assume *: "net_id (item_id c) = Some index"
    obtain N where "M = add_mset c N" using multi_member_split [OF c] by blast
    with interface_store.unique [OF assms(1), of a c N] M * assms(5) show False
      by (simp add: concerns_def conflicts_def same_key_def)
  qed
  then have "interface_on_link index (reported_link t2 index s') (database st1) = None"
  proof (cases "interface_on_link index (reported_link t2 index s') (database st1)")
    case (Some c)
    then have "c \<in># item_bag (interfaces (database st1))" "net_id (item_id c) = Some index"
      using interface_on_link_concerns [OF 1(2)] by (simp_all add: concerns_def)
    with \<open>\<And>c. c \<in># M \<Longrightarrow> net_id (item_id c) \<noteq> Some index\<close> show ?thesis
      unfolding 1(3) M by (auto simp: CanonicalNetworkId_new_def)
  qed
  with new_link_Ok [OF 1(2) counters_below_free [OF del_link_counters [OF assms(1) room 1(1)]], of try_send t2 t2' index s'] obtain st2 where
    2: "new_link try_send t2 t2' (index, s') st1 = Ok st2"
      "item_bag (links (database st2)) = put_item (reported_link t2 index s') (item_bag (links (database st1)))"
      "item_bag (interfaces (database st2)) = item_bag (interfaces (database st1))" by auto
  have run2: "message_received p af try_send t2 t2' m2 st1 = Ok st2"
    using 2(1) assms(10,11) by (simp add: message_received_def)
  have "database_typed (database st1)" using message_received_keeps [OF assms(1,2) run1] by simp
  then have ok2: "db_ok (database st2)" "database_typed (database st2)" "counters_below k (database st2)"
    using message_received_keeps [OF 1(2) _ run2] new_link_counters [OF 1(2) del_link_counters [OF assms(1) room 1(1)] 2(1)] by simp_all
  have "operational_state (status ?l) = NotFound" using assms(9) by (simp add: gone_link_def NetworkStatusItem_new_def)
  then show ?thesis
    using run1 run2 2(2,3) 1(3) assms(6) ok2
    by (intro exI [of _ st1] exI [of _ st2] exI [of _ ?b]) (simp add: put_item_def CanonicalNetworkId_new_def)
qed

text \<open>C24: A link that goes and comes back: after \<open>DelLink\<close> and then \<open>NewLink\<close> for one index and device the
  link is stored as reported, but the configured interface that was on it stays without an index
  and \<open>NotFound\<close>, since the second notification looks the interface up by its index. It stays so whatever
  notifications follow, of whatever kind and number, until a scan: the first one whose answer has the link
  puts the interface on it, with its addresses.\<close>

theorem link_flap:
  fixes config :: Router and f :: order_choice
  defines "p \<equiv> NetlinkMessageProcessor_new f config"
  assumes "db_ok (database st)" "database_typed (database st)" "counters_below (2 + length ms) (database st)"
    and "a \<in># item_bag (interfaces (database st))" "concerns index (status_device s) a" "interface_name (status a) = Some name"
    and "payload m1 = InnerMessage (DelLink msg1)" "process_link p msg1 = Some (index, s)" "link_name s = Some n"
    and "payload m2 = InnerMessage (NewLink msg2)" "process_link p msg2 = Some (index, s')" "status_device s' = status_device s"
    and "config_ok config" "devices_distinct config" "interfaces_distinct config"
    and "(name, interface) \<in> set (network_interfaces config)"
    and "reports_distinct (reports p link_data)" "(i, back) \<in> set (reports p link_data)"
    and "link_name back = Some (interface_network_link interface)"
    and "length link_data + length network_data + length (network_links config) + length (network_interfaces config) < 2 ^ 64"
  shows "\<exists>st1 st2 st3 st4 b. message_received p af try_send t1 t1' m1 st = Ok st1 \<and>
    message_received p af try_send t2 t2' m2 st1 = Ok st2 \<and>
    reported_link t2 index s' \<in># item_bag (links (database st2)) \<and>
    item_bag (interfaces (database st2)) = add_mset b (item_bag (interfaces (database st)) - {#a#}) \<and>
    interface_name (status b) = Some name \<and> net_id (item_id b) = None \<and>
    operational_state (network_link_status (status b)) = NotFound \<and>
    ofold (\<lambda>(now, now', m). message_received p af try_send now now' m) ms st2 = Ok st3 \<and>
    b \<in># item_bag (interfaces (database st3)) \<and>
    poll env config p try_send (Ok link_data) (Ok network_data) st3 = Ok st4 \<and>
    (\<exists>c \<in># item_bag (interfaces (database st4)). net_id (item_id c) = Some i \<and>
       status c = \<lparr>interface_name = Some name, status_addresses = sort (given (families env) network_data i), network_link_status = back\<rparr>)"
proof -
  from flap_state [OF assms(2-13), of af try_send t1 t1' t2 t2'] obtain st1 st2 b where
    1: "message_received p af try_send t1 t1' m1 st = Ok st1" "message_received p af try_send t2 t2' m2 st1 = Ok st2"
      "reported_link t2 index s' \<in># item_bag (links (database st2))"
      "item_bag (interfaces (database st2)) = add_mset b (item_bag (interfaces (database st)) - {#a#})"
      "interface_name (status b) = Some name" "net_id (item_id b) = None" "net_name (item_id b) = Some name"
      "operational_state (network_link_status (status b)) = NotFound"
      "db_ok (database st2)" "database_typed (database st2)" "counters_below (length ms) (database st2)" by blast
  then have "b \<in># item_bag (interfaces (database st2))" by simp
  from unindexed_stays [OF 1(9-11) this 1(6), of p af try_send] obtain st3 where
    3: "ofold (\<lambda>(now, now', m). message_received p af try_send now now' m) ms st2 = Ok st3" "db_ok (database st3)"
      "b \<in># item_bag (interfaces (database st3))" by blast
  from scan_restores [OF 3(2) assms(14-16) assms(18) [unfolded p_def] assms(21) 3(3) 1(6,7) assms(17) assms(19) [unfolded p_def] assms(20), of env try_send]
    1 3 show ?thesis unfolding p_def by blast
qed

section \<open>The sample manager\<close>

lemma sample_counters: "counters_below k (database sample_st) \<longleftrightarrow> k < 2 ^ 64 - 1"
proof -
  have "item_bag (links (database sample_st)) = {#}" by (rule sample_st(5))
  have "next_index (links (database sample_st)) = 0"
  proof -
    have "next_index (links InterfaceManagerDatabase_new) = 0" by (simp add: InterfaceManagerDatabase_new_def empty_table_def)
    moreover obtain db d where "set_interface_status_item sample_item InterfaceManagerDatabase_new = Ok (db, d)"
      using interface_store.put_law [OF db_new_ok, of sample_item]
      by (auto simp: InterfaceManagerDatabase_new_def empty_table_def)
    moreover have "links db = links InterfaceManagerDatabase_new" by (rule interface_frame(1)) fact
    ultimately show ?thesis by (simp add: sample_st_def)
  qed
  then show ?thesis by (auto simp: counters_below_def sample_st(8))
qed

definition down_message :: LinkMessage where
  "down_message = \<lparr>interface_family = 0, lm_index = 2, link_nlas = [IfName ''eth0'', OperState StateDown]\<rparr>"

lemma down_report: "process_link sample_processor down_message = Some (2, sample_link_status\<lparr>operational_state := Down\<rparr>)"
  by (simp add: process_link_eq down_message_def NetlinkMessageProcessor_new_def sample_config_def
      hm_collect_def insert_at_def sample_link_status_def)

lemma sample_scan:
  "devices_distinct sample_config"
  "length [sample_message m] + length ([] :: NetlinkMessage list) + length (network_links sample_config) + length (network_interfaces sample_config) < 2 ^ 64"
  "reports_distinct (reports sample_processor [sample_message m])"
  by (simp_all add: devices_distinct_def sample_config_def reports_def reports_distinct_def List.map_filter_simps split: option.split)

theorem recent_link_kept_witness:
  "\<exists>st1 st2. message_received sample_processor sample_families bounded_send 1 2 (sample_message (NewLink sample_link_message)) sample_st = Ok st1 \<and>
    poll sample_env sample_config sample_processor bounded_send (Ok [sample_message (NewLink down_message)]) (Ok []) st1 = Ok st2 \<and>
    (\<exists>b \<in># item_bag (links (database st2)). status b = sample_link_status \<and> net_id (item_id b) = Some 2)"
proof -
  have "payload (sample_message (NewLink sample_link_message)) = InnerMessage (NewLink sample_link_message)" by simp
  moreover have "(2, sample_link_status\<lparr>operational_state := Down\<rparr>) \<in> set (reports sample_processor [sample_message (NewLink down_message)])"
    by (simp add: reports_def List.map_filter_simps down_report)
  moreover have "\<forall>t \<in> scan_times sample_env. t \<le> 1 + hold_period"
    by (simp add: sample_times hold_period_def)
  moreover have "link_name (sample_link_status\<lparr>operational_state := Down\<rparr>) = link_name sample_link_status"
      "status_device (sample_link_status\<lparr>operational_state := Down\<rparr>) = status_device sample_link_status"
    by simp_all
  ultimately show ?thesis
    using recent_link_kept [OF sample_st(1,3) sample_config_ok sample_scan(1) _ sample_report sample_scan(3,2)] by blast
qed

theorem deletion_undone_witness:
  "\<exists>st1 st2. message_received sample_processor sample_families bounded_send 2999999998 2999999999
       (sample_message (DelLink sample_link_message)) sample_st = Ok st1 \<and>
    poll sample_env sample_config sample_processor bounded_send (Ok sample_links) (Ok []) st1 = Ok st2 \<and>
    (\<exists>b \<in># item_bag (links (database st2)). status b = sample_link_status \<and> net_id (item_id b) = Some 2)"
proof -
  have "payload (sample_message (DelLink sample_link_message)) = InnerMessage (DelLink sample_link_message)" by simp
  moreover have "(2, sample_link_status) \<in> set (reports sample_processor sample_links)" by (simp add: sample_reports)
  moreover have "link_name sample_link_status = Some ''lan''" by (simp add: sample_link_status_def)
  ultimately show ?thesis
    using deletion_undone [OF sample_st(1,3) sample_config_ok sample_scan(1) _ sample_report _ sample_scan(3,2)] by blast
qed

theorem link_flap_witness:
  "\<exists>st1 st2 st3 st4 b c. message_received sample_processor sample_families bounded_send 1 2 (sample_message (DelLink sample_link_message)) sample_st = Ok st1 \<and>
    message_received sample_processor sample_families bounded_send 3 4 (sample_message (NewLink sample_link_message)) st1 = Ok st2 \<and>
    reported_link 3 2 sample_link_status \<in># item_bag (links (database st2)) \<and>
    item_bag (interfaces (database st2)) = {#b#} \<and> operational_state (network_link_status (status b)) = NotFound \<and>
    message_received sample_processor sample_families bounded_send 5 6 (sample_message (NewLink sample_link_message)) st2 = Ok st3 \<and>
    b \<in># item_bag (interfaces (database st3)) \<and>
    poll sample_env sample_config sample_processor bounded_send (Ok sample_links) (Ok []) st3 = Ok st4 \<and>
    c \<in># item_bag (interfaces (database st4)) \<and> network_link_status (status c) = sample_link_status"
proof -
  let ?new = "sample_message (NewLink sample_link_message)" and ?del = "sample_message (DelLink sample_link_message)"
  have room: "counters_below (2 + length [(5 :: nat, 6 :: nat, ?new)]) (database sample_st)" by (simp add: sample_counters)
  have item: "sample_item \<in># item_bag (interfaces (database sample_st))" by (simp add: sample_st(4))
  have on: "concerns 2 (status_device sample_link_status) sample_item" "link_name sample_link_status = Some ''lan''"
    using sample_item(4) by (simp_all add: sample_link_status_def)
  obtain interface where named: "(''Inside'', interface) \<in> set (network_interfaces sample_config)"
      "link_name sample_link_status = Some (interface_network_link interface)"
    by (auto simp: sample_config_def sample_link_status_def)
  have seen: "(2, sample_link_status) \<in> set (reports sample_processor sample_links)" by (simp add: sample_reports)
  have own: "interfaces_distinct sample_config" by (simp add: interfaces_distinct_def sample_config_def)
  have "payload ?del = InnerMessage (DelLink sample_link_message)" "payload ?new = InnerMessage (NewLink sample_link_message)" by simp_all
  note flap = link_flap [OF sample_st(1,2) room item on(1) sample_item(2) this(1) sample_report on(2) this(2) sample_report refl
      sample_config_ok sample_scan(1) own named(1) sample_scan(3) seen named(2) sample_scan(2)]
  obtain st1 st2 st3 st4 b where *:
    "message_received sample_processor sample_families bounded_send 1 2 ?del sample_st = Ok st1"
    "message_received sample_processor sample_families bounded_send 3 4 ?new st1 = Ok st2"
    "reported_link 3 2 sample_link_status \<in># item_bag (links (database st2))"
    "item_bag (interfaces (database st2)) = add_mset b (item_bag (interfaces (database sample_st)) - {#sample_item#})"
    "operational_state (network_link_status (status b)) = NotFound"
    "ofold (\<lambda>(now, now', m). message_received sample_processor sample_families bounded_send now now' m) [(5, 6, ?new)] st2 = Ok st3"
    "b \<in># item_bag (interfaces (database st3))"
    "poll sample_env sample_config sample_processor bounded_send (Ok sample_links) (Ok []) st3 = Ok st4"
    "\<exists>c \<in># item_bag (interfaces (database st4)). net_id (item_id c) = Some 2 \<and> status c =
       \<lparr>interface_name = Some ''Inside'', status_addresses = sort (given (families sample_env) [] 2), network_link_status = sample_link_status\<rparr>"
    using flap [of sample_families bounded_send 1 2 3 4 sample_env] by blast
  then obtain c where "c \<in># item_bag (interfaces (database st4))" "network_link_status (status c) = sample_link_status" by auto
  moreover have "item_bag (interfaces (database st2)) = {#b#}" using *(4) by (simp add: sample_st(4))
  moreover have "message_received sample_processor sample_families bounded_send 5 6 ?new st2 = Ok st3" using *(6) by simp
  ultimately show ?thesis using *(1-3,5,7,8) by blast
qed

end
