(* ===== verification/Interface_Tasks.thy ===== *)
theory Interface_Tasks
  imports Interface_Convergence
begin

text \<open>
  The two tasks of the interface manager (\<open>interface/mod.rs\<close>) with their locks. The worker asks the
  kernel without a lock, changes the database under its lock, gives the lock back and only then tells
  the subscribers (line 456); the listener keeps the database lock to its end but takes the lock on
  the subscribers twice. Here each part between two locks is a step, and the listener may run before
  the first scan has ended. The coarser manager of \<open>Interface_Manager\<close> is shown to be what the
  database does under these steps; what the subscribers are told can differ.
\<close>

section \<open>The parts of a scan and of a notification\<close>

definition scan_commit ::
  "poll_env \<Rightarrow> Router \<Rightarrow> NetlinkMessageProcessor \<Rightarrow> NetlinkMessage list \<Rightarrow> NetlinkMessage list \<Rightarrow>
   InterfaceManagerDatabase \<Rightarrow> (InterfaceManagerDatabase \<times> NetworkStatusUpdate list) router_result" where
  "scan_commit env config p link_data network_data db =
     (let (polled_links, polled_interfaces) = gather env config p link_data network_data in
      obind (poll_links env polled_links db) (\<lambda>(db, notify_deleted_links, notify_links).
      obind (poll_interfaces env polled_interfaces db) (\<lambda>(db, notify_deleted_interfaces, notify_interfaces).
      Ok (db, poll_updates notify_deleted_links notify_links notify_deleted_interfaces notify_interfaces))))"

definition tell_subscribers ::
  "('sub, 'ch) sender \<Rightarrow> NetworkStatusUpdate list \<Rightarrow> ('sub, 'ch) manager \<Rightarrow> ('sub, 'ch) manager" where
  "tell_subscribers try_send updates st =
     (let (kept, ch) = retain_subscribers try_send updates (subscribers st) (channels st)
      in st\<lparr>subscribers := kept, channels := ch\<rparr>)"

lemma tell_subscribers_database [simp]: "database (tell_subscribers try_send updates st) = database st"
  by (simp add: tell_subscribers_def split_def Let_def)

lemma try_poll_parts:
  "try_poll env config p try_send (Ok link_data) (Ok network_data) st =
     obind (scan_commit env config p link_data network_data (database st))
       (\<lambda>(db, updates). Ok (tell_subscribers try_send updates (st\<lparr>database := db\<rparr>)))"
  by (simp add: try_poll_def scan_commit_def tell_subscribers_def obind_assoc split_def Let_def)

text \<open>The first part of a \<open>NewLink\<close> notification ends when the subscribers know of the link, with the
  interface that is left to store, if there is one.\<close>

definition new_link_first ::
  "('sub, 'ch) sender \<Rightarrow> instant \<Rightarrow> instant \<Rightarrow> u64 \<times> NetworkLinkStatus \<Rightarrow>
   ('sub, 'ch) manager \<Rightarrow> (('sub, 'ch) manager \<times> interface_item option) router_result" where
  "new_link_first try_send now now' = (\<lambda>(index, link_status) st.
     let i = CanonicalNetworkId_new (Some index) (link_name link_status) (Some (status_device link_status));
         link = NetworkStatusItem_new now i link_status
     in obind (set_link_status_item link (database st)) (\<lambda>(db, deleted).
        let updated_interface =
              map_option (\<lambda>interface. interface_with_link now' (Some index) interface link)
                (interface_on_link index link db)
        in Ok (tell_subscribers try_send [LinkUpdate (status link)] (st\<lparr>database := db\<rparr>), updated_interface)))"

definition new_link_second ::
  "('sub, 'ch) sender \<Rightarrow> interface_item \<Rightarrow> ('sub, 'ch) manager \<Rightarrow> ('sub, 'ch) manager router_result" where
  "new_link_second try_send interface st =
     obind (set_interface_status_item interface (database st)) (\<lambda>(db, deleted).
       Ok (tell_subscribers try_send [InterfaceUpdate (status interface)] (st\<lparr>database := db\<rparr>)))"

definition finish_message ::
  "('sub, 'ch) sender \<Rightarrow> ('sub, 'ch) manager \<times> interface_item option \<Rightarrow> ('sub, 'ch) manager router_result" where
  "finish_message try_send = (\<lambda>(st, left). case left of None \<Rightarrow> Ok st | Some interface \<Rightarrow> new_link_second try_send interface st)"

lemma new_link_parts:
  "new_link try_send now now' r st = obind (new_link_first try_send now now' r st) (finish_message try_send)"
  by (cases r, simp add: new_link_def new_link_first_def obind_assoc Let_def)
    (auto simp: finish_message_def new_link_second_def tell_subscribers_def split_def Let_def fun_eq_iff intro!: arg_cong2 [where f = obind]
      split: option.split)

definition message_begin ::
  "NetlinkMessageProcessor \<Rightarrow> address_families \<Rightarrow> ('sub, 'ch) sender \<Rightarrow> instant \<Rightarrow> instant \<Rightarrow> NetlinkMessage \<Rightarrow>
   ('sub, 'ch) manager \<Rightarrow> (('sub, 'ch) manager \<times> interface_item option) router_result" where
  "message_begin p af try_send now now' message st =
     (case payload message of
        InnerMessage (NewLink _) \<Rightarrow>
          (case process_link_message p (payload message) of
             None \<Rightarrow> Ok (st, None) | Some report \<Rightarrow> new_link_first try_send now now' report st)
      | _ \<Rightarrow> obind (message_received p af try_send now now' message st) (\<lambda>st. Ok (st, None)))"

lemma message_received_parts:
  "message_received p af try_send now now' message st =
     obind (message_begin p af try_send now now' message st) (finish_message try_send)"
  by (simp add: message_begin_def message_received_def new_link_parts obind_assoc finish_message_def
      split: NetlinkPayload.split RtnlMessage.split option.split)

text \<open>What the parts do to the database does not depend on the subscribers.\<close>

lemma new_link_first_database:
  assumes "new_link_first try_send now now' r st = Ok (st1, left)" "database st2 = database st"
  shows "\<exists>st3. new_link_first try_send now now' r st2 = Ok (st3, left) \<and> database st3 = database st1"
  using assms by (cases r) (auto simp: new_link_first_def Let_def obind_eq_Ok split_def)

lemma new_link_second_database:
  assumes "new_link_second try_send interface st = Ok st1" "database st2 = database st"
  shows "\<exists>st3. new_link_second try_send interface st2 = Ok st3 \<and> database st3 = database st1"
  using assms by (auto simp: new_link_second_def obind_eq_Ok split_def)

lemma with_addresses_database:
  assumes "with_addresses now change index st = Ok st1" "database st2 = database st"
  shows "\<exists>st3. with_addresses now change index st2 = Ok st3 \<and> database st3 = database st1"
  using assms by (auto simp: with_addresses_def obind_eq_Ok Let_def split_def split: option.splits)

lemma drop_interface_database:
  assumes "drop_interface interface st db = Ok st1"
  shows "\<exists>st3. drop_interface interface st2 db = Ok st3 \<and> database st3 = database st1"
  using assms by (auto simp: drop_interface_def obind_eq_Ok Let_def split_def split: option.splits)

lemma del_link_database:
  assumes "del_link now now' r st = Ok st1" "database st2 = database st"
  shows "\<exists>st3. del_link now now' r st2 = Ok st3 \<and> database st3 = database st1"
proof -
  obtain index s where r: "r = (index, s)" by (cases r)
  from assms(1) obtain db link where
    1: "(case net_name (item_id (gone_link now s)) of
         Some _ \<Rightarrow> obind (set_link_status_item (gone_link now s) (database st)) (\<lambda>(db, deleted). Ok (db, gone_link now s))
       | None \<Rightarrow> let (db, deleted_items) = remove_link_status_item (item_id (gone_link now s)) (database st) []
                 in Ok (db, gone_link now s)) = Ok (db, link)"
      "(case interface_on_link index link db of
          None \<Rightarrow> Ok (st\<lparr>database := db\<rparr>)
        | Some a \<Rightarrow> drop_interface (interface_with_link now' None a link) st db) = Ok st1"
    unfolding r del_link_eq obind_eq_Ok by force
  show ?thesis
  proof (cases "interface_on_link index link db")
    case None
    with 1(2) show ?thesis unfolding r del_link_eq assms(2) 1(1) obind.simps prod.case by auto
  next
    case (Some a)
    with 1(2) drop_interface_database [of "interface_with_link now' None a link" st db st1 st2] obtain st3 where
      "drop_interface (interface_with_link now' None a link) st2 db = Ok st3" "database st3 = database st1" by auto
    with Some show ?thesis unfolding r del_link_eq assms(2) 1(1) obind.simps prod.case by simp
  qed
qed

lemma message_begin_database:
  assumes "message_begin p af try_send now now' message st = Ok (st1, left)" "database st2 = database st"
  shows "\<exists>st3. message_begin p af try_send now now' message st2 = Ok (st3, left) \<and> database st3 = database st1"
  using assms(1) new_link_first_database [OF _ assms(2)] del_link_database [OF _ assms(2)] with_addresses_database [OF _ assms(2)]
  by (fastforce simp: message_begin_def message_received_def new_address_def del_address_def obind_eq_Ok assms(2)
      split: NetlinkPayload.splits RtnlMessage.splits option.splits)

section \<open>The two tasks as a state machine\<close>

text \<open>
  The worker waits for the kernel's answers, has updates to tell, waits for its interval, or has ended;
  the listener is idle, or holds the database lock with an interface left to store. \<open>handed_out\<close> is
  set when \<open>InterfaceManager::new\<close> returns, after the first scan; the listener is at work before that. The
  worker owns the netlink socket: when it has ended the socket is dropped, and the task that feeds the
  listener ends after the turn it is in.
\<close>

datatype worker_state = Asking | Telling "NetworkStatusUpdate list" | Waiting | Stopped

datatype listener_state = Idle | Storing interface_item

record ('sub, 'ch) tasks =
  alive :: bool
  handed_out :: bool
  worker :: worker_state
  listening :: bool
  listener :: listener_state
  data :: "('sub, 'ch) manager"

definition tasks_start :: "'ch \<Rightarrow> ('sub, 'ch) tasks" where
  "tasks_start ch = \<lparr>alive = True, handed_out = False, worker = Asking, listening = True, listener = Idle, data = manager_new ch\<rparr>"

inductive tasks_step ::
  "Router \<Rightarrow> NetlinkMessageProcessor \<Rightarrow> address_families \<Rightarrow> ('sub, 'ch) sender \<Rightarrow>
   ('sub, 'ch) tasks \<Rightarrow> ('sub, 'ch) tasks \<Rightarrow> bool"
  for config p af try_send where
  ask_failed: "worker t = Asking \<Longrightarrow>
    tasks_step config p af try_send t (t\<lparr>worker := Waiting, handed_out := True\<rparr>)"
| scan_committed: "worker t = Asking \<Longrightarrow> listener t = Idle \<Longrightarrow>
    scan_commit env config p link_data network_data (database (data t)) = Ok (db, updates) \<Longrightarrow>
    tasks_step config p af try_send t (t\<lparr>worker := Telling updates, data := (data t)\<lparr>database := db\<rparr>\<rparr>)"
| scan_told: "worker t = Telling updates \<Longrightarrow>
    tasks_step config p af try_send t
      (t\<lparr>worker := Waiting, handed_out := True, data := tell_subscribers try_send updates (data t)\<rparr>)"
| interval_tick: "worker t = Waiting \<Longrightarrow>
    tasks_step config p af try_send t (t\<lparr>worker := (if alive t then Asking else Stopped)\<rparr>)"
| message_begun: "listener t = Idle \<Longrightarrow> message_begin p af try_send now now' message (data t) = Ok (st, left) \<Longrightarrow>
    listening t \<Longrightarrow> tasks_step config p af try_send t
      (t\<lparr>listener := (case left of None \<Rightarrow> Idle | Some interface \<Rightarrow> Storing interface), data := st\<rparr>)"
| message_done: "listener t = Storing interface \<Longrightarrow> new_link_second try_send interface (data t) = Ok st \<Longrightarrow>
    tasks_step config p af try_send t (t\<lparr>listener := Idle, data := st\<rparr>)"
| listening_ended: "worker t = Stopped \<Longrightarrow> listening t \<Longrightarrow> listener t = Idle \<Longrightarrow>
    tasks_step config p af try_send t (t\<lparr>listening := False\<rparr>)"
| tasks_subscribed: "handed_out t \<Longrightarrow> alive t \<Longrightarrow>
    tasks_step config p af try_send t (t\<lparr>data := subscribe s (data t)\<rparr>)"
| tasks_dropped: "handed_out t \<Longrightarrow> alive t \<Longrightarrow> tasks_step config p af try_send t (t\<lparr>alive := False\<rparr>)"

inductive_cases tasks_stepE: "tasks_step config p af try_send t t'"

definition some_step ::
  "Router \<Rightarrow> address_families \<Rightarrow> ('sub, 'ch) sender \<Rightarrow> ('sub, 'ch) tasks \<Rightarrow> ('sub, 'ch) tasks \<Rightarrow> bool" where
  "some_step config af try_send t t' \<longleftrightarrow> (\<exists>f. tasks_step config (NetlinkMessageProcessor_new f config) af try_send t t')"

section \<open>The database follows the manager\<close>

text \<open>While the manager is held, its database is that of a coarse manager; in the middle of a
  notification, that of one to which the first part of the notification has been done.\<close>

definition follows :: "Router \<Rightarrow> address_families \<Rightarrow> ('sub, 'ch) sender \<Rightarrow> ('sub, 'ch) tasks \<Rightarrow> ('sub, 'ch) interface_manager \<Rightarrow> bool" where
  "follows config af try_send t m \<longleftrightarrow>
     manager_reach config af try_send m \<and> running m \<and> scanning m \<and>
     (case listener t of
        Idle \<Rightarrow> database (shared m) = database (data t)
      | Storing interface \<Rightarrow> \<exists>f now now' message st.
          message_begin (NetlinkMessageProcessor_new f config) af try_send now now' message (shared m) = Ok (st, Some interface) \<and>
          database st = database (data t))"

definition manager_kept :: "Router \<Rightarrow> address_families \<Rightarrow> ('sub, 'ch) sender \<Rightarrow> ('sub, 'ch) tasks \<Rightarrow> bool" where
  "manager_kept config af try_send t \<longleftrightarrow> alive t \<longrightarrow> worker t \<noteq> Stopped \<and> (\<exists>m. follows config af try_send t m)"

lemma follows_start: "\<exists>m. follows config af try_send (tasks_start ch) m"
proof -
  have "InterfaceManager_new (Ok ()) f env config try_send (Err e) link_reply ch =
      Ok \<lparr>running = True, scanning = True, shared = manager_new ch\<rparr>" for f env e link_reply
    by (simp add: InterfaceManager_new_def poll_def try_poll_def)
  from reach_new [OF this] show ?thesis
    by (intro exI [of _ "\<lparr>running = True, scanning = True, shared = manager_new ch\<rparr>"]) (simp add: follows_def tasks_start_def)
qed

lemma follows_same:
  "follows config af try_send t m \<Longrightarrow> listener t' = listener t \<Longrightarrow> database (data t') = database (data t) \<Longrightarrow>
   follows config af try_send t' m"
  by (simp add: follows_def split: listener_state.splits)

lemma follows_notified:
  assumes "manager_reach config af try_send m" "running m" "scanning m"
    and "message_begin (NetlinkMessageProcessor_new f config) af try_send now now' message (shared m) = Ok (st, left)"
    and "finish_message try_send (st, left) = Ok st'"
  shows "\<exists>m'. manager_reach config af try_send m' \<and> running m' \<and> scanning m' \<and> shared m' = st'"
proof -
  have "message_received (NetlinkMessageProcessor_new f config) af try_send now now' message (shared m) = Ok st'"
    using assms(4,5) by (simp add: message_received_parts)
  from reach_step [OF assms(1) step_notified [OF this]] assms(2,3) show ?thesis
    by (intro exI [of _ "m\<lparr>shared := st'\<rparr>"]) simp
qed

lemma follows_step:
  assumes "follows config af try_send t m" "worker t \<noteq> Stopped" "alive t"
    and "tasks_step config (NetlinkMessageProcessor_new f config) af try_send t t'"
  shows "manager_kept config af try_send t'"
  using assms(4)
proof (cases rule: tasks_step.cases)
  case (scan_committed env link_data network_data db updates)
  from assms(1) scan_committed(3) have m: "manager_reach config af try_send m" "running m" "scanning m"
      "database (shared m) = database (data t)" by (simp_all add: follows_def)
  have "poll env config (NetlinkMessageProcessor_new f config) try_send (Ok link_data) (Ok network_data) (shared m) =
      Ok (tell_subscribers try_send updates ((shared m)\<lparr>database := db\<rparr>))" (is "_ = Ok ?st")
    using scan_committed(4) m(4) by (simp add: poll_def try_poll_parts)
  from reach_step [OF m(1) scan_tick [OF m(3,2) this]]
  have "follows config af try_send t' (m\<lparr>shared := ?st\<rparr>)"
    using m(2,3) scan_committed(1,3) by (simp add: follows_def)
  then show ?thesis using scan_committed(1) by (auto simp: manager_kept_def)
next
  case (message_begun now now' message st left)
  from assms(1) message_begun(2) have m: "manager_reach config af try_send m" "running m" "scanning m"
      "database (shared m) = database (data t)" by (simp_all add: follows_def)
  from message_begin_database [OF message_begun(3) m(4)] obtain st3 where
    3: "message_begin (NetlinkMessageProcessor_new f config) af try_send now now' message (shared m) = Ok (st3, left)"
      "database st3 = database st" by blast
  have "\<exists>m'. follows config af try_send t' m'"
  proof (cases left)
    case None
    with 3 follows_notified [OF m(1-3) 3(1)] message_begun(1) show ?thesis
      by (auto simp: follows_def finish_message_def)
  next
    case (Some interface)
    with 3 m(1-3) message_begun(1) show ?thesis by (fastforce simp: follows_def)
  qed
  then show ?thesis using message_begun(1) assms(2) by (auto simp: manager_kept_def)
next
  case (message_done interface st)
  from assms(1) message_done(2) obtain g now now' message st0 where
    m: "manager_reach config af try_send m" "running m" "scanning m"
      "message_begin (NetlinkMessageProcessor_new g config) af try_send now now' message (shared m) = Ok (st0, Some interface)"
      "database st0 = database (data t)"
    by (auto simp: follows_def)
  from new_link_second_database [OF message_done(3) m(5)] obtain st3 where
    "new_link_second try_send interface st0 = Ok st3" "database st3 = database st" by blast
  with follows_notified [OF m(1-4)] message_done(1) have "\<exists>m'. follows config af try_send t' m'"
    by (auto simp: follows_def finish_message_def)
  then show ?thesis using message_done(1) assms(2) by (auto simp: manager_kept_def)
qed (use assms(1-3) in \<open>auto simp: manager_kept_def subscribe_def intro!: exI [of _ m] elim: follows_same\<close>)

interpretation tasks_machine: machine "tasks_start ch" "some_step config af try_send" "manager_kept config af try_send"
  for ch config af try_send
proof unfold_locales
  show "manager_kept config af try_send (tasks_start ch)"
    using follows_start [of config af try_send ch] by (simp add: manager_kept_def tasks_start_def)
next
  fix t t'
  assume kept: "manager_kept config af try_send t" and step: "some_step config af try_send t t'"
  show "manager_kept config af try_send t'"
  proof (cases "alive t")
    case True
    with kept step follows_step show ?thesis unfolding manager_kept_def [of _ _ _ t] some_step_def by blast
  next
    case False
    with step have "\<not> alive t'" by (auto simp: some_step_def elim!: tasks_stepE)
    then show ?thesis by (simp add: manager_kept_def)
  qed
qed

text \<open>C6: In every history of the two tasks, the listener at work before the first scan has ended and
  subscribers told after the lock has been given back: as long as the manager is held, whenever the
  database lock is free the database is one that the coarse manager of whole scans and whole
  notifications reaches. So what holds of the coarse manager's database and listings in every
  reachable state holds here.\<close>

theorem tasks_refine:
  assumes "(some_step config af try_send)\<^sup>*\<^sup>* (tasks_start ch) t" "alive t" "listener t = Idle"
  shows "\<exists>m. manager_reach config af try_send m \<and> running m \<and> scanning m \<and> database (shared m) = database (data t)"
  using tasks_machine.reachable [OF assms(1)] assms(2,3) by (auto simp: manager_kept_def follows_def)

section \<open>The end\<close>

primrec scans_left :: "worker_state \<Rightarrow> nat" where
  "scans_left Asking = 1"
| "scans_left (Telling updates) = 0"
| "scans_left Waiting = 0"
| "scans_left Stopped = 0"

definition ended :: "('sub, 'ch) tasks \<Rightarrow> bool" where
  "ended t \<longleftrightarrow> worker t = Stopped \<and> \<not> listening t \<and> listener t = Idle"

lemma dropped_step:
  assumes "some_step config af try_send t t'" "\<not> alive t"
  shows "\<not> alive t' \<and> scans_left (worker t') \<le> scans_left (worker t) \<and> (worker t = Stopped \<longrightarrow> worker t' = Stopped) \<and>
    (\<not> listening t \<longrightarrow> \<not> listening t') \<and> \<not> ended t"
  using assms by (auto simp: some_step_def ended_def elim!: tasks_stepE)

lemma worker_stops:
  assumes "\<not> alive t"
  shows "\<exists>t'. (some_step config af try_send)\<^sup>*\<^sup>* t t' \<and> worker t' = Stopped"
proof -
  let ?s = "some_step config af try_send"
  have waiting: "\<exists>t'. ?s\<^sup>*\<^sup>* t t' \<and> worker t' = Stopped" if "\<not> alive t" "worker t = Waiting" for t
  proof -
    have "?s t (t\<lparr>worker := (if alive t then Asking else Stopped)\<rparr>)"
      using interval_tick [OF that(2)] unfolding some_step_def by blast
    with that(1) show ?thesis by (intro exI [of _ "t\<lparr>worker := Stopped\<rparr>"]) simp
  qed
  show ?thesis
  proof (cases "worker t")
    case Asking
    then have "?s t (t\<lparr>worker := Waiting, handed_out := True\<rparr>)"
      using ask_failed unfolding some_step_def by blast
    with waiting [of "t\<lparr>worker := Waiting, handed_out := True\<rparr>"] assms show ?thesis
      by (auto intro: converse_rtranclp_into_rtranclp)
  next
    case (Telling updates)
    let ?t = "t\<lparr>worker := Waiting, handed_out := True, data := tell_subscribers try_send updates (data t)\<rparr>"
    have "?s t ?t" using scan_told [OF Telling] unfolding some_step_def by blast
    with waiting [of ?t] assms show ?thesis by (auto intro: converse_rtranclp_into_rtranclp)
  qed (use assms waiting in auto)
qed

text \<open>C20: Dropping the manager ends its tasks. Whatever happens after the drop, the manager stays dropped, no
  scan is begun any more (at most the one in progress is committed), a worker that has ended and a
  listener that has ended stay so, and once both have ended nothing can happen any more; and from every
  state after the drop the worker can come to its end.\<close>

theorem dropped_manager_ends:
  assumes "(some_step config af try_send)\<^sup>*\<^sup>* t t'" "\<not> alive t"
  shows "\<not> alive t' \<and> scans_left (worker t') \<le> scans_left (worker t) \<and> (worker t = Stopped \<longrightarrow> worker t' = Stopped) \<and>
    (\<not> listening t \<longrightarrow> \<not> listening t') \<and> (ended t \<longrightarrow> t' = t) \<and>
    (\<exists>t''. (some_step config af try_send)\<^sup>*\<^sup>* t' t'' \<and> worker t'' = Stopped)"
  using assms
proof (induction rule: converse_rtranclp_induct)
  case base
  then show ?case using worker_stops by simp
next
  case (step u v)
  from dropped_step [OF step.hyps(1) step.prems] step.IH show ?case by auto
qed

section \<open>Witnesses\<close>

text \<open>A run: the first scan is refused, the manager is handed out, the interval passes.\<close>

theorem tasks_refine_witness:
  "\<exists>t m. (some_step sample_config sample_families bounded_send)\<^sup>*\<^sup>* (tasks_start (\<lambda>n. (n + 1, []))) t \<and> worker t = Asking \<and>
     handed_out t \<and> manager_reach sample_config sample_families bounded_send m \<and> database (shared m) = database (data t)"
proof -
  let ?s = "some_step sample_config sample_families bounded_send"
  let ?t0 = "tasks_start (\<lambda>n. (n + 1, [])) :: (nat, nat \<Rightarrow> nat \<times> NetworkStatusUpdate list) tasks"
  let ?t1 = "?t0\<lparr>worker := Waiting, handed_out := True\<rparr>"
  have "?s ?t0 ?t1" unfolding some_step_def by (intro exI ask_failed) (simp add: tasks_start_def)
  moreover have "?s ?t1 (?t1\<lparr>worker := (if alive ?t1 then Asking else Stopped)\<rparr>)"
    unfolding some_step_def by (intro exI interval_tick) simp
  ultimately have run: "?s\<^sup>*\<^sup>* ?t0 (?t1\<lparr>worker := Asking\<rparr>)"
    by (simp add: tasks_start_def rtranclp.rtrancl_into_rtrancl)
  have "alive (?t1\<lparr>worker := Asking\<rparr>)" "listener (?t1\<lparr>worker := Asking\<rparr>) = Idle" by (simp_all add: tasks_start_def)
  from tasks_refine [OF run this] obtain m where
    "manager_reach sample_config sample_families bounded_send m" "database (shared m) = database (data (?t1\<lparr>worker := Asking\<rparr>))"
    by blast
  with run show ?thesis by (intro exI [of _ "?t1\<lparr>worker := Asking\<rparr>"] exI [of _ m]) simp
qed

theorem dropped_manager_ends_witness:
  "\<exists>t t'. some_step sample_config sample_families bounded_send t t' \<and> \<not> alive t \<and> worker t' = Stopped \<and>
     (\<exists>t''. (some_step sample_config sample_families bounded_send)\<^sup>*\<^sup>* t' t'' \<and> worker t'' = Stopped)"
proof -
  let ?t = "(tasks_start (\<lambda>n. (n + 1, [])))\<lparr>worker := Waiting, alive := False\<rparr> :: (nat, nat \<Rightarrow> nat \<times> NetworkStatusUpdate list) tasks"
  have "worker ?t = Waiting" by simp
  from interval_tick [OF this] have step: "some_step sample_config sample_families bounded_send ?t (?t\<lparr>worker := Stopped\<rparr>)"
    unfolding some_step_def by (simp add: tasks_start_def)
  from dropped_manager_ends [OF r_into_rtranclp [of "some_step sample_config sample_families bounded_send", OF step]] step
  show ?thesis by (intro exI [of _ ?t] exI [of _ "?t\<lparr>worker := Stopped\<rparr>"]) (simp add: tasks_start_def)
qed

end
