(* ===== verification/Interface_Counters.thy ===== *)
theory Interface_Counters
  imports Interface_Convergence
begin

text \<open>
  The numbers of the items (\<open>next_index\<close> of \<open>interface/database.rs\<close>): a set that finds no number left is a
  panic of the checked addition. A scan empties the tables and numbers afresh, so only what happens between
  two scans can use numbers up.
\<close>

context item_store
begin

lemma put_all_counter:
  "ok s \<Longrightarrow> unat (counter s) + length xs < 2 ^ 64 \<Longrightarrow> put_all xs s = Ok s' \<Longrightarrow> unat (counter s') = unat (counter s) + length xs"
proof (induction xs arbitrary: s)
  case (Cons item xs)
  from Cons.prems(3) obtain s1 d where 1: "put item s = Ok (s1, d)" "put_all xs s1 = Ok s'"
    by (auto simp: put_all_def obind_eq_Ok)
  note c = put_counter [OF Cons.prems(1) 1(1)]
  have "unat (counter s1) = Suc (unat (counter s))"
    using c Cons.prems(2) by (simp add: unat_plus_no_overflow)
  with Cons.IH [OF _ _ 1(2)] c Cons.prems(2) show ?case by simp
qed (simp add: put_all_def)

lemma reconcile_counter:
  assumes "ok s" "length polled < 2 ^ 64"
    and "fold (reconcile_item delete_on) polled (s, [], []) = (s1, notify, est)"
    and "take_all f s1 = (taken, s2)" "put_all est s2 = Ok s3"
  shows "unat (counter s3) = length polled"
proof -
  have "ok s1" using reconcile_keeps [where P = "\<lambda>_. True", OF assms(1) _ _ _ assms(3)] by simp
  with take_law [OF _ assms(4)] have 2: "ok s2" "counter s2 = 0" by simp_all
  have "length est = length polled"
    using length_reconcile [OF assms(3)] by simp
  with put_all_counter [OF 2(1) _ assms(5)] assms(2) 2(2) show ?thesis by simp
qed

end

lemma poll_links_counter:
  assumes "db_ok db" "length polled < 2 ^ 64" "poll_links env polled db = Ok (db', deleted, notify)"
  shows "unat (next_index (links db')) = length polled"
proof -
  obtain db1 n1 est where 1: "fold (reconcile_item remove_link_status_item) (iter_order (links_order env) polled) (db, [], []) = (db1, n1, est)"
    by (metis prod_cases3)
  obtain taken db2 where 2: "take_link_status_items (taken_links_order env) db1 = (taken, db2)" by fastforce
  have "link_store.put_all est db2 = Ok db'"
    using assms(3) by (auto simp: poll_links_def 1 2 link_store.put_all_def obind_eq_Ok)
  from link_store.reconcile_counter [OF assms(1) _ 1 2 this] assms(2) show ?thesis by simp
qed

lemma poll_interfaces_counter:
  assumes "db_ok db" "length polled < 2 ^ 64" "poll_interfaces env polled db = Ok (db', deleted, notify)"
  shows "unat (next_index (interfaces db')) = length polled"
proof -
  obtain db1 n1 est where 1: "fold (reconcile_item remove_interface_status_item) (iter_order (interfaces_order env) polled) (db, [], []) = (db1, n1, est)"
    by (metis prod_cases3)
  obtain taken db2 where 2: "take_interface_status_items (taken_interfaces_order env) db1 = (taken, db2)" by fastforce
  have "interface_store.put_all est db2 = Ok db'"
    using assms(3) by (auto simp: poll_interfaces_def 1 2 interface_store.put_all_def obind_eq_Ok)
  from interface_store.reconcile_counter [OF assms(1) _ 1 2 this] assms(2) show ?thesis by simp
qed

lemma scan_counters:
  assumes "db_ok (database st)"
    and "length link_data + length network_data + length (network_links config) + length (network_interfaces config) + k < 2 ^ 64"
  shows "\<exists>st'. poll env config p try_send (Ok link_data) (Ok network_data) st = Ok st' \<and> counters_below k (database st')"
proof -
  obtain all_links all_interfaces where
    g: "gather env config p link_data network_data = (all_links, all_interfaces)" by fastforce
  have len: "length all_links + k < 2 ^ 64" "length all_interfaces + k < 2 ^ 64" "length all_links < 2 ^ 64" "length all_interfaces < 2 ^ 64"
    using length_gather [OF g] assms(2) by linarith+
  from poll_links_returns [OF assms(1) len(3)] obtain db1 d1 n1 where
    1: "poll_links env all_links (database st) = Ok (db1, d1, n1)" by blast
  from poll_links_keeps [where P = "\<lambda>_. True", OF assms(1) _ _ 1] have ok: "db_ok db1" by simp
  from poll_interfaces_returns [OF ok len(4)] obtain db2 d2 n2 where
    2: "poll_interfaces env all_interfaces db1 = Ok (db2, d2, n2)" by blast
  from poll_interfaces_keeps [where P = "\<lambda>_. True", OF ok _ _ 2] have same: "links db2 = links db1" by simp
  obtain kept ch where r: "retain_subscribers try_send (poll_updates d1 n1 d2 n2) (subscribers st) (channels st) = (kept, ch)"
    by fastforce
  have "poll env config p try_send (Ok link_data) (Ok network_data) st
      = Ok (st\<lparr>database := db2, subscribers := kept, channels := ch\<rparr>)"
    by (simp add: poll_def try_poll_def g 1 2 r)
  moreover have "counters_below k db2"
    using poll_links_counter [OF assms(1) len(3) 1] poll_interfaces_counter [OF ok len(4) 2] len(1,2)
    by (simp add: counters_below_def same)
  ultimately show ?thesis by simp
qed

text \<open>C21: The numbers of the items never run out as long as scans go on: on a consistent database, whatever its
  counters, a scan that gets its two answers, of whatever content, and then any notifications, of whatever
  kind and content and in whatever order, are all handled without a panic and leave the database consistent,
  provided that the answers, the configuration and the notifications are fewer than \<open>2 ^ 64\<close> together.\<close>

theorem scan_and_notifications_return:
  assumes "db_ok (database st)" "database_typed (database st)"
    and "length link_data + length network_data + length (network_links config) + length (network_interfaces config) + length ms < 2 ^ 64"
  shows "\<exists>st1 st2. poll env config p try_send (Ok link_data) (Ok network_data) st = Ok st1 \<and>
    ofold (\<lambda>(now, now', m). message_received p af try_send now now' m) ms st1 = Ok st2 \<and>
    db_ok (database st2) \<and> database_typed (database st2)"
proof -
  from scan_counters [OF assms(1,3)] obtain st1 where
    1: "poll env config p try_send (Ok link_data) (Ok network_data) st = Ok st1" "counters_below (length ms) (database st1)"
    by blast
  from poll_keeps [OF assms(1,2) 1(1)] notifications_return [OF _ _ 1(2)] 1(1) show ?thesis by blast
qed

theorem scan_and_notifications_return_witness:
  "\<exists>st1 st2. poll sample_env sample_config sample_processor bounded_send (Ok sample_links) (Ok []) sample_st = Ok st1 \<and>
    ofold (\<lambda>(now, now', m). message_received sample_processor sample_families bounded_send now now' m)
     [(1, 2, sample_message (DelLink sample_link_message)), (3, 4, sample_message (NewAddress sample_address_message)),
      (5, 6, sample_message (NewLink sample_link_message))] st1 = Ok st2"
proof -
  let ?ms = "[(1, 2, sample_message (DelLink sample_link_message)), (3, 4, sample_message (NewAddress sample_address_message)),
      (5, 6, sample_message (NewLink sample_link_message))]"
  have "length sample_links + length ([] :: NetlinkMessage list) + length (network_links sample_config) +
      length (network_interfaces sample_config) + length ?ms < 2 ^ 64"
    by (simp add: sample_config_def)
  from scan_and_notifications_return [OF sample_st(1,2) this, of sample_env sample_processor bounded_send sample_families]
  show ?thesis by blast
qed

end
