(* ===== verification/Interface_Stale.thy ===== *)
theory Interface_Stale
  imports Interface_Tasks Interface_Counters
begin

text \<open>
  The order in which a subscriber hears of changes (\<open>interface/mod.rs\<close>, line 456): the worker gives the
  lock on the database back before it tells what its scan has changed, so a notification can be handled
  and told in between. From every reachable state in which a scan is due, what the scan announces of a
  link and what the subscriber is left with when the link is notified before the scan is told.
\<close>

section \<open>An older status told last\<close>

definition told_in_order ::
  "('ch \<Rightarrow> 'sub \<Rightarrow> NetworkStatusUpdate list) \<Rightarrow> ('ch \<Rightarrow> 'sub \<Rightarrow> nat) \<Rightarrow> ('sub, 'ch) manager \<Rightarrow> bool" where
  "told_in_order queue capacity st \<longleftrightarrow>
     distinct (subscribers st) \<and> (\<forall>x. length (queue (channels st) x) \<le> capacity (channels st) x)"

lemma told_in_order_database [simp]: "told_in_order queue capacity (st\<lparr>database := db\<rparr>) = told_in_order queue capacity st"
  by (simp add: told_in_order_def)

lemma tell_subscriber:
  assumes "bounded_channel try_send queue capacity" "told_in_order queue capacity st" "x \<in> set (subscribers st)"
    and "length (queue (channels st) x) + length updates \<le> capacity (channels st) x"
  shows "told_in_order queue capacity (tell_subscribers try_send updates st)"
    and "x \<in> set (subscribers (tell_subscribers try_send updates st))"
    and "queue (channels (tell_subscribers try_send updates st)) x = queue (channels st) x @ updates"
    and "capacity (channels (tell_subscribers try_send updates st)) = capacity (channels st)"
proof -
  obtain kept ch where r: "retain_subscribers try_send updates (subscribers st) (channels st) = (kept, ch)" by fastforce
  from assms(2) have ok: "distinct (subscribers st)" "\<And>x. length (queue (channels st) x) \<le> capacity (channels st) x"
    by (simp_all add: told_in_order_def)
  note told = retain_subscribers_bounded [OF assms(1) r ok]
  note same = retain_capacity [OF assms(1) r]
  have "length (queue ch y) \<le> capacity ch y" for y using ok(2) [of y] told same by (auto simp: min_def)
  with told same ok(1) assms(3,4)
  show "told_in_order queue capacity (tell_subscribers try_send updates st)"
    "x \<in> set (subscribers (tell_subscribers try_send updates st))"
    "queue (channels (tell_subscribers try_send updates st)) x = queue (channels st) x @ updates"
    "capacity (channels (tell_subscribers try_send updates st)) = capacity (channels st)"
    by (simp_all add: tell_subscribers_def r told_in_order_def)
qed

text \<open>A \<open>NewLink\<close> notification handled in full while the worker has updates to tell.\<close>

lemma notified_first:
  assumes "listener t = Idle" "listening t" "db_ok (database (data t))" "counters_free (database (data t))"
    and "bounded_channel try_send queue capacity" "told_in_order queue capacity (data t)" "x \<in> set (subscribers (data t))"
    and "length (queue (channels (data t)) x) + 2 \<le> capacity (channels (data t)) x"
    and "payload (message :: NetlinkMessage) = InnerMessage (NewLink msg)" "process_link p msg = Some (index, s)"
  shows "\<exists>st told. (tasks_step config p af try_send)\<^sup>*\<^sup>* t (t\<lparr>listener := Idle, data := st\<rparr>) \<and>
    item_bag (links (database st)) = put_item (reported_link now index s) (item_bag (links (database (data t)))) \<and>
    told_in_order queue capacity st \<and> x \<in> set (subscribers st) \<and> length told \<le> 1 \<and>
    capacity (channels st) = capacity (channels (data t)) \<and>
    queue (channels st) x = queue (channels (data t)) x @ LinkUpdate s # told \<and> (\<forall>u \<in> set told. \<exists>i. u = InterfaceUpdate i)"
proof -
  let ?step = "tasks_step config p af try_send" and ?l = "reported_link now index s"
  from link_put_free [OF assms(3,4), of ?l] obtain db d where
    db: "set_link_status_item ?l (database (data t)) = Ok (db, d)" "db_ok db"
      "item_bag (links db) = put_item ?l (item_bag (links (database (data t))))" "next_index (interfaces db) \<noteq> - 1" by metis
  define st1 where "st1 = tell_subscribers try_send [LinkUpdate s] ((data t)\<lparr>database := db\<rparr>)"
  have 1: "told_in_order queue capacity st1" "x \<in> set (subscribers st1)" "database st1 = db"
      "queue (channels st1) x = queue (channels (data t)) x @ [LinkUpdate s]" "capacity (channels st1) = capacity (channels (data t))"
    using tell_subscriber [OF assms(5), of "(data t)\<lparr>database := db\<rparr>" x "[LinkUpdate s]"] assms(6-8) by (simp_all add: st1_def)
  define left where "left = map_option (\<lambda>interface. interface_with_link now' (Some index) interface ?l) (interface_on_link index ?l db)"
  have "message_begin p af try_send now now' message (data t) = Ok (st1, left)"
    using db(1) by (simp add: message_begin_def assms(9,10) new_link_first_def Let_def st1_def left_def
        reported_link_def [symmetric])
  note first = message_begun [OF assms(1) this assms(2), of config]
  show ?thesis
  proof (cases left)
    case None
    with first 1 db(3) show ?thesis by (intro exI [of _ st1] exI [of _ "[]"]) auto
  next
    case (Some interface)
    obtain db2 d2 where
      db2: "set_interface_status_item interface db = Ok (db2, d2)" "links db2 = links db"
      by (rule interface_put_free [OF db(2,4), of interface])
    define st2 where "st2 = tell_subscribers try_send [InterfaceUpdate (status interface)] (st1\<lparr>database := db2\<rparr>)"
    have 2: "told_in_order queue capacity st2" "x \<in> set (subscribers st2)" "database st2 = db2"
        "queue (channels st2) x = queue (channels (data t)) x @ [LinkUpdate s, InterfaceUpdate (status interface)]"
        "capacity (channels st2) = capacity (channels (data t))"
      using tell_subscriber [OF assms(5), of "st1\<lparr>database := db2\<rparr>" x "[InterfaceUpdate (status interface)]"] assms(8) 1
      by (simp_all add: st2_def)
    have "new_link_second try_send interface st1 = Ok st2"
      using db2(1) by (simp add: new_link_second_def 1(3) st2_def)
    then have "?step (t\<lparr>listener := Storing interface, data := st1\<rparr>) (t\<lparr>listener := Idle, data := st2\<rparr>)"
      using message_done [of "t\<lparr>listener := Storing interface, data := st1\<rparr>" interface try_send st2 config p af] by simp
    with first Some have "?step\<^sup>*\<^sup>* t (t\<lparr>listener := Idle, data := st2\<rparr>)" by auto
    with 2 db2(2) db(3) show ?thesis by (intro exI [of _ st2] exI [of _ "[InterfaceUpdate (status interface)]"]) simp
  qed
qed

text \<open>Then the worker tells its updates: the subscriber has them after the notification's.\<close>

lemma notified_before_told:
  assumes "worker t = Telling updates" "listener t = Idle" "listening t"
    and "db_ok (database (data t))" "counters_free (database (data t))"
    and "bounded_channel try_send queue capacity" "told_in_order queue capacity (data t)" "x \<in> set (subscribers (data t))"
    and "length (queue (channels (data t)) x) + length updates + 2 \<le> capacity (channels (data t)) x"
    and "payload (message :: NetlinkMessage) = InnerMessage (NewLink msg)" "process_link p msg = Some (index, s)"
  shows "\<exists>t' told. (tasks_step config p af try_send)\<^sup>*\<^sup>* t t' \<and> worker t' = Waiting \<and> listener t' = Idle \<and>
    item_bag (links (database (data t'))) = put_item (reported_link now index s) (item_bag (links (database (data t)))) \<and>
    queue (channels (data t')) x = queue (channels (data t)) x @ LinkUpdate s # told @ updates \<and>
    (\<forall>u \<in> set told. \<exists>i. u = InterfaceUpdate i)"
proof -
  have "length (queue (channels (data t)) x) + 2 \<le> capacity (channels (data t)) x" using assms(9) by simp
  from notified_first [OF assms(2-8) this assms(10,11), of config af now] obtain st told where
    1: "(tasks_step config p af try_send)\<^sup>*\<^sup>* t (t\<lparr>listener := Idle, data := st\<rparr>)"
      "item_bag (links (database st)) = put_item (reported_link now index s) (item_bag (links (database (data t))))"
      "told_in_order queue capacity st" "x \<in> set (subscribers st)" "length told \<le> 1"
      "capacity (channels st) = capacity (channels (data t))"
      "queue (channels st) x = queue (channels (data t)) x @ LinkUpdate s # told" "\<forall>u \<in> set told. \<exists>i. u = InterfaceUpdate i"
    by blast
  have "length (queue (channels st) x) + length updates \<le> capacity (channels st) x" using 1(5-7) assms(9) by simp
  note last = tell_subscriber(3) [OF assms(6) 1(3,4) this]
  let ?t' = "t\<lparr>listener := Idle, worker := Waiting, handed_out := True, data := tell_subscribers try_send updates st\<rparr>"
  have "tasks_step config p af try_send (t\<lparr>listener := Idle, data := st\<rparr>) ?t'"
    using scan_told [of "t\<lparr>listener := Idle, data := st\<rparr>" updates config p af try_send] assms(1) by simp
  with 1(1) have "(tasks_step config p af try_send)\<^sup>*\<^sup>* t ?t'" by (rule rtranclp.rtrancl_into_rtrancl)
  with 1(2,7,8) last show ?thesis by (intro exI [of _ ?t'] exI [of _ told]) simp
qed

section \<open>What a scan tells of a device\<close>

text \<open>The states that a list of updates gives for the link of a device, in order.\<close>

definition link_told :: "string \<Rightarrow> NetworkStatusUpdate list \<Rightarrow> NetworkLinkStatus list" where
  "link_told dev updates =
     concat (map (\<lambda>u. case u of LinkUpdate s \<Rightarrow> if status_device s = dev then [s] else [] | InterfaceUpdate s \<Rightarrow> []) updates)"

lemma link_told_append [simp]: "link_told dev (us @ vs) = link_told dev us @ link_told dev vs"
  by (simp add: link_told_def)

lemma link_told_links: "link_told dev (map (\<lambda>a. LinkUpdate (status a)) as) = filter (\<lambda>s. status_device s = dev) (map status as)"
  by (induction as) (simp_all add: link_told_def)

lemma link_told_interfaces [simp]: "\<forall>u \<in> set us. \<exists>i. u = InterfaceUpdate i \<Longrightarrow> link_told dev us = []"
  by (induction us) (auto simp: link_told_def)

lemma told_single: "mset xs = {#a#} + M \<Longrightarrow> \<forall>b \<in># M. \<not> P b \<Longrightarrow> P a \<Longrightarrow> filter P xs = [a]"
  by (metis filter_mset_False filter_mset_add_mset filter_mset_cong mset_filter mset_single_iff add_mset_add_single
      union_mset_add_mset_left empty_neutral(1))

lemma announced_once:
  assumes "entries link_typed all_links" "apart all_links" "(i, x) \<in> set all_links" "announced M (i, x)"
    and "mset notify = image_mset snd (filter_mset (announced M) (mset all_links))"
  shows "link_told (status_device (status x)) (map (\<lambda>a. LinkUpdate (status a)) notify) = [status x]"
proof -
  let ?P = "\<lambda>s. status_device s = status_device (status x)"
  obtain ls rs where split: "all_links = ls @ (i, x) # rs" using assms(3) by (meson split_list)
  have typed: "item_id y = j \<and> net_device j = Some (status_device (status y))" if "(j, y) \<in> set all_links" for j y
    using assms(1) that by (auto simp: entries_def link_typed_def)
  have other: "\<not> ?P (status y)" if "(j, y) \<in> set (ls @ rs)" for j y
  proof
    assume "?P (status y)"
    have mem: "(j, y) \<in> set all_links" using that by (auto simp: split)
    have "conflicts i j"
      using typed [OF assms(3)] typed [OF mem] \<open>?P (status y)\<close> by (simp add: conflicts_def same_key_def)
    then have "i = j" using assms(2,3) mem by (force simp: apart_def ids_apart_def)
    with assms(2) that show False by (auto simp: apart_def split image_iff rev_image_eqI)
  qed
  have "mset (map status notify) = {#status x#} +
      image_mset (\<lambda>e. status (snd e)) (filter_mset (announced M) (mset (ls @ rs)))"
    using assms(4,5) by (simp add: split image_mset.compositionality comp_def)
  from told_single [OF this, of ?P] show ?thesis using other by (fastforce simp: link_told_links)
qed

text \<open>A scan that announces the link of a device, because nothing is stored under its identifier or what is
  stored is older than the hold period and different, tells that status of it and no other.\<close>

lemma gather_interfaces_apart:
  assumes "config_ok config" "devices_distinct config" "interfaces_distinct config"
    and "reports_distinct (reports (NetlinkMessageProcessor_new f config) link_data)"
    and "gather env config (NetlinkMessageProcessor_new f config) link_data network_data = (all_links, all_interfaces)"
  shows "apart all_interfaces"
proof -
  note named = gather_named [OF assms(5)]
  then have "hm_wf all_interfaces" by (simp add: entries_def)
  from view_covers [OF this] gather_interfaces [OF assms(1,3) refl assms(4,5)] have
    "covers (expected_interfaces config (reports (NetlinkMessageProcessor_new f config) link_data) (given (families env) network_data)) all_interfaces"
    by simp
  then have "ids_apart (fst ` set all_interfaces)"
    using expected_interfaces_apart [OF assms(1-3) refl assms(4)] by (simp add: covers_def)
  with named show ?thesis by (auto simp: apart_def entries_def)
qed

lemma poll_interfaces_told:
  assumes "db_ok db" "apart polled" "length polled < 2 ^ 64" "poll_interfaces env polled db = Ok (db', deleted, notify)"
  shows "db_ok db' \<and> links db' = links db \<and> length deleted \<le> size (item_bag (interfaces db)) \<and> length notify \<le> length polled"
proof -
  from poll_interfaces_settle [OF assms(1-3), of env] assms(4) have
    1: "db_ok db'" "links db' = links db"
      "mset notify = image_mset snd (filter_mset (announced (item_bag (interfaces db))) (mset polled))"
      "image_mset (\<lambda>a. (item_id a, status a)) (mset deleted) =
        image_mset (\<lambda>a. (item_id a, status (not_found_interface 0 a)))
          (filter_mset (\<lambda>a. \<forall>i \<in> fst ` set polled. \<not> conflicts i (item_id a)) (item_bag (interfaces db)))" by auto
  from arg_cong [OF 1(4), of size] have "length deleted \<le> size (item_bag (interfaces db))"
    by (simp add: size_filter_mset_lesseq)
  moreover from arg_cong [OF 1(3), of size] have "length notify \<le> length polled"
    using size_filter_mset_lesseq [of _ "mset polled"] by simp
  ultimately show ?thesis using 1(1,2) by simp
qed

lemma poll_links_told:
  assumes "db_ok db" "database_typed db" "apart polled" "entries link_typed polled" "length polled < 2 ^ 64"
    and "(i, x) \<in> set polled" "announced (item_bag (links db)) (i, x)"
    and "poll_links env polled db = Ok (db', deleted, notify)"
  shows "db_ok db' \<and> interfaces db' = interfaces db \<and> x \<in># item_bag (links db') \<and>
    length deleted \<le> size (item_bag (links db)) \<and> length notify \<le> length polled \<and>
    link_told (status_device (status x)) (map (\<lambda>a. LinkUpdate (status a)) deleted @ map (\<lambda>a. LinkUpdate (status a)) notify) = [status x]"
proof -
  let ?dev = "status_device (status x)"
  from poll_links_settle [OF assms(1,3,5), of env] assms(8) obtain est where
    1: "db_ok db'" "interfaces db' = interfaces db"
      "list_all2 (settled (item_bag (links db))) (iter_order (links_order env) polled) est" "item_bag (links db') = mset est"
      "mset notify = image_mset snd (filter_mset (announced (item_bag (links db))) (mset polled))"
      "mset deleted = filter_mset (\<lambda>a. \<forall>i \<in> fst ` set polled. \<not> conflicts i (item_id a)) (item_bag (links db))" by auto
  have len: "length deleted \<le> size (item_bag (links db))" "length notify \<le> length polled"
    using arg_cong [OF 1(6), of size] arg_cong [OF 1(5), of size] size_filter_mset_lesseq [of _ "mset polled"]
    by (simp_all add: size_filter_mset_lesseq)
  from assms(6) have "(i, x) \<in> set (iter_order (links_order env) polled)" by simp
  with 1(3) obtain y where "y \<in> set est" "settled (item_bag (links db)) (i, x) y"
    by (metis in_set_conv_nth list_all2_lengthD list_all2_nthD)
  with assms(7) 1(4) have stored: "x \<in># item_bag (links db')" by (simp add: settled_def)
  have x: "net_device i = Some ?dev" using assms(4,6) by (auto simp: entries_def link_typed_def)
  have "status_device (status a) \<noteq> ?dev" if "a \<in> set deleted" for a
  proof -
    have a: "a \<in># item_bag (links db)" "\<not> conflicts i (item_id a)"
      using that assms(6) 1(6) by (metis (no_types, lifting) fst_conv image_eqI mem_Collect_eq set_mset_filter set_mset_mset)+
    then have "net_device (item_id a) = Some (status_device (status a))"
      using assms(2) by (simp add: database_typed_def link_typed_def)
    with a(2) x show ?thesis by (auto simp: conflicts_def same_key_def)
  qed
  then have "link_told ?dev (map (\<lambda>a. LinkUpdate (status a)) deleted) = []" by (simp add: link_told_links)
  with announced_once [OF assms(4,3,6,7) 1(5)] 1(1,2) len stored show ?thesis by simp
qed

lemma scan_announces:
  assumes "db_ok db" "database_typed db" "config_ok config" "devices_distinct config" "interfaces_distinct config"
    and "reports_distinct (reports (NetlinkMessageProcessor_new f config) link_data)"
    and "(index, old) \<in> set (reports (NetlinkMessageProcessor_new f config) link_data)"
    and "length link_data + length network_data + length (network_links config) + length (network_interfaces config) + 1 < 2 ^ 64"
    and "\<forall>a \<in># item_bag (links db). item_id a = fst (report_entry (index, old)) \<longrightarrow>
      status a \<noteq> old \<and> (\<forall>t \<in> scan_times env. refreshed a + hold_period < t)"
  shows "\<exists>db' updates. scan_commit env config (NetlinkMessageProcessor_new f config) link_data network_data db = Ok (db', updates) \<and>
    db_ok db' \<and> database_typed db' \<and> counters_free db' \<and>
    (\<exists>a \<in># item_bag (links db'). status a = old \<and> net_id (item_id a) = Some index) \<and>
    link_told (status_device old) updates = [old] \<and>
    length updates \<le> size (item_bag (links db)) + size (item_bag (interfaces db)) +
      (length link_data + length network_data + 2 * length (network_links config) + length (network_interfaces config))"
proof -
  let ?p = "NetlinkMessageProcessor_new f config" and ?i = "fst (report_entry (index, old))"
  obtain all_links all_interfaces where
    g: "gather env config ?p link_data network_data = (all_links, all_interfaces)" by fastforce
  note named = gather_named [OF g] and apart = gather_apart [OF assms(3,4,6) g] gather_interfaces_apart [OF assms(3-6) g]
    and gathered = length_gather [OF g]
  have len: "length all_links + Suc 0 < 2 ^ 64" "length all_interfaces + Suc 0 < 2 ^ 64" "length all_links < 2 ^ 64" "length all_interfaces < 2 ^ 64"
    using gathered assms(8) by linarith+
  have cov: "covers (expected config (reports ?p link_data)) all_links" by (rule gather_links [OF assms(3) g])
  have entry: "report_entry (index, old) \<in> expected config (reports ?p link_data)"
    using assms(7) unfolding expected_def by blast
  then have "?i \<in> fst ` set all_links" using cov by (simp add: covers_def)
  then obtain x where x: "(?i, x) \<in> set all_links" by auto
  then have "(?i, status x) \<in> expected config (reports ?p link_data)"
    using cov unfolding covers_def item_entry_def by fastforce
  from inj_onD [OF expected_inj [OF assms(3,6)] _ this entry] have old: "status x = old" by (simp add: report_entry_def)
  have id: "item_id x = ?i" using x named by (auto simp: entries_def)
  have "refreshed x \<in> scan_times env" using x gather_times [OF g] by (auto simp: made_at_def)
  then have fresh: "announced (item_bag (links db)) (?i, x)"
    using assms(9) old by (auto simp: announced_def replaced_def)
  from poll_links_returns [OF assms(1) len(3)] obtain db1 d1 n1 where
    1: "poll_links env all_links db = Ok (db1, d1, n1)" by blast
  from named have typed: "entries link_typed all_links" by simp
  note told1 = poll_links_told [OF assms(1,2) apart(1) typed len(3) x fresh 1]
  then have ok1: "db_ok db1" by simp
  from poll_interfaces_returns [OF ok1 len(4)] obtain db2 d2 n2 where
    2: "poll_interfaces env all_interfaces db1 = Ok (db2, d2, n2)" by blast
  note told2 = poll_interfaces_told [OF ok1 apart(2) len(4) 2]
  let ?updates = "poll_updates d1 n1 d2 n2"
  have commit: "scan_commit env config ?p link_data network_data db = Ok (db2, ?updates)"
    by (simp add: scan_commit_def g 1 2)
  have "counters_below (Suc 0) db2"
    using poll_links_counter [OF assms(1) len(3) 1] poll_interfaces_counter [OF ok1 len(4) 2] len(1,2) told2
    by (simp add: counters_below_def)
  from counters_below_free [OF this] have free: "counters_free db2" .
  have "poll env config ?p (\<lambda>_ _ ch. (True, ch)) (Ok link_data) (Ok network_data) \<lparr>database = db, subscribers = [] :: unit list, channels = ()\<rparr>
      = Ok (tell_subscribers (\<lambda>_ _ ch. (True, ch)) ?updates \<lparr>database = db2, subscribers = [], channels = ()\<rparr>)"
    by (simp add: poll_def try_poll_parts commit)
  from poll_keeps [OF _ _ this] assms(1,2) have keep: "db_ok db2" "database_typed db2" by simp_all
  have stored: "\<exists>a \<in># item_bag (links db2). status a = old \<and> net_id (item_id a) = Some index"
    using told1 told2 old id by (intro bexI [of _ x]) (simp_all add: report_entry_def CanonicalNetworkId_new_def)
  have last: "link_told (status_device old) ?updates = [old]"
    using told1 old by (auto simp: poll_updates_def)
  have size: "length ?updates \<le> size (item_bag (links db)) + size (item_bag (interfaces db)) +
      (length link_data + length network_data + 2 * length (network_links config) + length (network_interfaces config))"
    using told1 told2 gathered by (simp add: poll_updates_def)
  from commit keep free stored last size show ?thesis by blast
qed

section \<open>The older status is told last\<close>

text \<open>C19: The order in which subscribers hear of changes is not the order of the changes. Take any state that the two
  tasks reach with the manager held, a scan due and the listener idle, and kernel answers, each device
  named once, that report a device as \<open>old\<close> where the database has no link under its identifier, or one
  that is different and older than the hold period. The scan stores \<open>old\<close> and is to tell it. A \<open>NewLink\<close>
  notification of another state \<open>s\<close> of the device can then be handled in full before the scan is told:
  the worker and the listener are done, the database has \<open>s\<close> for the device and nothing else, but a subscriber with
  room for all updates has been told \<open>s\<close> first, and the last it has heard of the device is \<open>old\<close>.\<close>

theorem stale_update_last:
  fixes config :: Router and f :: order_choice and network_data :: "NetlinkMessage list"
  assumes "(some_step config af try_send)\<^sup>*\<^sup>* (tasks_start ch) t" "alive t" "worker t = Asking" "listening t" "listener t = Idle"
    and "config_ok config" "devices_distinct config" "interfaces_distinct config"
    and "reports_distinct (reports (NetlinkMessageProcessor_new f config) link_data)"
    and "(index, old) \<in> set (reports (NetlinkMessageProcessor_new f config) link_data)"
    and "\<forall>a \<in># item_bag (links (database (data t))). item_id a = fst (report_entry (index, old)) \<longrightarrow>
      status a \<noteq> old \<and> (\<forall>t \<in> scan_times env. refreshed a + hold_period < t)"
    and "length link_data + length network_data + length (network_links config) + length (network_interfaces config) + 1 < 2 ^ 64"
    and "payload (message :: NetlinkMessage) = InnerMessage (NewLink msg)"
    and "process_link (NetlinkMessageProcessor_new f config) msg = Some (index', s)" "status_device s = status_device old" "s \<noteq> old"
    and "bounded_channel try_send queue capacity" "told_in_order queue capacity (data t)" "x \<in> set (subscribers (data t))"
    and "length (queue (channels (data t)) x) + size (item_bag (links (database (data t)))) + size (item_bag (interfaces (database (data t)))) +
      (length link_data + length network_data + 2 * length (network_links config) + length (network_interfaces config)) + 2
      \<le> capacity (channels (data t)) x"
  shows "\<exists>t1 updates t2 told. some_step config af try_send t t1 \<and> worker t1 = Telling updates \<and>
    (\<exists>a \<in># item_bag (links (database (data t1))). status a = old \<and> net_id (item_id a) = Some index) \<and>
    link_told (status_device old) updates = [old] \<and>
    (some_step config af try_send)\<^sup>*\<^sup>* t1 t2 \<and> worker t2 = Waiting \<and> listener t2 = Idle \<and>
    reported_link now index' s \<in># item_bag (links (database (data t2))) \<and>
    (\<forall>a \<in># item_bag (links (database (data t2))). status_device (status a) = status_device old \<longrightarrow> status a = s) \<and>
    queue (channels (data t2)) x = queue (channels (data t)) x @ told \<and>
    link_told (status_device old) told = [s, old]"
proof -
  let ?p = "NetlinkMessageProcessor_new f config"
  from tasks_machine.reachable [OF assms(1)] assms(2,5) obtain m where
    "manager_reach config af try_send m" "database (shared m) = database (data t)"
    by (auto simp: manager_kept_def follows_def)
  with manager_reach_ok [of config af try_send m] have ok: "db_ok (database (data t))" "database_typed (database (data t))" by simp_all
  from scan_announces [OF ok assms(6-10,12,11)] obtain db updates where
    scan: "scan_commit env config ?p link_data network_data (database (data t)) = Ok (db, updates)"
      "db_ok db" "database_typed db" "counters_free db"
      "\<exists>a \<in># item_bag (links db). status a = old \<and> net_id (item_id a) = Some index"
      "link_told (status_device old) updates = [old]"
      "length updates \<le> size (item_bag (links (database (data t)))) + size (item_bag (interfaces (database (data t)))) +
        (length link_data + length network_data + 2 * length (network_links config) + length (network_interfaces config))"
    by blast
  let ?t1 = "t\<lparr>worker := Telling updates, data := (data t)\<lparr>database := db\<rparr>\<rparr>"
  have step: "some_step config af try_send t ?t1"
    using scan_committed [OF assms(3,5) scan(1)] unfolding some_step_def by blast
  have "length (queue (channels (data ?t1)) x) + length updates + 2 \<le> capacity (channels (data ?t1)) x"
    using assms(20) scan(7) by simp
  from notified_before_told [of ?t1, OF _ _ _ _ _ assms(17) _ _ this assms(13,14), of config af now] assms(4,5,18,19) scan(2,4)
  obtain t2 told where 2: "(tasks_step config ?p af try_send)\<^sup>*\<^sup>* ?t1 t2" "worker t2 = Waiting" "listener t2 = Idle"
      "item_bag (links (database (data t2))) = put_item (reported_link now index' s) (item_bag (links db))"
      "queue (channels (data t2)) x = queue (channels (data t)) x @ LinkUpdate s # told @ updates"
      "\<forall>u \<in> set told. \<exists>i. u = InterfaceUpdate i"
    by auto
  have run: "(some_step config af try_send)\<^sup>*\<^sup>* ?t1 t2"
    using 2(1) by (rule rtranclp_mono [THEN predicate2D, rotated]) (auto simp: some_step_def)
  have "status a = s" if "a \<in># item_bag (links (database (data t2)))" "status_device (status a) = status_device old" for a
  proof (cases "a = reported_link now index' s")
    case False
    with that(1) have "a \<in># item_bag (links db)" "\<not> conflicts (item_id (reported_link now index' s)) (item_id a)"
      by (auto simp: 2(4) put_item_def)
    moreover from this(1) scan(3) have "net_device (item_id a) = Some (status_device (status a))"
      by (simp add: database_typed_def link_typed_def)
    ultimately show ?thesis using that(2) assms(15)
      by (simp add: conflicts_def same_key_def reported_link_def NetworkStatusItem_new_def CanonicalNetworkId_new_def)
  qed (simp add: reported_link_def NetworkStatusItem_new_def)
  moreover have "link_told (status_device old) (LinkUpdate s # told @ updates) = [s, old]"
    using link_told_append [of "status_device old" "[LinkUpdate s]" "told @ updates"] 2(6) scan(6) assms(15)
    by (simp add: link_told_def [of _ "[LinkUpdate s]"])
  moreover have "reported_link now index' s \<in># item_bag (links (database (data t2)))" by (simp add: 2(4) put_item_def)
  ultimately show ?thesis using step run scan(5,6) 2(2,3,5)
    by (intro exI [of _ ?t1] exI [of _ updates] exI [of _ t2] exI [of _ "LinkUpdate s # told @ updates"]) simp
qed

text \<open>The first scan is refused, the manager handed out, a subscriber added and the interval over; the second scan
  sees \<open>eth0\<close> up, and a notification that it is down comes before it is told.\<close>

theorem stale_update_last_witness:
  "\<exists>t1 t2. (some_step sample_config sample_families bounded_send)\<^sup>*\<^sup>* (tasks_start (\<lambda>_. (20, []))) t1 \<and>
    (\<exists>a \<in># item_bag (links (database (data t1))). status a = sample_link_status) \<and>
    (some_step sample_config sample_families bounded_send)\<^sup>*\<^sup>* t1 t2 \<and> worker t2 = Waiting \<and> listener t2 = Idle \<and>
    reported_link 1 2 (sample_link_status\<lparr>operational_state := Down\<rparr>) \<in># item_bag (links (database (data t2))) \<and>
    link_told ''eth0'' (snd (channels (data t2) (0 :: nat))) = [sample_link_status\<lparr>operational_state := Down\<rparr>, sample_link_status]"
proof -
  let ?s = "some_step sample_config sample_families bounded_send" and ?down = "sample_link_status\<lparr>operational_state := Down\<rparr>"
  let ?t0 = "tasks_start (\<lambda>_. (20, [])) :: (nat, nat \<Rightarrow> nat \<times> NetworkStatusUpdate list) tasks"
  let ?t1 = "?t0\<lparr>worker := Waiting, handed_out := True\<rparr>"
  let ?t2 = "?t1\<lparr>data := subscribe 0 (data ?t1)\<rparr>"
  let ?due = "?t2\<lparr>worker := Asking\<rparr>"
  have "?s ?t0 ?t1" unfolding some_step_def by (intro exI ask_failed) (simp add: tasks_start_def)
  moreover have "?s ?t1 ?t2" unfolding some_step_def by (intro exI tasks_subscribed) (simp_all add: tasks_start_def)
  moreover have "?s ?t2 (?t2\<lparr>worker := (if alive ?t2 then Asking else Stopped)\<rparr>)"
    unfolding some_step_def by (intro exI interval_tick) simp
  ultimately have "?s\<^sup>*\<^sup>* ?t0 (?t2\<lparr>worker := (if alive ?t2 then Asking else Stopped)\<rparr>)"
    by (meson converse_rtranclp_into_rtranclp r_into_rtranclp)
  then have run: "?s\<^sup>*\<^sup>* ?t0 ?due" by (simp add: tasks_start_def)
  have data: "data ?due = \<lparr>database = InterfaceManagerDatabase_new, subscribers = [0], channels = (\<lambda>_. (20, []))\<rparr>"
    by (simp add: tasks_start_def subscribe_def manager_new_def)
  have empty: "item_bag (links (database (data ?due))) = {#}" "item_bag (interfaces (database (data ?due))) = {#}"
    unfolding data by (simp_all add: InterfaceManagerDatabase_new_def empty_table_def item_bag_def)
  have t: "alive ?due" "worker ?due = Asking" "listening ?due" "listener ?due = Idle" by (simp_all add: tasks_start_def)
  have cfg: "devices_distinct sample_config" "interfaces_distinct sample_config"
      "length sample_links + length ([] :: NetlinkMessage list) + length (network_links sample_config) + length (network_interfaces sample_config) + 1 < 2 ^ 64"
    by (simp_all add: devices_distinct_def interfaces_distinct_def sample_config_def)
  have rs: "reports_distinct (reports sample_processor sample_links)" "(2, sample_link_status) \<in> set (reports sample_processor sample_links)"
    unfolding sample_reports by (simp_all add: reports_distinct_def)
  have none: "\<forall>a \<in># item_bag (links (database (data ?due))). item_id a = fst (report_entry (2, sample_link_status)) \<longrightarrow>
      status a \<noteq> sample_link_status \<and> (\<forall>t \<in> scan_times sample_env. refreshed a + hold_period < t)" by (simp only: empty) simp
  have message: "payload (sample_message (NewLink down_message)) = InnerMessage (NewLink down_message)"
      "status_device ?down = status_device sample_link_status" "?down \<noteq> sample_link_status" "status_device sample_link_status = ''eth0''"
    by (simp_all add: sample_link_status_def)
  have sub: "told_in_order (\<lambda>ch s. snd (ch s)) (\<lambda>ch s. fst (ch s)) (data ?due)" "0 \<in> set (subscribers (data ?due))"
    unfolding data by (simp_all add: told_in_order_def)
  have room: "length (snd (channels (data ?due) 0)) + size (item_bag (links (database (data ?due)))) + size (item_bag (interfaces (database (data ?due)))) +
      (length sample_links + length ([] :: NetlinkMessage list) + 2 * length (network_links sample_config) + length (network_interfaces sample_config)) + 2
      \<le> fst (channels (data ?due) 0)"
    by (simp only: empty, simp only: data, simp add: sample_config_def)
  from stale_update_last [OF run t sample_config_ok cfg(1,2) rs none cfg(3) message(1) down_report message(2,3)
      bounded_send_channel sub room, of 1] obtain t1 updates t2 told where
    *: "?s ?due t1" "\<exists>a \<in># item_bag (links (database (data t1))). status a = sample_link_status" "?s\<^sup>*\<^sup>* t1 t2"
      "worker t2 = Waiting" "listener t2 = Idle" "reported_link 1 2 ?down \<in># item_bag (links (database (data t2)))"
      "snd (channels (data t2) 0) = snd (channels (data ?due) 0) @ told" "link_told ''eth0'' told = [?down, sample_link_status]"
    unfolding message(4) by blast
  have "?s\<^sup>*\<^sup>* ?t0 t1" using run *(1) by (rule rtranclp.rtrancl_into_rtrancl)
  moreover have "link_told ''eth0'' (snd (channels (data t2) 0)) = [?down, sample_link_status]"
    unfolding *(7) data using *(8) by simp
  ultimately show ?thesis using *(2-6) by blast
qed

end
