(* ===== verification/Interface_Tests.thy ===== *)
theory Interface_Tests
  imports Interface_Counters
begin

text \<open>
  The unit tests of \<open>netlink/processor.rs\<close> and \<open>interface/mod.rs\<close>, transcribed and proved to pass. A
  test is a Boolean function of what it leaves to chance: the headers of the messages, the iteration
  orders of the hash maps, the clock. The mock sockets give the kernel's answers. The numbers of the
  address families are those of Linux.
\<close>

section \<open>Building blocks\<close>

text \<open>Messages as the tests build them, on an arbitrary header.\<close>

definition link_state_message :: "NetlinkMessage \<Rightarrow> (LinkMessage \<Rightarrow> RtnlMessage) \<Rightarrow> u32 \<Rightarrow> string \<Rightarrow> link_state \<Rightarrow> NetlinkMessage" where
  "link_state_message header kind index device state = header\<lparr>payload := InnerMessage (kind
     \<lparr>interface_family = 0, lm_index = index, link_nlas = [IfName device, OperState state]\<rparr>)\<rparr>"

definition address_of_message :: "NetlinkMessage \<Rightarrow> (AddressMessage \<Rightarrow> RtnlMessage) \<Rightarrow> u8 \<Rightarrow> u8 \<Rightarrow> u32 \<Rightarrow> u8 list \<Rightarrow> NetlinkMessage" where
  "address_of_message header kind family len index data = header\<lparr>payload := InnerMessage (kind
     \<lparr>am_family = family, prefix_len = len, am_index = index, address_nlas = [AddressNla data]\<rparr>)\<rparr>"

definition generic_link :: "string \<Rightarrow> NetworkLink" where
  "generic_link device = \<lparr>link_device = device, network_link_type = GenericInterface\<rparr>"

definition plain_interface :: "string \<Rightarrow> NetworkInterface" where
  "plain_interface link = \<lparr>interface_vrf = None, interface_network_link = link, interface_ip_addresses = []\<rparr>"

definition link_of :: "string option \<Rightarrow> string \<Rightarrow> NetworkLinkOperationalState \<Rightarrow> NetworkLinkStatus" where
  "link_of name device state = \<lparr>link_name = name, status_device = device, operational_state = state\<rparr>"

definition interface_of :: "string option \<Rightarrow> IpAddress list \<Rightarrow> NetworkLinkStatus \<Rightarrow> NetworkInterfaceStatus" where
  "interface_of name addresses link = \<lparr>interface_name = name, status_addresses = addresses, network_link_status = link\<rparr>"

lemma link_of_simps [simp]:
  "link_name (link_of name device state) = name" "status_device (link_of name device state) = device"
  "operational_state (link_of name device state) = state" "link_device (generic_link device) = device"
  "interface_network_link (plain_interface link) = link" "interface_name (interface_of name addresses s) = name"
  by (simp_all add: link_of_def generic_link_def plain_interface_def interface_of_def)

text \<open>The name that a configuration gives to a device, whatever the order of iteration.\<close>

lemma map_of_rearranged:
  assumes "mset ys = mset xs" "distinct (map fst xs)"
  shows "map_of (rev ys) = map_of xs"
proof -
  have "mset (map fst (rev ys)) = mset (map fst xs)" using assms(1) by (metis mset_map mset_rev)
  then have "distinct (map fst (rev ys))" using assms(2) by (metis mset_eq_imp_distinct_iff)
  moreover have "set (rev ys) = set xs" using assms(1) by (metis mset_rev set_mset_mset)
  ultimately show ?thesis using assms(2) map_of_inject_set by blast
qed

lemma configured_name:
  assumes "devices_distinct config"
  shows "hm_get (device_links (NetlinkMessageProcessor_new f config)) =
    map_of (map (\<lambda>(name, link). (link_device link, name)) (network_links config))"
proof
  fix d
  let ?g = "\<lambda>(name, link). (link_device link, name)"
  have "map fst (map ?g (network_links config)) = map (\<lambda>(n, l). link_device l) (network_links config)"
    by (simp add: split_beta)
  then have "distinct (map fst (map ?g (network_links config)))"
    using assms by (simp only: devices_distinct_def)
  moreover have "mset (map ?g (iter_order f (network_links config))) = mset (map ?g (network_links config))" by simp
  ultimately show "hm_get (device_links (NetlinkMessageProcessor_new f config)) d = map_of (map ?g (network_links config)) d"
    unfolding NetlinkMessageProcessor_new_def NetlinkMessageProcessor.simps hm_get_collect by (simp only: map_of_rearranged)
qed

lemma link_message_report:
  assumes "devices_distinct config" "kind = NewLink \<or> kind = DelLink"
  shows "process_link_message (NetlinkMessageProcessor_new f config) (payload (link_state_message header kind index device state)) =
    Some (ucast index, link_of (map_of (map (\<lambda>(name, link). (link_device link, name)) (network_links config)) device) device
      (case state of StateUp \<Rightarrow> Up | StateDown \<Rightarrow> Down | OtherState \<Rightarrow> Unknown))"
  using assms(2) by (auto simp: link_state_message_def process_link_eq configured_name [OF assms(1)] link_of_def)

lemma listing_eq:
  assumes "mset xs = mset ys" "sorted (map k xs)" "sorted (map k ys)" "distinct (map k ys)"
  shows "xs = ys"
proof -
  have "inj_on k (set xs)" using assms(1,4) by (metis distinct_map set_mset_mset)
  then have "sort_key k xs = ys" by (intro sort_key_inj_key_eq assms)
  moreover have "sort_key k xs = xs" using assms(2) by (simp add: sorted_sort_id sort_key_id_if_sorted)
  ultimately show ?thesis by simp
qed

section \<open>Tests of the message processor\<close>

definition empty_config :: Router where
  "empty_config = \<lparr>network_links = [], network_interfaces = [], vrfs = []\<rparr>"

definition no_attributes :: "NetlinkMessage \<Rightarrow> NetlinkMessage" where
  "no_attributes header = header\<lparr>payload := InnerMessage (NewLink \<lparr>interface_family = 0, lm_index = 0, link_nlas = []\<rparr>)\<rparr>"

definition unconfigured_link_test :: "order_choice \<Rightarrow> NetlinkMessage \<Rightarrow> bool" where
  "unconfigured_link_test f header =
     (let subject = NetlinkMessageProcessor_new f empty_config;
          process = (\<lambda>message. process_link_message subject (payload message));
          named = header\<lparr>payload := InnerMessage (NewLink \<lparr>interface_family = 0, lm_index = 10, link_nlas = [IfName ''SomeDevice'']\<rparr>)\<rparr>
      in process (no_attributes header) = None \<and>
         process named = Some (10, link_of None ''SomeDevice'' Unknown) \<and>
         process (link_state_message header NewLink 15 ''SomeDevice1'' StateUp) = Some (15, link_of None ''SomeDevice1'' Up) \<and>
         process (link_state_message header DelLink 15 ''SomeDevice1'' OtherState) = Some (15, link_of None ''SomeDevice1'' Unknown) \<and>
         process (header\<lparr>payload := InnerMessage OtherRtnl\<rparr>) = None)"

definition processor_test_config :: Router where
  "processor_test_config =
     \<lparr>network_links = [(''NetworkLink1'', generic_link ''Device1''), (''NetworkLink2'', generic_link ''Device2''),
        (''NetworkLink3'', generic_link ''Device3'')], network_interfaces = [], vrfs = []\<rparr>"

definition configured_link_test :: "order_choice \<Rightarrow> NetlinkMessage \<Rightarrow> bool" where
  "configured_link_test f header =
     (let subject = NetlinkMessageProcessor_new f processor_test_config;
          process = (\<lambda>message. process_link_message subject (payload message))
      in process (no_attributes header) = None \<and>
         process (link_state_message header NewLink 15 ''SomeDevice1'' StateUp) = Some (15, link_of None ''SomeDevice1'' Up) \<and>
         process (link_state_message header NewLink 20 ''Device2'' StateDown) =
           Some (20, link_of (Some ''NetworkLink2'') ''Device2'' Down))"

definition test_process_address_message :: "address_families \<Rightarrow> NetlinkMessage \<Rightarrow> bool" where
  "test_process_address_message af header =
     (let process = (\<lambda>message. process_address_message af (payload message));
          v6 = [16, 15, 14, 13, 12, 11, 10, 9, 8, 7, 6, 5, 4, 3, 2, 1]
      in process (header\<lparr>payload := InnerMessage (NewAddress \<lparr>am_family = 0, prefix_len = 0, am_index = 0, address_nlas = []\<rparr>)\<rparr>) = None \<and>
         process (address_of_message header NewAddress (ucast (AF_INET af)) 20 10 [1, 2, 3, 4]) =
           Some (10, IpAddress (V4 0x01020304) 20) \<and>
         process (address_of_message header DelAddress (ucast (AF_INET6 af)) 56 15 v6) =
           Some (15, IpAddress (V6 0x100f0e0d0c0b0a090807060504030201) 56) \<and>
         process (header\<lparr>payload := InnerMessage OtherRtnl\<rparr>) = None)"

lemma processor_tests:
  "unconfigured_link_test f header" "configured_link_test f header" "test_process_address_message sample_families header"
proof -
  have "devices_distinct empty_config" "devices_distinct processor_test_config"
    by (simp_all add: devices_distinct_def empty_config_def processor_test_config_def)
  note report = link_message_report [OF this(1), of NewLink] link_message_report [OF this(1), of DelLink]
    link_message_report [OF this(2), of NewLink] configured_name [OF this(1)]
  show "unconfigured_link_test f header"
    by (simp add: unconfigured_link_test_def Let_def report no_attributes_def process_link_eq)
      (simp add: empty_config_def link_of_def)
  show "configured_link_test f header"
    by (simp add: configured_link_test_def Let_def report no_attributes_def process_link_eq)
      (simp add: processor_test_config_def)
  show "test_process_address_message sample_families header"
    by (simp add: test_process_address_message_def Let_def address_of_message_def process_address_def from_be_bytes_def be_nat_def)
qed

section \<open>The first scan\<close>

definition expected_list :: "Router \<Rightarrow> (u64 \<times> NetworkLinkStatus) list \<Rightarrow> (CanonicalNetworkId \<times> NetworkLinkStatus) list" where
  "expected_list config rs = map report_entry rs @
     map (\<lambda>(n, l). missing_entry (n, link_device l))
       (filter (\<lambda>(n, l). list_all (\<lambda>(i, s). link_name s \<noteq> Some n) rs) (network_links config))"

lemma set_expected_list: "set (expected_list config rs) = expected config rs"
  by (force simp: expected_list_def expected_def unreported_def list_all_iff)

definition expected_interface_list ::
  "Router \<Rightarrow> (u64 \<times> NetworkLinkStatus) list \<Rightarrow> (u64 \<Rightarrow> IpAddress list) \<Rightarrow> (CanonicalNetworkId \<times> NetworkInterfaceStatus) list" where
  "expected_interface_list config rs known = map (configured_entry NotFound config rs known) (network_interfaces config) @
     map (unassigned_entry known)
       (filter (\<lambda>(i, s). known i \<noteq> [] \<and>
          list_all (\<lambda>(name, interface). link_name s \<noteq> Some (interface_network_link interface)) (network_interfaces config)) rs)"

lemma set_expected_interface_list: "set (expected_interface_list config rs known) = expected_interfaces config rs known"
  by (auto simp: expected_interface_list_def expected_interfaces_def unassigned_def list_all_iff)

text \<open>A scan of an empty database leaves what is expected and nothing else.\<close>

lemma first_scan:
  fixes ch :: 'ch and try_send :: "('sub, 'ch) sender"
  assumes "config_ok config" "devices_distinct config" "interfaces_distinct config"
    and "reports (NetlinkMessageProcessor_new f config) link_data = rs" "reports_distinct rs"
    and "length link_data + length network_data + length (network_links config) + length (network_interfaces config) < 2 ^ 64"
  shows "\<exists>st'. poll env config (NetlinkMessageProcessor_new f config) try_send (Ok link_data) (Ok network_data) (manager_new ch) = Ok st' \<and>
    db_ok (database st') \<and>
    image_mset (\<lambda>a. (item_id a, status a)) (item_bag (links (database st'))) = mset_set (expected config rs) \<and>
    image_mset (\<lambda>a. (item_id a, status a)) (item_bag (interfaces (database st'))) =
      mset_set (expected_interfaces config rs (given (families env) network_data))"
proof -
  let ?new = "manager_new ch :: ('sub, 'ch) manager"
  have new: "db_ok (database ?new)" "item_bag (links (database ?new)) = {#}" "item_bag (interfaces (database ?new)) = {#}"
    by (simp_all add: manager_new_def InterfaceManagerDatabase_new_def empty_table_def item_bag_def)
      (simp add: db_new_ok [unfolded InterfaceManagerDatabase_new_def empty_table_def])
  note rs = assms(5) [folded assms(4)]
  from scan_links_settle [OF new(1) assms(1,2) rs assms(6), of env try_send] obtain st' where
    1: "poll env config (NetlinkMessageProcessor_new f config) try_send (Ok link_data) (Ok network_data) ?new = Ok st'" "db_ok (database st')"
      "image_mset item_id (item_bag (links (database st'))) = mset_set (fst ` expected config rs)"
      "\<forall>a \<in># item_bag (links (database st')). (item_id a, status a) \<in> expected config rs"
    unfolding assms(4) new(2) by auto
  from scan_interfaces_settle [OF new(1) assms(1-3) rs assms(6), of env try_send] have
    2: "image_mset item_id (item_bag (interfaces (database st'))) = mset_set (fst ` expected_interfaces config rs (given (families env) network_data))"
      "\<forall>a \<in># item_bag (interfaces (database st')). (item_id a, status a) \<in> expected_interfaces config rs (given (families env) network_data)"
    unfolding assms(4) new(3) 1(1) by auto
  from bag_exact [OF 1(3,4) expected_inj [OF assms(1,5)]] bag_exact [OF 2 expected_interfaces_inj [OF assms(1,5)]] 1(1,2)
  show ?thesis by blast
qed

lemma first_scan_lists:
  fixes ch :: 'ch and try_send :: "('sub, 'ch) sender"
  assumes "config_ok config" "devices_distinct config" "interfaces_distinct config"
    and "reports (NetlinkMessageProcessor_new f config) link_data = rs" "reports_distinct rs"
    and "length link_data + length network_data + length (network_links config) + length (network_interfaces config) < 2 ^ 64"
    and "expected_list config rs = ls" "distinct ls"
    and "expected_interface_list config rs (given (families env) network_data) = is" "distinct is"
  obtains st' where
    "poll env config (NetlinkMessageProcessor_new f config) try_send (Ok link_data) (Ok network_data) (manager_new ch) = Ok st'"
    "db_ok (database st')"
    "image_mset (\<lambda>a. (item_id a, status a)) (item_bag (links (database st'))) = mset ls"
    "image_mset (\<lambda>a. (item_id a, status a)) (item_bag (interfaces (database st'))) = mset is"
  using first_scan [OF assms(1-6), of env try_send ch] assms(8,10)
  unfolding set_expected_list [symmetric] set_expected_interface_list [symmetric] assms(7,9) by (auto simp: mset_set_set)

lemma list_links_from:
  assumes "image_mset (\<lambda>a. (item_id a, status a)) (item_bag (links (database st))) = mset es"
    and "mset (map snd es) = mset ys" "sorted (map link_name ys)" "distinct (map link_name ys)"
  shows "list_network_links g st = ys"
proof (rule listing_eq [where k = link_name])
  have "mset (list_network_links g st) = image_mset snd (image_mset (\<lambda>a. (item_id a, status a)) (item_bag (links (database st))))"
    by (simp add: list_network_links_def list_link_status_def list_status_sorted(2) image_mset.compositionality comp_def)
  then show "mset (list_network_links g st) = mset ys" using assms(1,2) by simp
  show "sorted (map link_name (list_network_links g st))"
    by (simp add: list_network_links_def list_link_status_def list_status_sorted(1))
qed fact+

lemma list_interfaces_from:
  assumes "image_mset (\<lambda>a. (item_id a, status a)) (item_bag (interfaces (database st))) = mset es"
    and "mset (map snd es) = mset ys" "sorted (map interface_name ys)" "distinct (map interface_name ys)"
  shows "list_network_interfaces g st = ys"
proof (rule listing_eq [where k = interface_name])
  have "mset (list_network_interfaces g st) = image_mset snd (image_mset (\<lambda>a. (item_id a, status a)) (item_bag (interfaces (database st))))"
    by (simp add: list_network_interfaces_def list_interface_status_def list_status_sorted(2) image_mset.compositionality comp_def)
  then show "mset (list_network_interfaces g st) = mset ys" using assms(1,2) by simp
  show "sorted (map interface_name (list_network_interfaces g st))"
    by (simp add: list_network_interfaces_def list_interface_status_def list_status_sorted(1))
qed fact+

section \<open>Tests of the worker\<close>

definition worker_links_config :: Router where
  "worker_links_config =
     \<lparr>network_links = [(''SomeLink2'', generic_link ''SomeDevice2''), (''SomeLink3'', generic_link ''SomeDevice3'')],
      network_interfaces = [], vrfs = []\<rparr>"

definition worker_links_reply :: "NetlinkMessage \<Rightarrow> NetlinkMessage list" where
  "worker_links_reply header =
     [link_state_message header NewLink 100 ''SomeDevice1'' StateUp, link_state_message header NewLink 101 ''SomeDevice2'' StateUp]"

definition test_interface_manager_worker_links :: "order_choice \<Rightarrow> order_choice \<Rightarrow> poll_env \<Rightarrow> ('sub, 'ch) sender \<Rightarrow> 'ch \<Rightarrow> NetlinkMessage \<Rightarrow> bool" where
  "test_interface_manager_worker_links f g env try_send ch header =
     (case poll env worker_links_config (NetlinkMessageProcessor_new f worker_links_config) try_send
             (Ok (worker_links_reply header)) (Ok []) (manager_new ch) of
        Ok st \<Rightarrow> list_network_links g st =
          [link_of None ''SomeDevice1'' Up, link_of (Some ''SomeLink2'') ''SomeDevice2'' Up,
           link_of (Some ''SomeLink3'') ''SomeDevice3'' NotFound]
      | _ \<Rightarrow> False)"

lemma worker_links_passes: "test_interface_manager_worker_links f g env try_send ch header"
proof -
  let ?rs = "[(100, link_of None ''SomeDevice1'' Up), (101, link_of (Some ''SomeLink2'') ''SomeDevice2'' Up)]"
  let ?es = "expected_list worker_links_config ?rs"
  have cfg: "config_ok worker_links_config" "devices_distinct worker_links_config" "interfaces_distinct worker_links_config"
    by (simp_all add: config_ok_def devices_distinct_def interfaces_distinct_def worker_links_config_def)
  have rs: "reports (NetlinkMessageProcessor_new f worker_links_config) (worker_links_reply header) = ?rs"
    by (simp add: reports_def worker_links_reply_def List.map_filter_simps link_message_report [OF cfg(2)])
      (simp add: worker_links_config_def)
  have es: "?es =
     [(CanonicalNetworkId_new (Some 100) None (Some ''SomeDevice1''), link_of None ''SomeDevice1'' Up),
      (CanonicalNetworkId_new (Some 101) (Some ''SomeLink2'') (Some ''SomeDevice2''), link_of (Some ''SomeLink2'') ''SomeDevice2'' Up),
      (CanonicalNetworkId_new None (Some ''SomeLink3'') (Some ''SomeDevice3''), link_of (Some ''SomeLink3'') ''SomeDevice3'' NotFound)]"
    by (simp add: expected_list_def worker_links_config_def report_entry_def missing_entry_def link_of_def)
  have "reports_distinct ?rs" "distinct ?es"
    unfolding es by (simp_all add: reports_distinct_def CanonicalNetworkId_new_def)
  from first_scan_lists [OF cfg rs this(1) _ refl this(2) refl, of "[]" env try_send ch] obtain st where
    1: "poll env worker_links_config (NetlinkMessageProcessor_new f worker_links_config) try_send
         (Ok (worker_links_reply header)) (Ok []) (manager_new ch) = Ok st"
      "image_mset (\<lambda>a. (item_id a, status a)) (item_bag (links (database st))) = mset ?es"
    by (auto simp: worker_links_reply_def worker_links_config_def expected_interface_list_def given_def List.map_filter_simps)
  from list_links_from [OF 1(2)] show ?thesis
    by (simp add: test_interface_manager_worker_links_def 1(1) es)
qed

definition worker_interfaces_config :: Router where
  "worker_interfaces_config =
     \<lparr>network_links =
        [(''SomeLink2'', generic_link ''SomeDevice2''), (''SomeLink3'', generic_link ''SomeDevice3''),
         (''SomeLink5'', generic_link ''SomeDevice5''), (''SomeLink6'', generic_link ''SomeDevice6''),
         (''SomeLink7'', generic_link ''SomeDevice7''), (''SomeLink8'', generic_link ''SomeDevice8'')],
      network_interfaces =
        [(''SomeInterface4'', plain_interface ''SomeLink4''), (''SomeInterface5'', plain_interface ''SomeLink5''),
         (''SomeInterface6'', plain_interface ''SomeLink6''), (''SomeInterface7'', plain_interface ''SomeLink7'')],
      vrfs = []\<rparr>"

definition worker_interfaces_reply :: "NetlinkMessage \<Rightarrow> NetlinkMessage list" where
  "worker_interfaces_reply header =
     [link_state_message header NewLink 100 ''SomeDevice1'' StateUp, link_state_message header NewLink 101 ''SomeDevice2'' StateUp,
      link_state_message header NewLink 105 ''SomeDevice5'' StateDown, link_state_message header NewLink 107 ''SomeDevice7'' StateUp,
      link_state_message header NewLink 108 ''SomeDevice8'' StateUp]"

definition worker_interfaces_addresses :: "NetlinkMessage \<Rightarrow> address_families \<Rightarrow> NetlinkMessage list" where
  "worker_interfaces_addresses header af =
     [address_of_message header NewAddress (ucast (AF_INET af)) 20 107 [1, 2, 3, 4],
      address_of_message header NewAddress (ucast (AF_INET af)) 32 108 [2, 3, 4, 5]]"

definition worker_interfaces_links :: "NetworkLinkStatus list" where
  "worker_interfaces_links =
     [link_of None ''SomeDevice1'' Up, link_of (Some ''SomeLink2'') ''SomeDevice2'' Up, link_of (Some ''SomeLink3'') ''SomeDevice3'' NotFound,
      link_of (Some ''SomeLink5'') ''SomeDevice5'' Down, link_of (Some ''SomeLink6'') ''SomeDevice6'' NotFound,
      link_of (Some ''SomeLink7'') ''SomeDevice7'' Up, link_of (Some ''SomeLink8'') ''SomeDevice8'' Up]"

definition worker_interfaces_listed :: "NetworkInterfaceStatus list" where
  "worker_interfaces_listed =
     [interface_of None [IpAddress (V4 0x02030405) 32] (link_of (Some ''SomeLink8'') ''SomeDevice8'' Up),
      interface_of (Some ''SomeInterface4'') [] (link_of (Some ''SomeLink4'') [] Misconfigured),
      interface_of (Some ''SomeInterface5'') [] (link_of (Some ''SomeLink5'') ''SomeDevice5'' Down),
      interface_of (Some ''SomeInterface6'') [] (link_of (Some ''SomeLink6'') ''SomeDevice6'' NotFound),
      interface_of (Some ''SomeInterface7'') [IpAddress (V4 0x01020304) 20] (link_of (Some ''SomeLink7'') ''SomeDevice7'' Up)]"

definition test_interface_manager_worker_interfaces ::
  "order_choice \<Rightarrow> order_choice \<Rightarrow> poll_env \<Rightarrow> ('sub, 'ch) sender \<Rightarrow> 'ch \<Rightarrow> NetlinkMessage \<Rightarrow> bool" where
  "test_interface_manager_worker_interfaces f g env try_send ch header =
     (case poll env worker_interfaces_config (NetlinkMessageProcessor_new f worker_interfaces_config) try_send
             (Ok (worker_interfaces_reply header)) (Ok (worker_interfaces_addresses header (families env))) (manager_new ch) of
        Ok st \<Rightarrow> list_network_links g st = worker_interfaces_links \<and> list_network_interfaces g st = worker_interfaces_listed
      | _ \<Rightarrow> False)"

lemma worker_interfaces_passes:
  assumes "families env = sample_families"
  shows "test_interface_manager_worker_interfaces f g env try_send ch header"
proof -
  let ?rs = "[(100, link_of None ''SomeDevice1'' Up), (101, link_of (Some ''SomeLink2'') ''SomeDevice2'' Up),
    (105, link_of (Some ''SomeLink5'') ''SomeDevice5'' Down), (107, link_of (Some ''SomeLink7'') ''SomeDevice7'' Up),
    (108, link_of (Some ''SomeLink8'') ''SomeDevice8'' Up)]"
  let ?known = "given (families env) (worker_interfaces_addresses header (families env))"
  let ?ls = "expected_list worker_interfaces_config ?rs" and ?is = "expected_interface_list worker_interfaces_config ?rs ?known"
  have cfg: "config_ok worker_interfaces_config" "devices_distinct worker_interfaces_config" "interfaces_distinct worker_interfaces_config"
    by (simp_all add: config_ok_def devices_distinct_def interfaces_distinct_def worker_interfaces_config_def)
  have rs: "reports (NetlinkMessageProcessor_new f worker_interfaces_config) (worker_interfaces_reply header) = ?rs"
    by (simp add: reports_def worker_interfaces_reply_def List.map_filter_simps link_message_report [OF cfg(2)])
      (simp add: worker_interfaces_config_def)
  have known: "?known i = (if i = 107 then [IpAddress (V4 0x01020304) 20] else if i = 108 then [IpAddress (V4 0x02030405) 32] else [])" for i
    by (simp add: given_def worker_interfaces_addresses_def address_of_message_def List.map_filter_simps assms process_address_def
        from_be_bytes_def be_nat_def)
  have ls: "map snd ?ls = [link_of None ''SomeDevice1'' Up, link_of (Some ''SomeLink2'') ''SomeDevice2'' Up,
      link_of (Some ''SomeLink5'') ''SomeDevice5'' Down, link_of (Some ''SomeLink7'') ''SomeDevice7'' Up,
      link_of (Some ''SomeLink8'') ''SomeDevice8'' Up, link_of (Some ''SomeLink3'') ''SomeDevice3'' NotFound,
      link_of (Some ''SomeLink6'') ''SomeDevice6'' NotFound]"
    by (simp add: expected_list_def worker_interfaces_config_def report_entry_def missing_entry_def link_of_def)
  have "is": "map snd ?is = [interface_of (Some ''SomeInterface4'') [] (link_of (Some ''SomeLink4'') [] Misconfigured),
      interface_of (Some ''SomeInterface5'') [] (link_of (Some ''SomeLink5'') ''SomeDevice5'' Down),
      interface_of (Some ''SomeInterface6'') [] (link_of (Some ''SomeLink6'') ''SomeDevice6'' NotFound),
      interface_of (Some ''SomeInterface7'') [IpAddress (V4 0x01020304) 20] (link_of (Some ''SomeLink7'') ''SomeDevice7'' Up),
      interface_of None [IpAddress (V4 0x02030405) 32] (link_of (Some ''SomeLink8'') ''SomeDevice8'' Up)]"
    by (simp add: expected_interface_list_def worker_interfaces_config_def configured_entry_def unassigned_entry_def link_report_def known)
      (simp add: link_of_def interface_of_def generic_link_def)
  have distinct_rs: "reports_distinct ?rs" by (simp add: reports_distinct_def)
  have len: "length (worker_interfaces_reply header) + length (worker_interfaces_addresses header (families env)) +
      length (network_links worker_interfaces_config) + length (network_interfaces worker_interfaces_config) < 2 ^ 64"
    by (simp add: worker_interfaces_reply_def worker_interfaces_addresses_def worker_interfaces_config_def)
  have "distinct (map snd ?ls)" "distinct (map snd ?is)"
    unfolding ls "is" by (simp_all add: link_of_def interface_of_def)
  then have "distinct ?ls" "distinct ?is" unfolding distinct_map by blast+
  then obtain st where
    1: "poll env worker_interfaces_config (NetlinkMessageProcessor_new f worker_interfaces_config) try_send
         (Ok (worker_interfaces_reply header)) (Ok (worker_interfaces_addresses header (families env))) (manager_new ch) = Ok st"
      "image_mset (\<lambda>a. (item_id a, status a)) (item_bag (links (database st))) = mset ?ls"
      "image_mset (\<lambda>a. (item_id a, status a)) (item_bag (interfaces (database st))) = mset ?is"
    by (rule first_scan_lists [OF cfg rs distinct_rs len refl _ refl])
  have "list_network_links g st = worker_interfaces_links"
    by (rule list_links_from [OF 1(2)]) (simp_all add: ls worker_interfaces_links_def add_mset_commute)
  moreover have "list_network_interfaces g st = worker_interfaces_listed"
    by (rule list_interfaces_from [OF 1(3)]) (simp_all add: "is" worker_interfaces_listed_def add_mset_commute)
  ultimately show ?thesis by (simp add: test_interface_manager_worker_interfaces_def 1(1))
qed

section \<open>Tests of the listener\<close>

definition generate_test_config :: Router where
  "generate_test_config =
     \<lparr>network_links =
        [(''SomeLink2'', generic_link ''SomeDevice2''), (''SomeLink3'', generic_link ''SomeDevice3''),
         (''SomeLink5'', generic_link ''SomeDevice5''), (''SomeLink6'', generic_link ''SomeDevice6''),
         (''SomeLink7'', generic_link ''SomeDevice7''), (''SomeLink8'', generic_link ''SomeDevice8''),
         (''SomeLink9'', generic_link ''SomeDevice9'')],
      network_interfaces =
        [(''SomeInterface4'', plain_interface ''SomeLink4''), (''SomeInterface5'', plain_interface ''SomeLink5''),
         (''SomeInterface6'', plain_interface ''SomeLink6''), (''SomeInterface7'', plain_interface ''SomeLink7''),
         (''SomeInterface9'', plain_interface ''SomeLink9'')],
      vrfs = []\<rparr>"

lemma generate_test_config:
  "config_ok generate_test_config" "devices_distinct generate_test_config" "interfaces_distinct generate_test_config"
  by (simp_all add: config_ok_def devices_distinct_def interfaces_distinct_def generate_test_config_def)

lemma test_report:
  assumes "kind = NewLink \<or> kind = DelLink"
  shows "process_link_message (NetlinkMessageProcessor_new f generate_test_config)
      (payload (link_state_message header kind index ''SomeDevice2'' state)) =
    Some (ucast index, link_of (Some ''SomeLink2'') ''SomeDevice2'' (case state of StateUp \<Rightarrow> Up | StateDown \<Rightarrow> Down | OtherState \<Rightarrow> Unknown))"
    "process_link_message (NetlinkMessageProcessor_new f generate_test_config)
      (payload (link_state_message header kind index ''SomeDeviceA'' state)) =
    Some (ucast index, link_of None ''SomeDeviceA'' (case state of StateUp \<Rightarrow> Up | StateDown \<Rightarrow> Down | OtherState \<Rightarrow> Unknown))"
  unfolding link_message_report [OF generate_test_config(2) assms] by (simp_all add: generate_test_config_def)

text \<open>A database to which a test has added links and then interfaces.\<close>

definition stored :: "link_item list \<Rightarrow> interface_item list \<Rightarrow> InterfaceManagerDatabase router_result" where
  "stored ls is =
     obind (ofold (\<lambda>item db. obind (set_link_status_item item db) (\<lambda>(db, deleted). Ok db)) ls InterfaceManagerDatabase_new)
       (ofold (\<lambda>item db. obind (set_interface_status_item item db) (\<lambda>(db, deleted). Ok db)) is)"

lemma stored_Ok:
  assumes "conflict_free ls" "conflict_free is" "length ls + length is + k < 2 ^ 64"
  shows "\<exists>db. stored ls is = Ok db \<and> db_ok db \<and> item_bag (links db) = mset ls \<and> item_bag (interfaces db) = mset is \<and> counters_below k db"
proof -
  have new: "next_index (links InterfaceManagerDatabase_new) = 0" "next_index (interfaces InterfaceManagerDatabase_new) = 0"
      "item_bag (links InterfaceManagerDatabase_new) = {#}" "item_bag (interfaces InterfaceManagerDatabase_new) = {#}"
    by (simp_all add: InterfaceManagerDatabase_new_def empty_table_def item_bag_def)
  have "unat (next_index (links InterfaceManagerDatabase_new)) + length ls < 2 ^ 64" using assms(3) by (simp add: new(1))
  from link_store.put_all_returns [OF db_new_ok this] obtain db1 where 1: "link_store.put_all ls InterfaceManagerDatabase_new = Ok db1" by blast
  have 2: "db_ok db1" "item_bag (links db1) = mset ls" "interfaces db1 = interfaces InterfaceManagerDatabase_new"
      "unat (next_index (links db1)) = length ls"
    using link_store.put_all_Ok [OF db_new_ok 1] link_store.put_all_counter [OF db_new_ok _ 1] fold_put_item [OF assms(1)] assms(3)
    by (simp_all add: new)
  have "unat (next_index (interfaces db1)) + length is < 2 ^ 64" using assms(3) by (simp add: 2(3) new(2))
  from interface_store.put_all_returns [OF 2(1) this] obtain db2 where 3: "interface_store.put_all is db1 = Ok db2" by blast
  have 4: "db_ok db2" "item_bag (interfaces db2) = mset is" "links db2 = links db1" "unat (next_index (interfaces db2)) = length is"
    using interface_store.put_all_Ok [OF 2(1) 3] interface_store.put_all_counter [OF 2(1) _ 3] fold_put_item [OF assms(2)] assms(3)
    by (simp_all add: 2(3) new)
  have "stored ls is = Ok db2"
    using 1 3 by (simp add: stored_def link_store.put_all_def interface_store.put_all_def)
  with 2 4 assms(3) show ?thesis by (auto simp: counters_below_def)
qed

definition listened ::
  "link_item list \<Rightarrow> interface_item list \<Rightarrow> order_choice \<Rightarrow> address_families \<Rightarrow> ('sub, 'ch) sender \<Rightarrow> instant \<Rightarrow> instant \<Rightarrow>
   NetlinkMessage \<Rightarrow> 'ch \<Rightarrow> ('sub, 'ch) manager router_result" where
  "listened ls is f af try_send now now' message ch =
     obind (stored ls is) (\<lambda>db. message_received (NetlinkMessageProcessor_new f generate_test_config) af try_send now now' message
       \<lparr>database = db, subscribers = [], channels = ch\<rparr>)"

text \<open>The items of the tests, made at the time \<open>t\<close>.\<close>

definition link_A :: "instant \<Rightarrow> link_item" where
  "link_A t = NetworkStatusItem_new t (CanonicalNetworkId_new (Some 110) None (Some ''SomeDeviceA'')) (link_of None ''SomeDeviceA'' Down)"

definition link_2 :: "instant \<Rightarrow> link_item" where
  "link_2 t = NetworkStatusItem_new t (CanonicalNetworkId_new (Some 101) (Some ''SomeLink2'') (Some ''SomeDevice2''))
     (link_of (Some ''SomeLink2'') ''SomeDevice2'' Up)"

text \<open>Three tests give their interface an identifier that is not that of its status.\<close>

definition odd_interface_2 :: "instant \<Rightarrow> interface_item" where
  "odd_interface_2 t = NetworkStatusItem_new t (CanonicalNetworkId_new (Some 101) (Some ''SomeLink2'') (Some ''SomeInterface2''))
     (interface_of (Some ''NetworkInterface2'') [] (link_of (Some ''SomeLink2'') ''SomeDevice2'' Up))"

definition test_interface_listener_new_link ::
  "order_choice \<Rightarrow> order_choice \<Rightarrow> address_families \<Rightarrow> ('sub, 'ch) sender \<Rightarrow> instant \<Rightarrow> instant \<Rightarrow> instant \<Rightarrow> NetlinkMessage \<Rightarrow> 'ch \<Rightarrow> bool" where
  "test_interface_listener_new_link f g af try_send t now now' header ch =
     (case listened [link_A t] [] f af try_send now now' (link_state_message header NewLink 101 ''SomeDevice2'' StateUp) ch of
        Ok st \<Rightarrow> list_network_links g st = [link_of None ''SomeDeviceA'' Down, link_of (Some ''SomeLink2'') ''SomeDevice2'' Up]
      | _ \<Rightarrow> False)"

definition test_interface_listener_delete_link ::
  "order_choice \<Rightarrow> order_choice \<Rightarrow> address_families \<Rightarrow> ('sub, 'ch) sender \<Rightarrow> instant \<Rightarrow> instant \<Rightarrow> instant \<Rightarrow> NetlinkMessage \<Rightarrow> 'ch \<Rightarrow> bool" where
  "test_interface_listener_delete_link f g af try_send t now now' header ch =
     (let interface_2 = NetworkStatusItem_new t (CanonicalNetworkId_new (Some 101) (Some ''SomeInterface2'') (Some ''SomeDevice2''))
            (interface_of (Some ''SomeInterface2'') [] (link_of (Some ''SomeLink2'') ''SomeDevice2'' Down))
      in case listened [link_A t, link_2 t] [interface_2] f af try_send now now'
                (link_state_message header DelLink 101 ''SomeDevice2'' StateUp) ch of
        Ok st \<Rightarrow> list_network_links g st = [link_of None ''SomeDeviceA'' Down, link_of (Some ''SomeLink2'') ''SomeDevice2'' NotFound]
      | _ \<Rightarrow> False)"

definition test_interface_listener_remove_link ::
  "order_choice \<Rightarrow> order_choice \<Rightarrow> address_families \<Rightarrow> ('sub, 'ch) sender \<Rightarrow> instant \<Rightarrow> instant \<Rightarrow> instant \<Rightarrow> NetlinkMessage \<Rightarrow> 'ch \<Rightarrow> bool" where
  "test_interface_listener_remove_link f g af try_send t now now' header ch =
     (let interface_A = NetworkStatusItem_new t (CanonicalNetworkId_new (Some 110) None (Some ''SomeDeviceA''))
            (interface_of None [] (link_of None ''SomeDeviceA'' Down))
      in case listened [link_A t, link_2 t] [interface_A] f af try_send now now'
                (link_state_message header DelLink 110 ''SomeDeviceA'' StateDown) ch of
        Ok st \<Rightarrow> list_network_links g st = [link_of (Some ''SomeLink2'') ''SomeDevice2'' Up] \<and> list_network_interfaces g st = []
      | _ \<Rightarrow> False)"

definition test_interface_listener_update_link ::
  "order_choice \<Rightarrow> order_choice \<Rightarrow> address_families \<Rightarrow> ('sub, 'ch) sender \<Rightarrow> instant \<Rightarrow> instant \<Rightarrow> instant \<Rightarrow> NetlinkMessage \<Rightarrow> 'ch \<Rightarrow> bool" where
  "test_interface_listener_update_link f g af try_send t now now' header ch =
     (case listened [link_A t, link_2 t] [odd_interface_2 t] f af try_send now now'
             (link_state_message header NewLink 101 ''SomeDevice2'' StateDown) ch of
        Ok st \<Rightarrow> list_network_links g st = [link_of None ''SomeDeviceA'' Down, link_of (Some ''SomeLink2'') ''SomeDevice2'' Down] \<and>
          list_network_interfaces g st =
            [interface_of (Some ''NetworkInterface2'') [] (link_of (Some ''SomeLink2'') ''SomeDevice2'' Down)]
      | _ \<Rightarrow> False)"

definition test_interface_listener_new_address ::
  "order_choice \<Rightarrow> order_choice \<Rightarrow> address_families \<Rightarrow> ('sub, 'ch) sender \<Rightarrow> instant \<Rightarrow> instant \<Rightarrow> instant \<Rightarrow> NetlinkMessage \<Rightarrow> 'ch \<Rightarrow> bool" where
  "test_interface_listener_new_address f g af try_send t now now' header ch =
     (case listened [link_2 t] [odd_interface_2 t] f af try_send now now'
             (address_of_message header NewAddress (ucast (AF_INET af)) 24 101 [192, 168, 1, 1]) ch of
        Ok st \<Rightarrow> list_network_links g st = [link_of (Some ''SomeLink2'') ''SomeDevice2'' Up] \<and>
          list_network_interfaces g st =
            [interface_of (Some ''NetworkInterface2'') [IpAddress (V4 0xC0A80101) 24] (link_of (Some ''SomeLink2'') ''SomeDevice2'' Up)]
      | _ \<Rightarrow> False)"

definition test_interface_listener_delete_address ::
  "order_choice \<Rightarrow> order_choice \<Rightarrow> address_families \<Rightarrow> ('sub, 'ch) sender \<Rightarrow> instant \<Rightarrow> instant \<Rightarrow> instant \<Rightarrow> NetlinkMessage \<Rightarrow> 'ch \<Rightarrow> bool" where
  "test_interface_listener_delete_address f g af try_send t now now' header ch =
     (case listened [link_2 t] [odd_interface_2 t] f af try_send now now'
             (address_of_message header DelAddress (ucast (AF_INET af)) 24 101 [192, 168, 1, 1]) ch of
        Ok st \<Rightarrow> list_network_links g st = [link_of (Some ''SomeLink2'') ''SomeDevice2'' Up] \<and>
          list_network_interfaces g st =
            [interface_of (Some ''NetworkInterface2'') [] (link_of (Some ''SomeLink2'') ''SomeDevice2'' Up)]
      | _ \<Rightarrow> False)"

lemma interface_on_link_few:
  assumes "db_ok db"
  shows "item_bag (interfaces db) = {#} \<Longrightarrow> interface_on_link index link db = None"
    and "item_bag (interfaces db) = {#a#} \<Longrightarrow>
      interface_on_link index link db = (if concerns index (status_device (status link)) a then Some a else None)"
proof -
  show "interface_on_link index link db = None" if "item_bag (interfaces db) = {#}"
    using that interface_on_link_concerns [OF assms, of index link] by (cases "interface_on_link index link db") auto
  show "interface_on_link index link db = (if concerns index (status_device (status link)) a then Some a else None)"
    if "item_bag (interfaces db) = {#a#}"
    using that interface_on_link_concerns [OF assms, of index link] by (cases "interface_on_link index link db") auto
qed

lemmas item_simps = NetworkStatusItem_new_def CanonicalNetworkId_new_def conflicts_def same_key_def put_item_def without_def
  concerns_def conflict_free_def link_A_def link_2_def odd_interface_2_def

lemma listened_message:
  assumes "conflict_free ls" "conflict_free is" "length ls + length is + 1 < 2 ^ 64"
  obtains db where "db_ok db" "counters_free db" "item_bag (links db) = mset ls" "item_bag (interfaces db) = mset is"
    "listened ls is f af try_send now now' message ch =
       message_received (NetlinkMessageProcessor_new f generate_test_config) af try_send now now' message
         \<lparr>database = db, subscribers = [], channels = ch\<rparr>"
proof -
  obtain db where db: "stored ls is = Ok db" "db_ok db" "item_bag (links db) = mset ls" "item_bag (interfaces db) = mset is"
      "counters_below 1 db"
    using stored_Ok [OF assms] by blast
  show ?thesis
    by (rule that [OF db(2) _ db(3,4)]) (use db(1,5) counters_below_free in \<open>simp_all add: listened_def\<close>)
qed

lemma received_link:
  "message_received (NetlinkMessageProcessor_new f generate_test_config) af try_send now now' (link_state_message header NewLink index device state) st =
     (case process_link_message (NetlinkMessageProcessor_new f generate_test_config) (payload (link_state_message header NewLink index device state)) of
        None \<Rightarrow> Ok st | Some report \<Rightarrow> new_link try_send now now' report st)"
  "message_received (NetlinkMessageProcessor_new f generate_test_config) af try_send now now' (link_state_message header DelLink index device state) st =
     (case process_link_message (NetlinkMessageProcessor_new f generate_test_config) (payload (link_state_message header DelLink index device state)) of
        None \<Rightarrow> Ok st | Some report \<Rightarrow> del_link now now' report st)"
  by (simp_all add: message_received_def link_state_message_def)

lemma listener_new_link_passes: "test_interface_listener_new_link f g af try_send t now now' header ch"
proof -
  obtain db where db: "db_ok db" "counters_free db" "item_bag (links db) = {#link_A t#}" "item_bag (interfaces db) = {#}"
    and run: "listened [link_A t] [] f af try_send now now' (link_state_message header NewLink 101 ''SomeDevice2'' StateUp) ch =
      new_link try_send now now' (101, link_of (Some ''SomeLink2'') ''SomeDevice2'' Up) \<lparr>database = db, subscribers = [], channels = ch\<rparr>"
    by (rule listened_message [of "[link_A t]" "[]" f af try_send now now' "link_state_message header NewLink 101 ''SomeDevice2'' StateUp" ch])
      (simp_all add: item_simps received_link test_report)
  with new_link_Ok [of "\<lparr>database = db, subscribers = [], channels = ch\<rparr>" try_send now now' 101 "link_of (Some ''SomeLink2'') ''SomeDevice2'' Up"]
  obtain st where st: "new_link try_send now now' (101, link_of (Some ''SomeLink2'') ''SomeDevice2'' Up)
        \<lparr>database = db, subscribers = [], channels = ch\<rparr> = Ok st"
      "item_bag (links (database st)) = put_item (reported_link now 101 (link_of (Some ''SomeLink2'') ''SomeDevice2'' Up)) {#link_A t#}"
    by auto
  have "list_network_links g st = [link_of None ''SomeDeviceA'' Down, link_of (Some ''SomeLink2'') ''SomeDevice2'' Up]"
    by (rule list_links_from [where es = "map (\<lambda>a. (item_id a, status a))
        [link_A t, reported_link now 101 (link_of (Some ''SomeLink2'') ''SomeDevice2'' Up)]"])
      (simp_all add: st(2) item_simps reported_link_def)
  then show ?thesis by (simp add: test_interface_listener_new_link_def run st(1))
qed

lemma gone_link_of:
  "gone_link now (link_of (Some name) device state) =
     NetworkStatusItem_new now (CanonicalNetworkId_new None (Some name) (Some device)) (link_of (Some name) device NotFound)"
  "gone_link now (link_of None device state) =
     NetworkStatusItem_new now (CanonicalNetworkId_new None None (Some device)) (link_of None device state)"
  by (simp_all add: gone_link_def link_of_def)

lemma listener_delete_link_passes:
  fixes ch :: 'ch and try_send :: "('sub, 'ch) sender"
  shows "test_interface_listener_delete_link f g af try_send t now now' header ch"
proof -
  let ?i = "NetworkStatusItem_new t (CanonicalNetworkId_new (Some 101) (Some ''SomeInterface2'') (Some ''SomeDevice2''))
      (interface_of (Some ''SomeInterface2'') [] (link_of (Some ''SomeLink2'') ''SomeDevice2'' Down))"
  let ?s = "link_of (Some ''SomeLink2'') ''SomeDevice2'' Up"
  obtain db where db: "db_ok db" "counters_free db" "item_bag (links db) = {#link_A t, link_2 t#}" "item_bag (interfaces db) = {#?i#}"
    and run: "listened [link_A t, link_2 t] [?i] f af try_send now now' (link_state_message header DelLink 101 ''SomeDevice2'' StateUp) ch =
      del_link now now' (101, ?s) \<lparr>database = db, subscribers = [] :: 'sub list, channels = ch\<rparr>"
    by (rule listened_message [of "[link_A t, link_2 t]" "[?i]" f af try_send now now' "link_state_message header DelLink 101 ''SomeDevice2'' StateUp" ch])
      (simp_all add: item_simps received_link test_report)
  with del_link_Ok [of "\<lparr>database = db, subscribers = [] :: 'sub list, channels = ch\<rparr>" now now' 101 ?s]
  obtain st where st: "del_link now now' (101, ?s) \<lparr>database = db, subscribers = [] :: 'sub list, channels = ch\<rparr> = Ok st"
      "item_bag (links (database st)) = put_item (gone_link now ?s) {#link_A t, link_2 t#}"
    by auto
  have "list_network_links g st = [link_of None ''SomeDeviceA'' Down, link_of (Some ''SomeLink2'') ''SomeDevice2'' NotFound]"
    by (rule list_links_from [where es = "map (\<lambda>a. (item_id a, status a)) [link_A t, gone_link now ?s]"])
      (simp_all add: st(2) gone_link_of item_simps)
  then show ?thesis by (simp add: test_interface_listener_delete_link_def run st(1))
qed

lemma listener_remove_link_passes:
  fixes ch :: 'ch and try_send :: "('sub, 'ch) sender"
  shows "test_interface_listener_remove_link f g af try_send t now now' header ch"
proof -
  let ?i = "NetworkStatusItem_new t (CanonicalNetworkId_new (Some 110) None (Some ''SomeDeviceA''))
      (interface_of None [] (link_of None ''SomeDeviceA'' Down))"
  let ?s = "link_of None ''SomeDeviceA'' Down"
  obtain db where db: "db_ok db" "counters_free db" "item_bag (links db) = {#link_A t, link_2 t#}" "item_bag (interfaces db) = {#?i#}"
    and run: "listened [link_A t, link_2 t] [?i] f af try_send now now' (link_state_message header DelLink 110 ''SomeDeviceA'' StateDown) ch =
      del_link now now' (110, ?s) \<lparr>database = db, subscribers = [] :: 'sub list, channels = ch\<rparr>"
    by (rule listened_message [of "[link_A t, link_2 t]" "[?i]" f af try_send now now' "link_state_message header DelLink 110 ''SomeDeviceA'' StateDown" ch])
      (simp_all add: item_simps received_link test_report)
  have "interface_on_link 110 (gone_link now ?s) db = Some ?i"
    using interface_on_link_few(2) [OF db(1,4)] by (simp add: item_simps interface_of_def)
  moreover have "interface_name (status ?i) = None" by (simp add: NetworkStatusItem_new_def)
  ultimately obtain st where st: "del_link now now' (110, ?s) \<lparr>database = db, subscribers = [] :: 'sub list, channels = ch\<rparr> = Ok st"
      "item_bag (links (database st)) = without (item_id (gone_link now ?s)) {#link_A t, link_2 t#}"
      "item_bag (interfaces (database st)) = without (item_id (interface_with_link now' None ?i (gone_link now ?s))) {#?i#}"
    using del_link_Ok [of "\<lparr>database = db, subscribers = [] :: 'sub list, channels = ch\<rparr>" now now' 110 ?s] db by (auto simp: Let_def)
  have "list_network_links g st = [link_of (Some ''SomeLink2'') ''SomeDevice2'' Up]"
    by (rule list_links_from [where es = "map (\<lambda>a. (item_id a, status a)) [link_2 t]"])
      (simp_all add: st(2) gone_link_of item_simps)
  moreover have "list_network_interfaces g st = []"
    by (rule list_interfaces_from [where es = "[]"]) (simp_all add: st(3) gone_link_of item_simps interface_of_def)
  ultimately show ?thesis by (simp add: test_interface_listener_remove_link_def run st(1))
qed

lemma listener_update_link_passes: "test_interface_listener_update_link f g af try_send t now now' header ch"
proof -
  let ?s = "link_of (Some ''SomeLink2'') ''SomeDevice2'' Down" and ?i = "odd_interface_2 t"
  obtain db where db: "db_ok db" "counters_free db" "item_bag (links db) = {#link_A t, link_2 t#}" "item_bag (interfaces db) = {#?i#}"
    and run: "listened [link_A t, link_2 t] [?i] f af try_send now now' (link_state_message header NewLink 101 ''SomeDevice2'' StateDown) ch =
      new_link try_send now now' (101, ?s) \<lparr>database = db, subscribers = [], channels = ch\<rparr>"
    by (rule listened_message [of "[link_A t, link_2 t]" "[?i]" f af try_send now now' "link_state_message header NewLink 101 ''SomeDevice2'' StateDown" ch])
      (simp_all add: item_simps received_link test_report)
  have "interface_on_link 101 (reported_link now 101 ?s) db = Some ?i"
    using interface_on_link_few(2) [OF db(1,4)] by (simp add: item_simps interface_of_def)
  with new_link_Ok [of "\<lparr>database = db, subscribers = [], channels = ch\<rparr>" try_send now now' 101 ?s] db
  obtain st where st: "new_link try_send now now' (101, ?s) \<lparr>database = db, subscribers = [], channels = ch\<rparr> = Ok st"
      "item_bag (links (database st)) = put_item (reported_link now 101 ?s) {#link_A t, link_2 t#}"
      "item_bag (interfaces (database st)) = put_item (interface_with_link now' (Some 101) ?i (reported_link now 101 ?s)) {#?i#}"
    by auto
  have "list_network_links g st = [link_of None ''SomeDeviceA'' Down, ?s]"
    by (rule list_links_from [where es = "map (\<lambda>a. (item_id a, status a)) [link_A t, reported_link now 101 ?s]"])
      (simp_all add: st(2) item_simps reported_link_def)
  moreover have "list_network_interfaces g st = [interface_of (Some ''NetworkInterface2'') [] ?s]"
    by (rule list_interfaces_from [where es = "map (\<lambda>a. (item_id a, status a)) [interface_with_link now' (Some 101) ?i (reported_link now 101 ?s)]"])
      (simp_all add: st(3) item_simps interface_of_def)
  ultimately show ?thesis by (simp add: test_interface_listener_update_link_def run st(1))
qed

lemma listener_address_passes:
  fixes ch :: 'ch and try_send :: "('sub, 'ch) sender"
  shows "test_interface_listener_new_address f g sample_families try_send t now now' header ch"
  "test_interface_listener_delete_address f g sample_families try_send t now now' header ch"
proof -
  let ?i = "odd_interface_2 t" and ?a = "IpAddress (V4 0xC0A80101) 24" and ?up = "link_of (Some ''SomeLink2'') ''SomeDevice2'' Up"
  have msg: "process_address sample_families \<lparr>am_family = 2, prefix_len = 24, am_index = 101, address_nlas = [AddressNla [192, 168, 1, 1]]\<rparr> =
      Some (101, ?a)"
    by (simp add: process_address_def from_be_bytes_def be_nat_def)
  have result: "\<exists>st. listened [link_2 t] [?i] f sample_families try_send now now'
        (address_of_message header kind (ucast (AF_INET sample_families)) 24 101 [192, 168, 1, 1]) ch = Ok st \<and>
      list_network_links g st = [?up] \<and> list_network_interfaces g st = [interface_of (Some ''NetworkInterface2'') (change []) ?up]"
    if kind: "kind = NewAddress \<and> change = (\<lambda>known. sort (known @ [?a])) \<or> kind = DelAddress \<and> change = remove1 ?a" for kind change
  proof -
    obtain db where db: "db_ok db" "counters_free db" "item_bag (links db) = {#link_2 t#}" "item_bag (interfaces db) = {#?i#}"
      and run: "listened [link_2 t] [?i] f sample_families try_send now now'
          (address_of_message header kind (ucast (AF_INET sample_families)) 24 101 [192, 168, 1, 1]) ch =
        with_addresses now change 101 \<lparr>database = db, subscribers = [] :: 'sub list, channels = ch\<rparr>"
      by (rule listened_message [of "[link_2 t]" "[?i]" f sample_families try_send now now'
            "address_of_message header kind (ucast (AF_INET sample_families)) 24 101 [192, 168, 1, 1]" ch])
        (use kind in \<open>auto simp: item_simps message_received_def address_of_message_def msg new_address_def del_address_def\<close>)
    have "?i \<in># item_bag (interfaces db)" "net_id (item_id ?i) = Some 101" by (simp_all add: db(4) item_simps)
    with with_addresses_replaces [of "\<lparr>database = db, subscribers = [] :: 'sub list, channels = ch\<rparr>" ?i 101 now change] db
    obtain st where st: "with_addresses now change 101 \<lparr>database = db, subscribers = [] :: 'sub list, channels = ch\<rparr> = Ok st"
        "links (database st) = links db"
        "item_bag (interfaces (database st)) =
           {#NetworkStatusItem_new now (item_id ?i) ((status ?i)\<lparr>status_addresses := change (status_addresses (status ?i))\<rparr>)#}"
      by (auto simp: counters_free_def)
    have "list_network_links g st = [?up]"
      by (rule list_links_from [where es = "map (\<lambda>a. (item_id a, status a)) [link_2 t]"])
        (simp_all add: st(2) db(3) item_simps)
    moreover have "list_network_interfaces g st = [interface_of (Some ''NetworkInterface2'') (change []) ?up]"
      by (rule list_interfaces_from [where es = "map (\<lambda>a. (item_id a, status a))
          [NetworkStatusItem_new now (item_id ?i) ((status ?i)\<lparr>status_addresses := change (status_addresses (status ?i))\<rparr>)]"])
        (simp_all add: st(3) item_simps interface_of_def)
    ultimately show ?thesis using run st(1) by simp
  qed
  from result [of NewAddress "\<lambda>known. sort (known @ [?a])"]
  show "test_interface_listener_new_address f g sample_families try_send t now now' header ch"
    by (auto simp: test_interface_listener_new_address_def)
  from result [of DelAddress "remove1 ?a"]
  show "test_interface_listener_delete_address f g sample_families try_send t now now' header ch"
    by (auto simp: test_interface_listener_delete_address_def)
qed

section \<open>A manager without configuration\<close>

definition test_interface_manager_list_empty ::
  "order_choice \<Rightarrow> order_choice \<Rightarrow> poll_env \<Rightarrow> ('sub, 'ch) sender \<Rightarrow> 'ch \<Rightarrow> bool" where
  "test_interface_manager_list_empty f g env try_send ch =
     (case InterfaceManager_new (Ok ()) f env empty_config try_send (Ok []) (Ok []) ch of
        Ok m \<Rightarrow> list_network_links g (shared m) = [] \<and> list_network_interfaces g (shared m) = []
      | _ \<Rightarrow> False)"

lemma list_empty_passes: "test_interface_manager_list_empty f g env try_send ch"
proof -
  have cfg: "config_ok empty_config" "devices_distinct empty_config" "interfaces_distinct empty_config"
    by (simp_all add: config_ok_def devices_distinct_def interfaces_distinct_def empty_config_def)
  have rs: "reports (NetlinkMessageProcessor_new f empty_config) [] = []" "reports_distinct []"
    by (simp_all add: reports_def reports_distinct_def List.map_filter_simps)
  have len: "length ([] :: NetlinkMessage list) + length ([] :: NetlinkMessage list) + length (network_links empty_config)
      + length (network_interfaces empty_config) < 2 ^ 64"
    by (simp add: empty_config_def)
  have none: "expected_list empty_config [] = []" "expected_interface_list empty_config [] (given (families env) []) = []"
    by (simp_all add: expected_list_def expected_interface_list_def empty_config_def)
  obtain st where
    "poll env empty_config (NetlinkMessageProcessor_new f empty_config) try_send (Ok []) (Ok []) (manager_new ch) = Ok st"
    "image_mset (\<lambda>a. (item_id a, status a)) (item_bag (links (database st))) = mset []"
    "image_mset (\<lambda>a. (item_id a, status a)) (item_bag (interfaces (database st))) = mset []"
    by (rule first_scan_lists [OF cfg rs len none(1) _ none(2)]) simp_all
  with list_links_from [of st "[]" "[]" g] list_interfaces_from [of st "[]" "[]" g] show ?thesis
    by (simp add: test_interface_manager_list_empty_def InterfaceManager_new_def)
qed

end
