(* ===== verification/Interface_Update_Test.thy ===== *)
theory Interface_Update_Test
  imports Interface_Tests
begin

text \<open>
  The test \<open>test_interface_manager_worker_interfaces_update\<close> of \<open>interface/mod.rs\<close>: two scans of a manager, the
  second with other answers, and in between one link and its interface are set back in time. It passes if the
  second scan comes within \<open>ENTROPY_HOLD_PERIOD_SECONDS\<close> of the first.
\<close>

section \<open>The test\<close>

definition NetworkStatusItem_new_with_refresh :: "CanonicalNetworkId \<Rightarrow> 'a \<Rightarrow> instant \<Rightarrow> 'a NetworkStatusItem" where
  "NetworkStatusItem_new_with_refresh i s t = \<lparr>item_id = i, status = s, refreshed = t\<rparr>"

definition update_config :: Router where
  "update_config =
     \<lparr>network_links =
        [(''SomeLink2'', generic_link ''SomeDevice2''), (''SomeLink3'', generic_link ''SomeDevice3''),
         (''SomeLink5'', generic_link ''SomeDevice5''), (''SomeLink6'', generic_link ''SomeDevice6''),
         (''SomeLink7'', generic_link ''SomeDevice7''), (''SomeLink8'', generic_link ''SomeDevice8''),
         (''SomeLink9'', generic_link ''SomeDevice9'')],
      network_interfaces =
        [(''SomeInterface4'', plain_interface ''SomeLink4''), (''SomeInterface5'', plain_interface ''SomeLink5''),
         (''SomeInterface6'', plain_interface ''SomeLink6''), (''SomeInterface7'', plain_interface ''SomeLink7''),
         (''SomeInterface9'', plain_interface ''SomeLink9'')],
      vrfs = []\<rparr>"

definition update_first_links :: "NetlinkMessage \<Rightarrow> NetlinkMessage list" where
  "update_first_links header =
     [link_state_message header NewLink 100 ''SomeDevice1'' StateUp, link_state_message header NewLink 101 ''SomeDevice2'' StateDown,
      link_state_message header NewLink 105 ''SomeDevice5'' StateDown, link_state_message header NewLink 107 ''SomeDevice7'' StateUp,
      link_state_message header NewLink 108 ''SomeDevice8'' StateUp, link_state_message header NewLink 109 ''SomeDevice9'' StateDown,
      link_state_message header NewLink 110 ''SomeDeviceA'' StateDown]"

definition update_first_addresses :: "NetlinkMessage \<Rightarrow> address_families \<Rightarrow> NetlinkMessage list" where
  "update_first_addresses header af =
     [address_of_message header NewAddress (ucast (AF_INET af)) 20 107 [1, 2, 3, 4],
      address_of_message header NewAddress (ucast (AF_INET af)) 32 108 [2, 3, 4, 5],
      address_of_message header NewAddress (ucast (AF_INET af)) 32 110 [3, 4, 5, 6]]"

definition update_second_links :: "NetlinkMessage \<Rightarrow> NetlinkMessage list" where
  "update_second_links header =
     [link_state_message header NewLink 101 ''SomeDevice2'' StateUp, link_state_message header NewLink 105 ''SomeDevice5'' StateDown,
      link_state_message header NewLink 107 ''SomeDevice7'' StateUp, link_state_message header NewLink 108 ''SomeDevice8'' StateUp,
      link_state_message header NewLink 109 ''SomeDevice9'' StateUp]"

definition update_second_addresses :: "NetlinkMessage \<Rightarrow> address_families \<Rightarrow> NetlinkMessage list" where
  "update_second_addresses header af =
     [address_of_message header NewAddress (ucast (AF_INET af)) 20 107 [1, 2, 3, 4],
      address_of_message header NewAddress (ucast (AF_INET af)) 32 108 [2, 3, 4, 5]]"

definition aged_link :: "instant \<Rightarrow> link_item" where
  "aged_link now = NetworkStatusItem_new_with_refresh (CanonicalNetworkId_new (Some 109) (Some ''SomeLink9'') (Some ''SomeDevice9''))
     (link_of (Some ''SomeLink9'') ''SomeDevice9'' Down) (now - 11 * 1000000000)"

definition aged_interface :: "instant \<Rightarrow> interface_item" where
  "aged_interface now = NetworkStatusItem_new_with_refresh
     (CanonicalNetworkId_new (Some 109) (Some ''SomeInterface9'') (Some ''SomeDevice9''))
     (interface_of (Some ''SomeInterface9'') [] (link_of (Some ''SomeLink9'') ''SomeDevice9'' Down)) (now - 11 * 1000000000)"

definition update_links :: "NetworkLinkStatus list" where
  "update_links =
     [link_of (Some ''SomeLink2'') ''SomeDevice2'' Down, link_of (Some ''SomeLink3'') ''SomeDevice3'' NotFound,
      link_of (Some ''SomeLink5'') ''SomeDevice5'' Down, link_of (Some ''SomeLink6'') ''SomeDevice6'' NotFound,
      link_of (Some ''SomeLink7'') ''SomeDevice7'' Up, link_of (Some ''SomeLink8'') ''SomeDevice8'' Up,
      link_of (Some ''SomeLink9'') ''SomeDevice9'' Up]"

definition update_interfaces :: "NetworkInterfaceStatus list" where
  "update_interfaces =
     [interface_of None [IpAddress (V4 0x02030405) 32] (link_of (Some ''SomeLink8'') ''SomeDevice8'' Up),
      interface_of (Some ''SomeInterface4'') [] (link_of (Some ''SomeLink4'') [] Misconfigured),
      interface_of (Some ''SomeInterface5'') [] (link_of (Some ''SomeLink5'') ''SomeDevice5'' Down),
      interface_of (Some ''SomeInterface6'') [] (link_of (Some ''SomeLink6'') ''SomeDevice6'' NotFound),
      interface_of (Some ''SomeInterface7'') [IpAddress (V4 0x01020304) 20] (link_of (Some ''SomeLink7'') ''SomeDevice7'' Up),
      interface_of (Some ''SomeInterface9'') [] (link_of (Some ''SomeLink9'') ''SomeDevice9'' Up)]"

text \<open>\<open>env\<close> and \<open>env'\<close> are those of the scans, \<open>now\<close> and \<open>now'\<close> the readings of the clock in between.\<close>

definition test_interface_manager_worker_interfaces_update ::
  "order_choice \<Rightarrow> order_choice \<Rightarrow> poll_env \<Rightarrow> poll_env \<Rightarrow> instant \<Rightarrow> instant \<Rightarrow> ('sub, 'ch) sender \<Rightarrow> 'ch \<Rightarrow> NetlinkMessage \<Rightarrow> bool" where
  "test_interface_manager_worker_interfaces_update f g env env' now now' try_send ch header =
     (let p = NetlinkMessageProcessor_new f update_config
      in case obind (poll env update_config p try_send (Ok (update_first_links header))
                (Ok (update_first_addresses header (families env))) (manager_new ch)) (\<lambda>st.
              obind (set_link_status_item (aged_link now) (database st)) (\<lambda>(db, deleted).
              obind (set_interface_status_item (aged_interface now') db) (\<lambda>(db, deleted).
              poll env' update_config p try_send (Ok (update_second_links header))
                (Ok (update_second_addresses header (families env'))) (st\<lparr>database := db\<rparr>)))) of
           Ok st \<Rightarrow> list_network_links g st = update_links \<and> list_network_interfaces g st = update_interfaces
         | _ \<Rightarrow> False)"

section \<open>What the answers report\<close>

abbreviation first_reports :: "(u64 \<times> NetworkLinkStatus) list" where
  "first_reports \<equiv>
     [(100, link_of None ''SomeDevice1'' Up), (101, link_of (Some ''SomeLink2'') ''SomeDevice2'' Down),
      (105, link_of (Some ''SomeLink5'') ''SomeDevice5'' Down), (107, link_of (Some ''SomeLink7'') ''SomeDevice7'' Up),
      (108, link_of (Some ''SomeLink8'') ''SomeDevice8'' Up), (109, link_of (Some ''SomeLink9'') ''SomeDevice9'' Down),
      (110, link_of None ''SomeDeviceA'' Down)]"

abbreviation second_reports :: "NetworkLinkOperationalState \<Rightarrow> (u64 \<times> NetworkLinkStatus) list" where
  "second_reports state_2 \<equiv>
     [(101, link_of (Some ''SomeLink2'') ''SomeDevice2'' state_2), (105, link_of (Some ''SomeLink5'') ''SomeDevice5'' Down),
      (107, link_of (Some ''SomeLink7'') ''SomeDevice7'' Up), (108, link_of (Some ''SomeLink8'') ''SomeDevice8'' Up),
      (109, link_of (Some ''SomeLink9'') ''SomeDevice9'' Up)]"

definition known_addresses :: "(u64 \<Rightarrow> IpAddress list)" where
  "known_addresses i = (if i = 107 then [IpAddress (V4 0x01020304) 20] else if i = 108 then [IpAddress (V4 0x02030405) 32] else [])"

lemma update_config:
  "config_ok update_config" "devices_distinct update_config" "interfaces_distinct update_config"
  by (simp_all add: config_ok_def devices_distinct_def interfaces_distinct_def update_config_def)

lemma update_reports:
  "reports (NetlinkMessageProcessor_new f update_config) (update_first_links header) = first_reports"
  "reports (NetlinkMessageProcessor_new f update_config) (update_second_links header) = second_reports Up"
  by (simp_all add: reports_def update_first_links_def update_second_links_def List.map_filter_simps link_message_report [OF update_config(2)])
    (simp_all add: update_config_def)

lemma update_reports_distinct: "reports_distinct first_reports" "reports_distinct (second_reports state)"
  by (simp_all add: reports_distinct_def)

lemma update_known:
  "given sample_families (update_first_addresses header sample_families) = known_addresses(110 := [IpAddress (V4 0x03040506) 32])"
  "given sample_families (update_second_addresses header sample_families) = known_addresses"
  by (simp_all add: fun_eq_iff known_addresses_def given_def update_first_addresses_def update_second_addresses_def address_of_message_def
      List.map_filter_simps process_address_def from_be_bytes_def be_nat_def)

lemma update_lengths:
  "length (update_first_links header) + length (update_first_addresses header af) + length (network_links update_config) +
     length (network_interfaces update_config) + 1 < 2 ^ 64"
  "length (update_second_links header) + length (update_second_addresses header af) + length (network_links update_config) +
     length (network_interfaces update_config) < 2 ^ 64"
  by (simp_all add: update_first_links_def update_first_addresses_def update_second_links_def update_second_addresses_def update_config_def)

text \<open>The identifiers and statuses that the scans expect.\<close>

lemma first_list:
  "expected_list update_config first_reports =
     [(CanonicalNetworkId_new (Some 100) None (Some ''SomeDevice1''), link_of None ''SomeDevice1'' Up),
      (CanonicalNetworkId_new (Some 101) (Some ''SomeLink2'') (Some ''SomeDevice2''), link_of (Some ''SomeLink2'') ''SomeDevice2'' Down),
      (CanonicalNetworkId_new (Some 105) (Some ''SomeLink5'') (Some ''SomeDevice5''), link_of (Some ''SomeLink5'') ''SomeDevice5'' Down),
      (CanonicalNetworkId_new (Some 107) (Some ''SomeLink7'') (Some ''SomeDevice7''), link_of (Some ''SomeLink7'') ''SomeDevice7'' Up),
      (CanonicalNetworkId_new (Some 108) (Some ''SomeLink8'') (Some ''SomeDevice8''), link_of (Some ''SomeLink8'') ''SomeDevice8'' Up),
      (CanonicalNetworkId_new (Some 109) (Some ''SomeLink9'') (Some ''SomeDevice9''), link_of (Some ''SomeLink9'') ''SomeDevice9'' Down),
      (CanonicalNetworkId_new (Some 110) None (Some ''SomeDeviceA''), link_of None ''SomeDeviceA'' Down),
      (CanonicalNetworkId_new None (Some ''SomeLink3'') (Some ''SomeDevice3''), link_of (Some ''SomeLink3'') ''SomeDevice3'' NotFound),
      (CanonicalNetworkId_new None (Some ''SomeLink6'') (Some ''SomeDevice6''), link_of (Some ''SomeLink6'') ''SomeDevice6'' NotFound)]"
  by (simp add: expected_list_def update_config_def report_entry_def missing_entry_def link_of_def)

lemma second_list:
  "expected_list update_config (second_reports state) =
     [(CanonicalNetworkId_new (Some 101) (Some ''SomeLink2'') (Some ''SomeDevice2''), link_of (Some ''SomeLink2'') ''SomeDevice2'' state),
      (CanonicalNetworkId_new (Some 105) (Some ''SomeLink5'') (Some ''SomeDevice5''), link_of (Some ''SomeLink5'') ''SomeDevice5'' Down),
      (CanonicalNetworkId_new (Some 107) (Some ''SomeLink7'') (Some ''SomeDevice7''), link_of (Some ''SomeLink7'') ''SomeDevice7'' Up),
      (CanonicalNetworkId_new (Some 108) (Some ''SomeLink8'') (Some ''SomeDevice8''), link_of (Some ''SomeLink8'') ''SomeDevice8'' Up),
      (CanonicalNetworkId_new (Some 109) (Some ''SomeLink9'') (Some ''SomeDevice9''), link_of (Some ''SomeLink9'') ''SomeDevice9'' Up),
      (CanonicalNetworkId_new None (Some ''SomeLink3'') (Some ''SomeDevice3''), link_of (Some ''SomeLink3'') ''SomeDevice3'' NotFound),
      (CanonicalNetworkId_new None (Some ''SomeLink6'') (Some ''SomeDevice6''), link_of (Some ''SomeLink6'') ''SomeDevice6'' NotFound)]"
  by (simp add: expected_list_def update_config_def report_entry_def missing_entry_def link_of_def)

lemmas interface_list_simps = expected_interface_list_def update_config_def configured_entry_def unassigned_entry_def link_report_def
  known_addresses_def

abbreviation listed_interface :: "u64 option \<Rightarrow> string option \<Rightarrow> string \<Rightarrow> IpAddress list \<Rightarrow> NetworkLinkStatus \<Rightarrow> CanonicalNetworkId \<times> NetworkInterfaceStatus" where
  "listed_interface i name device addresses link \<equiv> (CanonicalNetworkId_new i name (Some device), interface_of name addresses link)"

lemma first_interface_list:
  "expected_interface_list update_config first_reports (known_addresses(110 := [IpAddress (V4 0x03040506) 32])) =
     [(CanonicalNetworkId_new None (Some ''SomeInterface4'') None, interface_of (Some ''SomeInterface4'') [] (link_of (Some ''SomeLink4'') [] Misconfigured)),
      listed_interface (Some 105) (Some ''SomeInterface5'') ''SomeDevice5'' [] (link_of (Some ''SomeLink5'') ''SomeDevice5'' Down),
      listed_interface None (Some ''SomeInterface6'') ''SomeDevice6'' [] (link_of (Some ''SomeLink6'') ''SomeDevice6'' NotFound),
      listed_interface (Some 107) (Some ''SomeInterface7'') ''SomeDevice7'' [IpAddress (V4 0x01020304) 20] (link_of (Some ''SomeLink7'') ''SomeDevice7'' Up),
      listed_interface (Some 109) (Some ''SomeInterface9'') ''SomeDevice9'' [] (link_of (Some ''SomeLink9'') ''SomeDevice9'' Down),
      listed_interface (Some 108) None ''SomeDevice8'' [IpAddress (V4 0x02030405) 32] (link_of (Some ''SomeLink8'') ''SomeDevice8'' Up),
      listed_interface (Some 110) None ''SomeDeviceA'' [IpAddress (V4 0x03040506) 32] (link_of None ''SomeDeviceA'' Down)]"
  by (simp add: interface_list_simps) (simp add: link_of_def interface_of_def generic_link_def)

lemma second_interface_list:
  "expected_interface_list update_config (second_reports Up) known_addresses =
     [(CanonicalNetworkId_new None (Some ''SomeInterface4'') None, interface_of (Some ''SomeInterface4'') [] (link_of (Some ''SomeLink4'') [] Misconfigured)),
      listed_interface (Some 105) (Some ''SomeInterface5'') ''SomeDevice5'' [] (link_of (Some ''SomeLink5'') ''SomeDevice5'' Down),
      listed_interface None (Some ''SomeInterface6'') ''SomeDevice6'' [] (link_of (Some ''SomeLink6'') ''SomeDevice6'' NotFound),
      listed_interface (Some 107) (Some ''SomeInterface7'') ''SomeDevice7'' [IpAddress (V4 0x01020304) 20] (link_of (Some ''SomeLink7'') ''SomeDevice7'' Up),
      listed_interface (Some 109) (Some ''SomeInterface9'') ''SomeDevice9'' [] (link_of (Some ''SomeLink9'') ''SomeDevice9'' Up),
      listed_interface (Some 108) None ''SomeDevice8'' [IpAddress (V4 0x02030405) 32] (link_of (Some ''SomeLink8'') ''SomeDevice8'' Up)]"
  by (simp add: interface_list_simps) (simp add: link_of_def interface_of_def generic_link_def)

section \<open>The two scans\<close>

lemma manager_new_facts:
  "db_ok (database (manager_new ch))" "item_bag (links (database (manager_new ch))) = {#}"
  "item_bag (interfaces (database (manager_new ch))) = {#}"
  by (simp_all add: manager_new_def InterfaceManagerDatabase_new_def empty_table_def item_bag_def)
    (simp add: db_new_ok [unfolded InterfaceManagerDatabase_new_def empty_table_def])

lemma scan_made_at:
  assumes "poll env config p try_send link_reply address_reply (manager_new ch) = Ok st"
  shows "items_all (\<lambda>a. refreshed a \<in> env_times env) (\<lambda>a. refreshed a \<in> env_times env) (database st)"
proof -
  let ?P = "\<lambda>a. refreshed a \<in> env_times env"
  have "db_ok (database st) \<and> items_all ?P (\<lambda>a. refreshed a \<in> env_times env) (database st)"
  proof (rule poll_all [OF manager_new_facts(1) _ _ assms])
    show "(\<forall>(i, x) \<in> set all_links. refreshed x \<in> env_times env) \<and> (\<forall>(i, x) \<in> set all_interfaces. refreshed x \<in> env_times env)"
      if "gather env config p link_data network_data = (all_links, all_interfaces)" for link_data network_data all_links all_interfaces
      using gather_times [OF that] gather_interface_times [OF that] by (fastforce simp: made_at_def env_times_def)
  qed (simp add: items_all_def manager_new_facts(2,3))
  then show ?thesis by simp
qed

lemma update_first_scan:
  fixes ch :: 'ch and try_send :: "('sub, 'ch) sender"
  assumes "families env = sample_families"
  obtains st where
    "poll env update_config (NetlinkMessageProcessor_new f update_config) try_send (Ok (update_first_links header))
       (Ok (update_first_addresses header (families env))) (manager_new ch) = Ok st"
    "db_ok (database st)" "counters_below 1 (database st)"
    "items_all (\<lambda>a. refreshed a \<in> env_times env) (\<lambda>a. refreshed a \<in> env_times env) (database st)"
    "image_mset (\<lambda>a. (item_id a, status a)) (item_bag (links (database st))) = mset (expected_list update_config first_reports)"
    "image_mset (\<lambda>a. (item_id a, status a)) (item_bag (interfaces (database st))) =
       mset (expected_interface_list update_config first_reports (known_addresses(110 := [IpAddress (V4 0x03040506) 32])))"
proof -
  note len = update_lengths(1) [of header "families env"]
  have "distinct (expected_list update_config first_reports)"
    unfolding first_list by (simp add: CanonicalNetworkId_new_def)
  moreover have "expected_interface_list update_config first_reports
      (given (families env) (update_first_addresses header (families env))) =
      expected_interface_list update_config first_reports (known_addresses(110 := [IpAddress (V4 0x03040506) 32]))"
    unfolding assms update_known ..
  moreover have "distinct (expected_interface_list update_config first_reports (known_addresses(110 := [IpAddress (V4 0x03040506) 32])))"
    unfolding first_interface_list by (simp add: CanonicalNetworkId_new_def)
  ultimately obtain st where st:
    "poll env update_config (NetlinkMessageProcessor_new f update_config) try_send (Ok (update_first_links header))
       (Ok (update_first_addresses header (families env))) (manager_new ch :: ('sub, 'ch) manager) = Ok st"
    "db_ok (database st)"
    "image_mset (\<lambda>a. (item_id a, status a)) (item_bag (links (database st))) = mset (expected_list update_config first_reports)"
    "image_mset (\<lambda>a. (item_id a, status a)) (item_bag (interfaces (database st))) =
       mset (expected_interface_list update_config first_reports (known_addresses(110 := [IpAddress (V4 0x03040506) 32])))"
    by (rule first_scan_lists [OF update_config update_reports(1) update_reports_distinct(1) add_lessD1 [OF len] refl])
  have "counters_below 1 (database st)"
    using scan_counters [OF manager_new_facts(1) [of ch] len, where p = "NetlinkMessageProcessor_new f update_config" and try_send = try_send
        and env = env] st(1) by simp
  from that [OF st(1,2) this scan_made_at [OF st(1)] st(3,4)] show ?thesis .
qed

lemma update_set_back:
  assumes "db_ok db" "counters_below 1 db"
  obtains db1 db2 d1 d2 where
    "set_link_status_item x db = Ok (db1, d1)" "set_interface_status_item y db1 = Ok (db2, d2)" "db_ok db2"
    "item_bag (links db2) = put_item x (item_bag (links db))" "item_bag (interfaces db2) = put_item y (item_bag (interfaces db))"
proof -
  have free: "next_index (links db) \<noteq> - 1" "next_index (interfaces db) \<noteq> - 1"
    using counters_below_free [of 0 db] assms(2) by (simp_all add: counters_free_def)
  from link_store.put_returns [OF assms(1) free(1)] obtain db1 d1 where 1: "set_link_status_item x db = Ok (db1, d1)" by blast
  note ok = link_store.put_Ok [OF assms(1) 1] link_frame(1) [OF 1]
  from interface_store.put_returns [of db1] ok free(2) obtain db2 d2 where 2: "set_interface_status_item y db1 = Ok (db2, d2)"
    by fastforce
  from interface_store.put_Ok [OF _ 2] interface_frame(1) [OF 2] ok that [OF 1 2] show ?thesis by simp
qed

text \<open>What a scan leaves when the items it keeps are known.\<close>

lemma kept_or_new:
  assumes "image_mset item_id M' = mset_set (fst ` E)"
    and "\<forall>a \<in># M'. (item_id a, status a) \<in> E \<or> a \<in># M \<and> (\<exists>t \<in> ticks. t \<le> refreshed a + hold_period)"
    and "\<And>a. a \<in># M \<Longrightarrow> item_id a \<in> fst ` E \<Longrightarrow> \<exists>t \<in> ticks. t \<le> refreshed a + hold_period \<Longrightarrow> (item_id a, status a) \<in> E'"
    and "\<And>a. a \<in># M' \<Longrightarrow> (item_id a, status a) \<in> E \<Longrightarrow> (item_id a, status a) \<in> E'"
    and "fst ` E = fst ` E'" "inj_on fst E'" "finite E"
  shows "image_mset (\<lambda>a. (item_id a, status a)) M' = mset_set E'"
proof (rule bag_exact [OF _ _ assms(6)])
  show "image_mset item_id M' = mset_set (fst ` E')" using assms(1,5) by simp
  have "item_id a \<in> fst ` E" if "a \<in># M'" for a
  proof -
    have "item_id a \<in># image_mset item_id M'" using that by simp
    with assms(7) show ?thesis by (simp add: assms(1))
  qed
  with assms(2-4) show "\<forall>a \<in># M'. (item_id a, status a) \<in> E'" by blast
qed

lemma set_back_entries:
  assumes "image_mset (\<lambda>a. (item_id a, status a)) M = mset es" "a \<in># put_item x M" "a \<noteq> x"
  shows "(item_id a, status a) \<in> set es" "a \<in># M" "\<not> conflicts (item_id x) (item_id a)"
proof -
  show 1: "a \<in># M" and "\<not> conflicts (item_id x) (item_id a)" using assms(2,3) by (auto simp: put_item_def)
  from 1 assms(1) show "(item_id a, status a) \<in> set es" by (metis (mono_tags, lifting) image_eqI set_image_mset set_mset_mset)
qed

lemma kept_entries:
  "\<forall>e \<in> set (expected_list update_config first_reports). \<not> conflicts (item_id (aged_link now)) (fst e) \<longrightarrow>
     fst e \<in> set (map fst (expected_list update_config (second_reports Up))) \<longrightarrow> e \<in> set (expected_list update_config (second_reports Down))"
  unfolding first_list second_list aged_link_def NetworkStatusItem_new_with_refresh_def CanonicalNetworkId_new_def
  by (simp add: conflicts_def same_key_def)

lemma kept_interface_entries:
  "\<forall>e \<in> set (expected_interface_list update_config first_reports (known_addresses(110 := [IpAddress (V4 0x03040506) 32]))).
     \<not> conflicts (item_id (aged_interface now)) (fst e) \<longrightarrow>
     fst e \<in> set (map fst (expected_interface_list update_config (second_reports Up) known_addresses)) \<longrightarrow>
     e \<in> set (expected_interface_list update_config (second_reports Up) known_addresses)"
  unfolding first_interface_list second_interface_list aged_interface_def NetworkStatusItem_new_with_refresh_def CanonicalNetworkId_new_def
  by (simp add: conflicts_def same_key_def)

lemma changed_entry:
  "\<forall>e \<in> set (expected_list update_config (second_reports Up)). e \<in> set (expected_list update_config (second_reports Down)) \<or>
     e = (CanonicalNetworkId_new (Some 101) (Some ''SomeLink2'') (Some ''SomeDevice2''), link_of (Some ''SomeLink2'') ''SomeDevice2'' Up)"
  unfolding second_list by simp

lemma second_ids: "fst ` expected update_config (second_reports Up) = fst ` expected update_config (second_reports Down)"
  unfolding set_expected_list [symmetric] second_list by simp

section \<open>It passes\<close>

lemma update_second_links_kept:
  assumes "db_ok (database st)" "image_mset (\<lambda>a. (item_id a, status a)) M = mset (expected_list update_config first_reports)"
    and "item_bag (links (database st)) = put_item (aged_link now) M" "11 * 1000000000 \<le> now" "\<forall>t \<in> scan_times env. now \<le> t"
    and "\<forall>a \<in># M. \<forall>t \<in> scan_times env. t \<le> refreshed a + hold_period"
    and "poll env update_config (NetlinkMessageProcessor_new f update_config) try_send (Ok (update_second_links header))
       (Ok (update_second_addresses header (families env))) st = Ok st'"
  shows "image_mset (\<lambda>a. (item_id a, status a)) (item_bag (links (database st'))) =
    mset (expected_list update_config (second_reports Down))"
proof -
  let ?E = "expected update_config (second_reports Up)" and ?E' = "expected update_config (second_reports Down)"
  let ?e2 = "(CanonicalNetworkId_new (Some 101) (Some ''SomeLink2'') (Some ''SomeDevice2''), link_of (Some ''SomeLink2'') ''SomeDevice2'' Down)"
  note len = update_lengths(2) [of header "families env"]
  note rs = update_reports_distinct(2) [of Up, folded update_reports(2) [of f header]]
  have 1: "db_ok (database st')" "image_mset item_id (item_bag (links (database st'))) = mset_set (fst ` ?E)"
      "\<forall>a \<in># item_bag (links (database st')). (item_id a, status a) \<in> ?E \<or>
         a \<in># put_item (aged_link now) M \<and> (\<exists>t \<in> scan_times env. t \<le> refreshed a + hold_period)"
    using scan_links_settle [OF assms(1) update_config(1,2) rs len, of env try_send] assms(7)
    unfolding update_reports(2) assms(3) by auto
  have "?e2 \<in> set (expected_list update_config first_reports)" by (simp add: first_list)
  then have "?e2 \<in># image_mset (\<lambda>a. (item_id a, status a)) M" by (simp add: assms(2))
  then obtain a2 where a2: "a2 \<in># M" "item_id a2 = fst ?e2" "status a2 = snd ?e2" by auto
  have "a2 \<in># item_bag (links (database st))"
    using a2 by (simp add: assms(3) put_item_def aged_link_def NetworkStatusItem_new_with_refresh_def CanonicalNetworkId_new_def
        conflicts_def same_key_def)
  moreover have "item_id a2 \<in> fst ` ?E"
    unfolding set_expected_list [symmetric] second_list using a2(2) by simp
  ultimately have kept: "a2 \<in># item_bag (links (database st'))"
    using scan_keeps_recent [OF assms(1) update_config(1,2) rs len, of a2 env try_send] assms(6,7) a2(1)
    unfolding update_reports(2) by auto
  have "image_mset (\<lambda>a. (item_id a, status a)) (item_bag (links (database st'))) = mset_set ?E'"
  proof (rule kept_or_new [OF 1(2,3)])
    show "(item_id a, status a) \<in> ?E'"
      if "a \<in># put_item (aged_link now) M" "item_id a \<in> fst ` ?E" "\<exists>t \<in> scan_times env. t \<le> refreshed a + hold_period" for a
    proof -
      have "a \<noteq> aged_link now"
        using that(3) assms(4,5) by (force simp: aged_link_def NetworkStatusItem_new_with_refresh_def hold_period_def)
      from set_back_entries [OF assms(2) that(1) this] bspec [OF kept_entries] that(2) show ?thesis
        by (simp add: set_expected_list)
    qed
    show "(item_id a, status a) \<in> ?E'" if "a \<in># item_bag (links (database st'))" "(item_id a, status a) \<in> ?E" for a
    proof (cases "item_id a = fst ?e2")
      case True
      have "conflicts (fst ?e2) (fst ?e2)" by (simp add: CanonicalNetworkId_new_def conflicts_def same_key_def)
      with link_store.unique_id [OF 1(1) that(1) kept] True a2(2) have "a = a2" by simp
      with a2(2,3) show ?thesis unfolding set_expected_list [symmetric] second_list by simp
    next
      case False
      with bspec [OF changed_entry, of "(item_id a, status a)"] that(2) show ?thesis by (auto simp: set_expected_list)
    qed
    show "fst ` ?E = fst ` ?E'" by (rule second_ids)
    show "inj_on fst ?E'" by (rule expected_inj [OF update_config(1) update_reports_distinct(2)])
    show "finite ?E" by (simp add: set_expected_list [symmetric])
  qed
  moreover have "distinct (expected_list update_config (second_reports Down))"
    unfolding second_list by (simp add: CanonicalNetworkId_new_def)
  ultimately show ?thesis by (simp add: set_expected_list [symmetric] mset_set_set)
qed

lemma update_second_interfaces_kept:
  assumes "db_ok (database st)"
    and "image_mset (\<lambda>a. (item_id a, status a)) M =
       mset (expected_interface_list update_config first_reports (known_addresses(110 := [IpAddress (V4 0x03040506) 32])))"
    and "item_bag (interfaces (database st)) = put_item (aged_interface now) M" "11 * 1000000000 \<le> now" "\<forall>t \<in> interface_times env. now \<le> t"
    and "families env = sample_families"
    and "poll env update_config (NetlinkMessageProcessor_new f update_config) try_send (Ok (update_second_links header))
       (Ok (update_second_addresses header (families env))) st = Ok st'"
  shows "image_mset (\<lambda>a. (item_id a, status a)) (item_bag (interfaces (database st'))) =
    mset (expected_interface_list update_config (second_reports Up) known_addresses)"
proof -
  let ?L = "expected_interface_list update_config (second_reports Up) known_addresses"
  let ?E = "expected_interfaces update_config (second_reports Up) known_addresses"
  note len = update_lengths(2) [of header "families env"]
  note rs = update_reports_distinct(2) [of Up, folded update_reports(2) [of f header]]
  have 1: "image_mset item_id (item_bag (interfaces (database st'))) = mset_set (fst ` ?E)"
      "\<forall>a \<in># item_bag (interfaces (database st')). (item_id a, status a) \<in> ?E \<or>
         a \<in># put_item (aged_interface now) M \<and> (\<exists>t \<in> interface_times env. t \<le> refreshed a + hold_period)"
    using scan_interfaces_settle [OF assms(1) update_config rs len, of env try_send] assms(7)
    unfolding update_reports(2) assms(3,6) update_known(2) by auto
  have "image_mset (\<lambda>a. (item_id a, status a)) (item_bag (interfaces (database st'))) = mset_set ?E"
  proof (rule kept_or_new [OF 1])
    show "(item_id a, status a) \<in> ?E"
      if "a \<in># put_item (aged_interface now) M" "item_id a \<in> fst ` ?E" "\<exists>t \<in> interface_times env. t \<le> refreshed a + hold_period" for a
    proof -
      have "a \<noteq> aged_interface now"
        using that(3) assms(4,5) by (force simp: aged_interface_def NetworkStatusItem_new_with_refresh_def hold_period_def)
      from set_back_entries [OF assms(2) that(1) this] bspec [OF kept_interface_entries] that(2) show ?thesis
        by (simp add: set_expected_interface_list)
    qed
    show "inj_on fst ?E" by (rule expected_interfaces_inj [OF update_config(1) update_reports_distinct(2)])
    show "finite ?E" by (simp add: set_expected_interface_list [symmetric])
  qed simp_all
  moreover have "distinct ?L"
    unfolding second_interface_list by (simp add: CanonicalNetworkId_new_def)
  ultimately show ?thesis by (simp add: set_expected_interface_list [symmetric] mset_set_set)
qed

lemma worker_interfaces_update_passes:
  fixes ch :: 'ch and try_send :: "('sub, 'ch) sender"
  assumes "families env = sample_families" "families env' = sample_families"
    and "\<forall>t \<in> env_times env. \<forall>t' \<in> env_times env'. t' \<le> t + hold_period"
    and "11 * 1000000000 \<le> now" "11 * 1000000000 \<le> now'" "\<forall>t' \<in> env_times env'. now \<le> t' \<and> now' \<le> t'"
  shows "test_interface_manager_worker_interfaces_update f g env env' now now' try_send ch header"
proof -
  obtain st where
    1: "poll env update_config (NetlinkMessageProcessor_new f update_config) try_send (Ok (update_first_links header))
        (Ok (update_first_addresses header (families env))) (manager_new ch :: ('sub, 'ch) manager) = Ok st"
      "db_ok (database st)" "counters_below 1 (database st)"
      "items_all (\<lambda>a. refreshed a \<in> env_times env) (\<lambda>a. refreshed a \<in> env_times env) (database st)"
      "image_mset (\<lambda>a. (item_id a, status a)) (item_bag (links (database st))) = mset (expected_list update_config first_reports)"
      "image_mset (\<lambda>a. (item_id a, status a)) (item_bag (interfaces (database st))) =
         mset (expected_interface_list update_config first_reports (known_addresses(110 := [IpAddress (V4 0x03040506) 32])))"
    by (rule update_first_scan [OF assms(1)])
  obtain db1 db2 d1 d2 where
    2: "set_link_status_item (aged_link now) (database st) = Ok (db1, d1)" "set_interface_status_item (aged_interface now') db1 = Ok (db2, d2)"
      "db_ok db2" "item_bag (links db2) = put_item (aged_link now) (item_bag (links (database st)))"
      "item_bag (interfaces db2) = put_item (aged_interface now') (item_bag (interfaces (database st)))"
    by (rule update_set_back [OF 1(2,3)])
  let ?st = "st\<lparr>database := db2\<rparr>"
  have ok: "db_ok (database ?st)" by (simp add: 2(3))
  note rs = update_reports_distinct(2) [of Up, folded update_reports(2) [of f header]]
  from scan_links_settle [OF ok update_config(1,2) rs update_lengths(2) [of header "families env'"], of env' try_send] obtain st' where
    3: "poll env' update_config (NetlinkMessageProcessor_new f update_config) try_send (Ok (update_second_links header))
        (Ok (update_second_addresses header (families env'))) ?st = Ok st'" by blast
  have "image_mset (\<lambda>a. (item_id a, status a)) (item_bag (links (database st'))) =
      mset (expected_list update_config (second_reports Down))"
    by (rule update_second_links_kept [OF ok 1(5) _ assms(4) _ _ 3])
      (use 1(4) 2(4) assms(3,6) in \<open>auto simp: items_all_def env_times_def\<close>)
  then have "list_network_links g st' = update_links"
    by (rule list_links_from) (simp_all add: second_list update_links_def add_mset_commute)
  moreover have "image_mset (\<lambda>a. (item_id a, status a)) (item_bag (interfaces (database st'))) =
      mset (expected_interface_list update_config (second_reports Up) known_addresses)"
    by (rule update_second_interfaces_kept [OF ok 1(6) _ assms(5) _ assms(2) 3])
      (use 2(5) assms(6) in \<open>auto simp: env_times_def\<close>)
  then have "list_network_interfaces g st' = update_interfaces"
    by (rule list_interfaces_from) (simp_all add: second_interface_list update_interfaces_def add_mset_commute)
  ultimately show ?thesis
    by (simp add: test_interface_manager_worker_interfaces_update_def 1(1) 2(1,2) 3)
qed

end
