(* ===== verification/Protocol_Tests.thy ===== *)
theory Protocol_Tests
  imports Ospf_Header Packet_Network
begin

text \<open>
  The unit tests of the protocol crates (\<open>rusty-router-proto-common/src/lib.rs\<close>,
  \<open>rusty-router-proto-ip/src/lib.rs\<close> and \<open>rusty-router-proto-ospfv2/src/packet/header.rs\<close>) and of the
  registration manager (\<open>rusty-router-model/src/utils.rs\<close>), transcribed and proved to pass. The tests of
  the checksum take the byte order of the machine as an argument.
\<close>

section \<open>Conversions and the checksum\<close>

definition fails_with :: "(ProtocolError, 'a) outcome \<Rightarrow> string \<Rightarrow> bool" where
  "fails_with r text = (case r of Err e \<Rightarrow> display_protocol_error e = text | _ \<Rightarrow> False)"

definition test_conversions :: bool where
  "test_conversions \<longleftrightarrow>
     from_be_bytes_macro 2 ''Label'' ''rusty-router-proto-common/src/lib.rs'' 94 [0xA1, 0xB3] = Ok (0xA1B3 :: u16) \<and>
     from_be_bytes_macro 2 ''Label'' ''rusty-router-proto-common/src/lib.rs'' 102 [0xA1, 0xB3] = Ok (0xA1B3 :: u16)"

definition test_conversions_failed :: bool where
  "test_conversions_failed \<longleftrightarrow>
     (from_be_bytes_macro 2 ''Label'' ''rusty-router-proto-common/src/lib.rs'' 113 [0xA1] :: u16 proto_result) =
       Err (ConversionError ''Label'' ''rusty-router-proto-common/src/lib.rs'' (118 - 5)) \<and>
     (from_be_bytes_macro 2 ''Label'' ''rusty-router-proto-common/src/lib.rs'' 131 [0xA1] :: u16 proto_result) =
       Err (ConversionError ''Label'' ''rusty-router-proto-common/src/lib.rs'' (136 - 5))"

definition test_checksum :: "endian \<Rightarrow> bool" where
  "test_checksum e \<longleftrightarrow>
     checksum e [] = Ok 65535 \<and> checksum e [0x80] = Ok 32767 \<and> checksum e [0x00, 0x01] = Ok 65534 \<and>
     checksum e [0xFF, 0xFF, 0xFF, 0xFF, 0xFF, 0xFF, 0xFF, 0xFF, 0xFF, 0xFF, 0xFF, 0xFF] = Ok 0 \<and>
     checksum e [0x01, 0x03, 0x07, 0x0F, 0x11, 0x33, 0x77, 0xFF] = Ok 28347"

definition test_checksum_update :: "endian \<Rightarrow> bool" where
  "test_checksum_update e =
     (case checksum_add e new_checksum
             [0x01, 0x03, 0x07, 0x0F, 0x11, 0x33, 0x77, 0xFF, 0x10, 0x30, 0x77, 0xF0, 0x11, 0x33, 0x77, 0xFF] of
        Ok c \<Rightarrow> calculate c = 23912 \<and>
          (case checksum_subtract e c [0x10, 0x30, 0x77, 0xFF] of
             Ok c \<Rightarrow> calculate c = 58775 \<and>
               checksum e [0x01, 0x03, 0x07, 0x0F, 0x11, 0x33, 0x77, 0xF0, 0x11, 0x33, 0x77, 0xFF] = Ok 58775
           | _ \<Rightarrow> False)
      | _ \<Rightarrow> False)"

lemma conversion_tests_pass: "test_conversions" "test_conversions_failed"
  by (simp_all add: test_conversions_def test_conversions_failed_def from_be_bytes_macro_def try_into_array_def from_be_bytes_def be_nat_def)

text \<open>The test bytes as the accumulator has them on either machine.\<close>

lemma update_bytes:
  "calculate_partial_result Big [0x01, 0x03, 0x07, 0x0F, 0x11, 0x33, 0x77, 0xFF, 0x10, 0x30, 0x77, 0xF0, 0x11, 0x33, 0x77, 0xFF] =
     Ok 1239473956715950078"
  "calculate_partial_result Little [0x01, 0x03, 0x07, 0x0F, 0x11, 0x33, 0x77, 0xFF, 0x10, 0x30, 0x77, 0xF0, 0x11, 0x33, 0x77, 0xFF] =
     Ok 22864258865567276672593678849212940288"
  "calculate_partial_result Big [0x10, 0x30, 0x77, 0xFF] = Ok 1166564240589324288"
  "calculate_partial_result Little [0x10, 0x30, 0x77, 0xFF] = Ok 1166564240589324288"
  by (simp_all add: calculate_partial_result_eq words_sum_def chunk_def network_sum_def tail_sum_def tail_start_def
      unat_u128_from_be_Little lessThan_nat_numeral be_nat_def to_le_bytes_numeral del: u128_from_be.simps)

lemma checksum_tests_pass: "test_checksum e" "test_checksum_update e"
proof -
  show "test_checksum e"
    by (simp add: test_checksum_def checksum_Ok internet_checksum_def carry_fold.simps)
  show "test_checksum_update e"
    by (cases e) (simp_all add: test_checksum_update_def checksum_add_def checksum_subtract_def new_checksum_def update_bytes
        checked_add_def checked_sub_def calculate_def calculate_final_result_eq carry_fold.simps checksum_Ok internet_checksum_def)
qed

section \<open>The IPv4 header\<close>

definition parse_header :: "endian \<Rightarrow> bool" where
  "parse_header e =
     (let data = [0x45, 12, 34, 56, 78, 90, 0xD1, 98, 127, 89, 0x88, 0x8f, 127, 0, 0, 1, 8, 9, 10, 11]
      in case IpV4Header_try_from data of
           Ok header \<Rightarrow>
             checksum e data = Ok 57343 \<and> ip_version header = ipv4 \<and> ip_internet_header_length header = 20 div 4 \<and>
             ip_total_length header = 8760 \<and> ip_identification header = 20058 \<and>
             ip_flags header = Ipv4Flags_new [DontFragment, MoreFragments] \<and> ip_type_of_service header = 12 \<and>
             ip_fragment_offset header = 35600 \<and> ip_time_to_live header = 127 \<and> ip_protocol header = 89 \<and>
             ip_header_checksum header = 0x888F \<and> ip_source_address header = push_bit 24 127 OR 1 \<and>
             ip_destination_address header = push_bit 24 8 OR push_bit 16 9 OR push_bit 8 10 OR 11
         | _ \<Rightarrow> False)"

definition parse_small_header_sad :: bool where
  "parse_small_header_sad = fails_with
     (IpV4Header_try_from [0x45, 12, 34, 56, 78, 90, 0xB1, 98, 127, 89, 0x88, 0x8f, 127, 1, 8, 9, 10, 11])
     ''[IPv4] Expecting data of at least 20 bytes but only 18 bytes are available''"

definition parse_insufficient_header_data_sad :: bool where
  "parse_insufficient_header_data_sad = fails_with
     (IpV4Header_try_from [0x46, 12, 34, 56, 78, 90, 0xB1, 98, 127, 89, 0x88, 0x8f, 127, 0, 0, 1, 8, 9, 10, 11])
     ''[IPv4] Expecting data of at least 24 bytes but only 20 bytes are available''"

text \<open>The text of an unsupported value; a quotation mark has no literal of its own here.\<close>

definition unsupported_text :: "string \<Rightarrow> string \<Rightarrow> string \<Rightarrow> string" where
  "unsupported_text protocol n field =
     (let quote = [char_of (39 :: nat)]
      in ''['' @ protocol @ ''] The value '' @ quote @ n @ quote @ '' for field '' @ quote @ field @ quote @ '' is not supported'')"

definition parse_invalid_header_length_sad :: bool where
  "parse_invalid_header_length_sad = fails_with
     (IpV4Header_try_from [0x44, 12, 34, 56, 78, 90, 0xB1, 98, 127, 89, 0x88, 0x8f, 127, 0, 0, 1, 8, 9, 10, 11])
     (unsupported_text ''IPv4'' ''4'' ''Internet Header Length'')"

definition parse_inversion_sad :: bool where
  "parse_inversion_sad = fails_with
     (IpV4Header_try_from [0x35, 12, 34, 56, 78, 90, 0xB1, 98, 127, 89, 0x88, 0x8f, 127, 0, 0, 1, 8, 9, 10, 11])
     (unsupported_text ''IPv4'' ''3'' ''Version'')"

lemma digits:
  "(char_of (48 :: nat) = CHR ''0'') \<and> (char_of (49 :: nat) = CHR ''1'') \<and> (char_of (50 :: nat) = CHR ''2'') \<and>
   (char_of (51 :: nat) = CHR ''3'') \<and> (char_of (52 :: nat) = CHR ''4'') \<and> (char_of (53 :: nat) = CHR ''5'') \<and>
   (char_of (54 :: nat) = CHR ''6'') \<and> (char_of (56 :: nat) = CHR ''8'')"
  by code_simp

lemmas text_simps = fails_with_def show_nat.simps digits unsupported_text_def

lemma ipv4_tests_pass:
  "parse_header e" "parse_small_header_sad" "parse_insufficient_header_data_sad" "parse_invalid_header_length_sad" "parse_inversion_sad"
proof -
  show "parse_header e"
    by (simp add: parse_header_def IpV4Header_try_from_eq ipv4_parse_spec_def ipv4_fields_def checksum_Ok internet_checksum_def
        carry_fold.simps from_be_bytes_def be_nat_def ipv4_def Ipv4Flags_new_def)
  show "parse_small_header_sad" "parse_insufficient_header_data_sad" "parse_invalid_header_length_sad" "parse_inversion_sad"
    by (simp_all add: parse_small_header_sad_def parse_insufficient_header_data_sad_def parse_invalid_header_length_sad_def
        parse_inversion_sad_def text_simps IpV4Header_try_from_eq ipv4_parse_spec_def IP_V4_PROTO_def)
qed

section \<open>The OSPFv2 header\<close>

definition it_parses_version :: bool where
  "it_parses_version \<longleftrightarrow> OspfVersion_try_from 2 = Ok V2"

definition it_fails_to_parse_version :: bool where
  "it_fails_to_parse_version = fails_with (OspfVersion_try_from 5) (unsupported_text ''OspfV2'' ''5'' ''Version'')"

definition it_parses_type :: bool where
  "it_parses_type \<longleftrightarrow>
     OspfMessageType_try_from 1 = Ok Hello \<and> OspfMessageType_try_from 2 = Ok DatabaseDescription \<and>
     OspfMessageType_try_from 3 = Ok LinkStateRequest \<and> OspfMessageType_try_from 4 = Ok LinkStateUpdate \<and>
     OspfMessageType_try_from 5 = Ok LinkStateAcknoledgement"

definition it_fails_to_parse_type :: bool where
  "it_fails_to_parse_type = fails_with (OspfMessageType_try_from 0) (unsupported_text ''OspfV2'' ''0'' ''Type'')"

definition it_parses_authn_type :: bool where
  "it_parses_authn_type \<longleftrightarrow>
     OspfAuthenticationType_try_from 0 = Ok AuthNull \<and> OspfAuthenticationType_try_from 1 = Ok AuthSimplePassword \<and>
     OspfAuthenticationType_try_from 2 = Ok AuthCryptographicAuthentication"

definition it_fails_to_parse_authn_type :: bool where
  "it_fails_to_parse_authn_type =
     fails_with (OspfAuthenticationType_try_from 10) (unsupported_text ''OspfV2'' ''10'' ''AuthenticationType'')"

definition it_parses_authn_header :: bool where
  "it_parses_authn_header \<longleftrightarrow>
     OspfAuthenticationHeader_new AuthNull [34, 12, 98, 234, 1, 0, 22, 4] = Ok NullHeader \<and>
     OspfAuthenticationHeader_new AuthSimplePassword [34, 12, 98, 234, 1, 0, 22, 4] =
       Ok (SimplePasswordHeader [34, 12, 98, 234, 1, 0, 22, 4]) \<and>
     (case OspfAuthenticationHeader_new AuthSimplePassword [34, 12, 98, 234, 1, 0, 21, 4] of
        Ok h \<Rightarrow> h \<noteq> SimplePasswordHeader [34, 12, 98, 234, 1, 0, 22, 4] | _ \<Rightarrow> False) \<and>
     OspfAuthenticationHeader_new AuthCryptographicAuthentication [34, 12, 98, 234, 254, 0, 22, 4] =
       Ok (CryptographicHeader 98 234 4261418500) \<and>
     (case OspfAuthenticationHeader_new AuthCryptographicAuthentication [34, 12, 98, 234, 62, 0, 22, 4] of
        Ok h \<Rightarrow> h \<noteq> CryptographicHeader 98 234 4261418500 | _ \<Rightarrow> False)"

definition parses_to ::
  "u8 list \<Rightarrow> u16 \<Rightarrow> OspfAuthenticationType \<Rightarrow> OspfAuthenticationHeader \<Rightarrow> bool" where
  "parses_to data cks authentication_type authentication_header =
     (case OspfHeader_try_from data of
        Ok subject \<Rightarrow> ospf_version subject = V2 \<and> ospf_message_type subject = Hello \<and> ospf_packet_length subject = 24 \<and>
          ospf_router_id subject = 2130706433 \<and> ospf_area_id subject = 1 \<and> ospf_checksum subject = cks \<and>
          ospf_authentication_type subject = authentication_type \<and> ospf_authentication_header subject = authentication_header
      | _ \<Rightarrow> False)"

definition it_parse_ospf_header_happy_null_auth :: bool where
  "it_parse_ospf_header_happy_null_auth = parses_to
     [2, 1, 0, 24, 127, 0, 0, 1, 0, 0, 0, 1, 126, 228, 0, 0, 0, 0, 0, 0, 0, 0, 0, 0] 32484 AuthNull NullHeader"

definition it_parse_ospf_header_happy_null_auth_longer_packet :: bool where
  "it_parse_ospf_header_happy_null_auth_longer_packet = parses_to
     [2, 1, 0, 24, 127, 0, 0, 1, 0, 0, 0, 1, 126, 228, 0, 0, 0, 0, 0, 0, 0, 0, 0, 0, 1, 2, 3, 4, 5] 32484 AuthNull NullHeader"

definition it_parse_ospf_header_too_short_sad :: bool where
  "it_parse_ospf_header_too_short_sad = fails_with
     (OspfHeader_try_from [2, 1, 0, 24, 127, 0, 0, 1, 0, 0, 0, 1, 126, 228, 0, 0, 0, 0, 0, 0, 0, 0, 0])
     ''[OspfV2] Expecting header to be 24 bytes but only 23 bytes are available''"

definition it_parse_ospf_packet_too_short :: bool where
  "it_parse_ospf_packet_too_short = fails_with
     (OspfHeader_try_from [2, 1, 1, 0, 127, 0, 0, 1, 0, 0, 0, 1, 126, 228, 0, 0, 0, 0, 0, 0, 0, 0, 0, 0])
     ''[OspfV2] Expecting data of at least 256 bytes but only 24 bytes are available''"

definition it_parse_ospf_header_happy_simple_auth :: bool where
  "it_parse_ospf_header_happy_simple_auth = parses_to
     [2, 1, 0, 24, 127, 0, 0, 1, 0, 0, 0, 1, 126, 227, 0, 1, 10, 11, 12, 13, 14, 15, 16, 17]
     32483 AuthSimplePassword (SimplePasswordHeader [10, 11, 12, 13, 14, 15, 16, 17])"

definition it_parse_ospf_header_happy_crypto_auth :: bool where
  "it_parse_ospf_header_happy_crypto_auth = parses_to
     [2, 1, 0, 24, 127, 0, 0, 1, 0, 0, 0, 1, 0, 0, 0, 2, 10, 11, 12, 13, 14, 15, 16, 17]
     0 AuthCryptographicAuthentication (CryptographicHeader 12 13 235868177)"

lemma ospf_number_tests_pass:
  "it_parses_version" "it_fails_to_parse_version" "it_parses_type" "it_fails_to_parse_type"
  "it_parses_authn_type" "it_fails_to_parse_authn_type" "it_parses_authn_header"
  by (simp_all add: it_parses_version_def it_fails_to_parse_version_def it_parses_type_def it_fails_to_parse_type_def
      it_parses_authn_type_def it_fails_to_parse_authn_type_def it_parses_authn_header_def OspfVersion_try_from_def
      OspfMessageType_try_from_def OspfAuthenticationType_try_from_def text_simps PROTOCOL_def from_be_bytes_def be_nat_def)

lemmas ospf_parse_simps = OspfHeader_try_from_eq ospf_parse_spec_def ospf_length_field_def ospf_packet_def ospf_body_spec_def
  ospf_expected_def single_fold_def ospf_blank_def ospf_fields_def OspfAuthenticationType_try_from_def OspfMessageType_try_from_def
  from_be_bytes_def be_nat_def replicate_8_0

lemma ospf_header_tests_pass:
  "it_parse_ospf_header_happy_null_auth" "it_parse_ospf_header_happy_null_auth_longer_packet"
  "it_parse_ospf_header_too_short_sad" "it_parse_ospf_packet_too_short"
  "it_parse_ospf_header_happy_simple_auth" "it_parse_ospf_header_happy_crypto_auth"
  by (simp_all add: it_parse_ospf_header_happy_null_auth_def it_parse_ospf_header_happy_null_auth_longer_packet_def
      it_parse_ospf_header_too_short_sad_def it_parse_ospf_packet_too_short_def it_parse_ospf_header_happy_simple_auth_def
      it_parse_ospf_header_happy_crypto_auth_def parses_to_def ospf_parse_simps text_simps PROTOCOL_def)

section \<open>The registration manager\<close>

definition test_register :: "string \<Rightarrow> order_choice \<Rightarrow> bool" where
  "test_register uuid f =
     (case register uuid (12 :: u128) [] of
        (Ok registration, registrations) \<Rightarrow>
          (let items = get_registered_items f registrations
           in length items = 1 \<and> hd items = 12) \<and>
          length (get_registered_items f (drop_registration registration registrations)) = 0
      | _ \<Rightarrow> False)"

lemma register_test_passes: "test_register uuid f"
  by (simp add: test_register_def register_eq get_registered_items_def drop_registration_def insert_at_def)

end
