(* ===== verification/Netlink_Socket.thy ===== *)
theory Netlink_Socket
  imports Netlink_Processor
begin

text \<open>
  The netlink socket, \<open>rusty-router-platform-linux/src/netlink/socket.rs\<close>: opening it, the loop that receives
  datagrams and takes them apart, the request that sends a message and collects the answer, and the
  loop that hands multicast messages to the listener.

  Parsing and serializing belong to the crate \<open>netlink-packet-core\<close> and are arguments, as are the
  random number and the result of the socket's \<open>send\<close>. What the socket yields is a list of events:
  each turn of the receive loop gets a datagram, an error or, after 100 ms of silence, a timeout.
\<close>

section \<open>Opening and closing\<close>

text \<open>
  A netlink address is a port and a mask of multicast groups. What the kernel answers to the six calls
  of \<open>DefaultNetlinkSocket::new\<close> is given in their order; an \<open>io::Error\<close> is its text.
\<close>

type_synonym SocketAddr = "u32 \<times> u32"

record netlink_calls =
  open_request :: "string + unit"
  bind_request :: "string + unit"
  connect_request :: "SocketAddr \<Rightarrow> string + unit"
  open_multicast :: "string + unit"
  bind_multicast :: "SocketAddr \<Rightarrow> string + unit"
  connect_multicast :: "SocketAddr \<Rightarrow> string + unit"

record DefaultNetlinkSocket =
  socket_running :: bool
  multicast_task :: bool

fun io_call :: "string \<Rightarrow> string + unit \<Rightarrow> unit router_result" where
  "io_call context (Inl e) = Err (Io e context)"
| "io_call context (Inr _) = Ok ()"

definition DefaultNetlinkSocket_new :: "netlink_calls \<Rightarrow> DefaultNetlinkSocket router_result" where
  "DefaultNetlinkSocket_new calls =
     obind (io_call ''New NETLINK_ROUTE'' (open_request calls)) (\<lambda>_.
     obind (io_call ''Bind NETLINK_ROUTE'' (bind_request calls)) (\<lambda>_.
     obind (io_call ''Connect NETLINK_ROUTE'' (connect_request calls (0, 0))) (\<lambda>_.
     obind (io_call ''New NETLINK_ROUTE'' (open_multicast calls)) (\<lambda>_.
     obind (io_call ''Bind NETLINK_ROUTE'' (bind_multicast calls (0, 0xFFFF))) (\<lambda>_.
     obind (io_call ''Connect NETLINK_ROUTE'' (connect_multicast calls (0, 0))) (\<lambda>_.
     Ok \<lparr>socket_running = True, multicast_task = True\<rparr>))))))"

definition create_netlink_socket :: "netlink_calls \<Rightarrow> DefaultNetlinkSocket router_result" where
  "create_netlink_socket calls = obind (DefaultNetlinkSocket_new calls) Ok"

definition drop_socket :: "DefaultNetlinkSocket \<Rightarrow> DefaultNetlinkSocket" where
  "drop_socket s = s\<lparr>socket_running := False\<rparr>"

text \<open>The listener that only logs, on the lines logged so far.\<close>

definition log_only_message_received :: "NetlinkMessage \<Rightarrow> NetlinkMessage list \<Rightarrow> NetlinkMessage list router_result" where
  "log_only_message_received message logged = Ok (logged @ [message])"

lemma io_call_eq_Ok: "io_call context r = Ok u \<longleftrightarrow> r = Inr ()"
  by (cases r) auto

lemma create_netlink_socket_Ok:
  "create_netlink_socket calls = Ok s \<longleftrightarrow>
     open_request calls = Inr () \<and> bind_request calls = Inr () \<and> connect_request calls (0, 0) = Inr () \<and> open_multicast calls = Inr () \<and>
     bind_multicast calls (0, 0xFFFF) = Inr () \<and> connect_multicast calls (0, 0) = Inr () \<and>
     s = \<lparr>socket_running = True, multicast_task = True\<rparr>"
  by (auto simp: create_netlink_socket_def DefaultNetlinkSocket_new_def obind_eq_Ok io_call_eq_Ok)

text \<open>Either all calls succeed and the multicast task runs, or the failure is an I/O error that says which kind of
  call failed; no call panics.\<close>

lemma create_netlink_socket_outcome:
  "(\<exists>s. create_netlink_socket calls = Ok s \<and> socket_running s \<and> multicast_task s) \<or>
   (\<exists>e context. create_netlink_socket calls = Err (Io e context) \<and>
      context \<in> {''New NETLINK_ROUTE'', ''Bind NETLINK_ROUTE'', ''Connect NETLINK_ROUTE''})"
  unfolding create_netlink_socket_def DefaultNetlinkSocket_new_def
  by (cases "open_request calls"; cases "bind_request calls"; cases "connect_request calls (0, 0)"; cases "open_multicast calls";
      cases "bind_multicast calls (0, 0xFFFF)"; cases "connect_multicast calls (0, 0)") auto

section \<open>Receiving\<close>

datatype recv_state = Received | Timeout

datatype recv_event = Datagram "u8 list" | SocketError | Silence

type_synonym deserializer = "u8 list \<Rightarrow> string + NetlinkMessage"

definition wanted :: "u32 option \<Rightarrow> NetlinkMessage \<Rightarrow> bool" where
  "wanted seq packet = (case seq of None \<Rightarrow> True | Some n \<Rightarrow> sequence_number packet = n)"

text \<open>
  The inner loop, over one datagram. It may run forever, when a message says it is empty; then it has
  no result. Otherwise the call returns (\<open>Some\<close>), or fails, or the datagram is used up
  (\<open>Ok None\<close>); the messages passed to the callback come with either.
\<close>

partial_function (option) recv_datagram ::
  "deserializer \<Rightarrow> u32 option \<Rightarrow> u8 list \<Rightarrow> u32 \<Rightarrow> NetlinkMessage list \<Rightarrow>
   (recv_state option router_result \<times> NetlinkMessage list) option" where
  "recv_datagram deserialize seq receive_buffer offset received =
     (if length receive_buffer < unat offset then Some (Panic, received)
      else case deserialize (drop (unat offset) receive_buffer) of
        Inl e \<Rightarrow> Some (Err (Communication (''Failed to deserialize netlink message: '' @ e)), received)
      | Inr rx_packet \<Rightarrow>
          if wanted seq rx_packet \<and> payload rx_packet = Done then Some (Ok (Some Received), received)
          else
            (let received = (if wanted seq rx_packet then received @ [rx_packet] else received) in
             case checked_add offset (nl_length rx_packet) of
               Ok offset \<Rightarrow>
                 if unat offset = length receive_buffer then Some (Ok None, received)
                 else recv_datagram deserialize seq receive_buffer offset received
             | Err e \<Rightarrow> Some (Err e, received)
             | Panic \<Rightarrow> Some (Panic, received)))"

text \<open>The outer loop; without a result when the events given do not end it.\<close>

fun recv_loop ::
  "deserializer \<Rightarrow> u32 option \<Rightarrow> recv_event list \<Rightarrow> NetlinkMessage list \<Rightarrow>
   (recv_state router_result \<times> NetlinkMessage list \<times> recv_event list) option" where
  "recv_loop deserialize seq [] received = None"
| "recv_loop deserialize seq (Silence # events) received = Some (Ok Timeout, received, events)"
| "recv_loop deserialize seq (SocketError # events) received = recv_loop deserialize seq events received"
| "recv_loop deserialize seq (Datagram receive_buffer # events) received =
     (case recv_datagram deserialize seq receive_buffer 0 received of
        None \<Rightarrow> None
      | Some (Ok None, received) \<Rightarrow> recv_loop deserialize seq events received
      | Some (Ok (Some state), received) \<Rightarrow> Some (Ok state, received, events)
      | Some (Err e, received) \<Rightarrow> Some (Err e, received, events)
      | Some (Panic, received) \<Rightarrow> Some (Panic, received, events))"

section \<open>Requests\<close>

definition send_message ::
  "deserializer \<Rightarrow> (NetlinkMessage \<Rightarrow> u8 list \<Rightarrow> u8 list) \<Rightarrow> (u8 list \<Rightarrow> string + unit) \<Rightarrow>
   NetlinkMessage \<Rightarrow> recv_event list \<Rightarrow> (NetlinkMessage list router_result \<times> recv_event list) option" where
  "send_message deserialize serialize send message events =
     (let seq = sequence_number message;
          buf = replicate (unat (nl_length message)) 0;
          buf = serialize message buf
      in case send buf of
           Inl e \<Rightarrow> Some (Err (Io e ''Netlink Socket Send''), events)
         | Inr _ \<Rightarrow>
             (case recv_loop deserialize (Some seq) events [] of
                None \<Rightarrow> None
              | Some (Ok _, received_messages, events) \<Rightarrow> Some (Ok received_messages, events)
              | Some (Err e, received_messages, events) \<Rightarrow> Some (Err e, events)
              | Some (Panic, received_messages, events) \<Rightarrow> Some (Panic, events)))"

definition build_default_packet ::
  "u16 \<Rightarrow> u16 \<Rightarrow> ('m \<Rightarrow> NetlinkMessage) \<Rightarrow> (NetlinkMessage \<Rightarrow> NetlinkMessage) \<Rightarrow> u32 \<Rightarrow> 'm \<Rightarrow> NetlinkMessage" where
  "build_default_packet NLM_F_DUMP NLM_F_REQUEST from_message finalize random message =
     (let packet = from_message message;
          packet = packet\<lparr>nl_flags := NLM_F_DUMP OR NLM_F_REQUEST\<rparr>;
          packet = packet\<lparr>sequence_number := random\<rparr>
      in finalize packet)"

section \<open>Multicast messages\<close>

text \<open>
  Each turn reads the running flag, whose values are given in the order read. The listener changes
  the state that it shares with the interface manager; a panic of either ends the task.
\<close>

fun recv_multicast_messages ::
  "deserializer \<Rightarrow> (NetlinkMessage \<Rightarrow> 's \<Rightarrow> 's router_result) \<Rightarrow> bool list \<Rightarrow> recv_event list \<Rightarrow> 's \<Rightarrow>
   's router_result option" where
  "recv_multicast_messages deserialize message_received [] events st = None"
| "recv_multicast_messages deserialize message_received (False # flags) events st = Some (Ok st)"
| "recv_multicast_messages deserialize message_received (True # flags) events st =
     (case recv_loop deserialize None events [] of
        None \<Rightarrow> None
      | Some (Panic, messages, events) \<Rightarrow> Some Panic
      | Some (_, messages, events) \<Rightarrow>
          (case ofold message_received messages st of
             Ok st \<Rightarrow> recv_multicast_messages deserialize message_received flags events st
           | Err e \<Rightarrow> Some (Err e)
           | Panic \<Rightarrow> Some Panic))"

section \<open>What a datagram holds\<close>

text \<open>The messages of a datagram: parsing at the end of each finds the next.\<close>

inductive datagram_of :: "deserializer \<Rightarrow> NetlinkMessage list \<Rightarrow> u8 list \<Rightarrow> bool" for deserialize where
  datagram_last: "deserialize buf = Inr m \<Longrightarrow> unat (nl_length m) = length buf \<Longrightarrow> datagram_of deserialize [m] buf"
| datagram_more: "deserialize buf = Inr m \<Longrightarrow> unat (nl_length m) < length buf \<Longrightarrow>
    datagram_of deserialize ms (drop (unat (nl_length m)) buf) \<Longrightarrow> datagram_of deserialize (m # ms) buf"

definition finished :: "u32 option \<Rightarrow> NetlinkMessage \<Rightarrow> bool" where
  "finished seq m \<longleftrightarrow> wanted seq m \<and> payload m = Done"

text \<open>The messages that a request takes from a sequence of them.\<close>

definition answer :: "u32 option \<Rightarrow> NetlinkMessage list \<Rightarrow> NetlinkMessage list" where
  "answer seq ms = filter (wanted seq) (takeWhile (\<lambda>m. \<not> finished seq m) ms)"

lemma answer_simps [simp]:
  "answer seq [] = []"
  "answer seq (m # ms) = (if finished seq m then [] else if wanted seq m then m # answer seq ms else answer seq ms)"
  by (simp_all add: answer_def)

lemma answer_append:
  "answer seq (ms @ ms') = (if \<exists>m \<in> set ms. finished seq m then answer seq ms else answer seq ms @ answer seq ms')"
  by (induction ms) auto

lemma recv_datagram_at:
  assumes "datagram_of deserialize ms rest" "rest = drop (unat offset) buf" "unat offset \<le> length buf" "length buf < 2 ^ 32"
  shows "recv_datagram deserialize seq buf offset received =
    Some (Ok (if \<exists>m \<in> set ms. finished seq m then Some Received else None), received @ answer seq ms)"
  using assms
proof (induction arbitrary: offset received rule: datagram_of.induct)
  case (datagram_last b m)
  then have u: "unat offset + unat (nl_length m) = length buf" by simp
  then have "(checked_add offset (nl_length m) :: u32 router_result) = Ok (offset + nl_length m)" "unat (offset + nl_length m) = length buf"
    using datagram_last.prems(3) by (simp_all add: checked_add_def unat_plus_no_overflow)
  then show ?case
    using datagram_last by (simp add: recv_datagram.simps [of _ _ _ offset] finished_def Let_def)
next
  case (datagram_more b m ms)
  let ?o = "offset + nl_length m"
  have u: "unat offset + unat (nl_length m) < length buf" using datagram_more.hyps(2) datagram_more.prems(1) by simp
  then have o: "(checked_add offset (nl_length m) :: u32 router_result) = Ok ?o" "unat ?o = unat offset + unat (nl_length m)"
    using datagram_more.prems(3) by (simp_all add: checked_add_def unat_plus_no_overflow)
  have IH: "recv_datagram deserialize seq buf ?o rec =
    Some (Ok (if \<exists>m \<in> set ms. finished seq m then Some Received else None), rec @ answer seq ms)" for rec
    by (rule datagram_more.IH) (use datagram_more.prems u o(2) in \<open>simp_all add: add.commute\<close>)
  show ?case
    using datagram_more.hyps(1) datagram_more.prems(1,2) u o IH
    by (simp add: recv_datagram.simps [of _ _ _ offset] finished_def Let_def)
qed

text \<open>The messages of a sequence of events; errors of the socket carry none.\<close>

inductive stream_of :: "deserializer \<Rightarrow> NetlinkMessage list \<Rightarrow> recv_event list \<Rightarrow> bool" for deserialize where
  stream_end: "stream_of deserialize [] []"
| stream_error: "stream_of deserialize ms events \<Longrightarrow> stream_of deserialize ms (SocketError # events)"
| stream_datagram: "datagram_of deserialize ms buf \<Longrightarrow> length buf < 2 ^ 32 \<Longrightarrow> stream_of deserialize ms' events \<Longrightarrow>
    stream_of deserialize (ms @ ms') (Datagram buf # events)"

lemma recv_loop_stream:
  assumes "stream_of deserialize ms events"
  shows "if \<exists>m \<in> set ms. finished seq m
    then \<exists>events'. recv_loop deserialize seq (events @ rest) received = Some (Ok Received, received @ answer seq ms, events' @ rest)
    else recv_loop deserialize seq (events @ rest) received = recv_loop deserialize seq rest (received @ answer seq ms)"
  using assms
proof (induction arbitrary: received rule: stream_of.induct)
  case (stream_datagram ms buf ms' events)
  have here: "recv_datagram deserialize seq buf 0 received =
      Some (Ok (if \<exists>m \<in> set ms. finished seq m then Some Received else None), received @ answer seq ms)"
    by (rule recv_datagram_at [OF stream_datagram.hyps(1)]) (use stream_datagram.hyps(2) in simp_all)
  show ?case
  proof (cases "\<exists>m \<in> set ms. finished seq m")
    case True
    with here show ?thesis by (auto simp: answer_append)
  next
    case False
    with here stream_datagram.IH [of "received @ answer seq ms"] show ?thesis
      by (cases "\<exists>m \<in> set ms'. finished seq m") (simp_all add: answer_append, auto)
  qed
qed simp_all

text \<open>C25: Whatever datagrams and socket errors come before the first silence, a request gets exactly the
  messages with its own sequence number up to the first \<open>Done\<close> among them, in order, across
  datagrams. The call returns \<open>Ok\<close> with what has arrived also when no \<open>Done\<close> has: its result does
  not tell a complete answer from one cut off by the timeout.\<close>

theorem send_message_answer:
  assumes "stream_of deserialize ms events"
    and "send (serialize message (replicate (unat (nl_length message)) 0)) = Inr ()"
  shows "\<exists>events'. send_message deserialize serialize send message (events @ Silence # rest) =
    Some (Ok (answer (Some (sequence_number message)) ms), events')"
  using recv_loop_stream [OF assms(1), of "Some (sequence_number message)" "Silence # rest" "[]"]
  by (auto simp: send_message_def assms(2) Let_def split: if_splits)

section \<open>The loops return\<close>

text \<open>What the crate's parser checks: a message's length is not zero and within the buffer.\<close>

definition deserialize_ok :: "deserializer \<Rightarrow> bool" where
  "deserialize_ok deserialize \<longleftrightarrow>
     (\<forall>buf m. deserialize buf = Inr m \<longrightarrow> 0 < nl_length m \<and> unat (nl_length m) \<le> length buf)"

lemma recv_datagram_returns:
  assumes "deserialize_ok deserialize" "unat offset \<le> length buf" "length buf < 2 ^ 32"
  shows "\<exists>r received'. recv_datagram deserialize seq buf offset received = Some (r, received') \<and> r \<noteq> Panic"
  using assms(2)
proof (induction "length buf - unat offset" arbitrary: offset received rule: less_induct)
  case less
  show ?case
  proof (cases "deserialize (drop (unat offset) buf)")
    case (Inr m)
    let ?rec = "if wanted seq m then received @ [m] else received"
    have m: "0 < unat (nl_length m)" "unat offset + unat (nl_length m) \<le> length buf"
      using assms(1) Inr less.prems unfolding deserialize_ok_def by (force simp: word_less_nat_alt)+
    then have o: "(checked_add offset (nl_length m) :: u32 router_result) = Ok (offset + nl_length m)"
        "unat (offset + nl_length m) = unat offset + unat (nl_length m)"
      using assms(3) by (simp_all add: checked_add_def unat_plus_no_overflow)
    from less.hyps [of "offset + nl_length m" ?rec] m o(2) less.prems obtain r rec' where
      "unat (offset + nl_length m) \<noteq> length buf \<longrightarrow>
         recv_datagram deserialize seq buf (offset + nl_length m) ?rec = Some (r, rec') \<and> r \<noteq> Panic" by force
    with Inr o less.prems show ?thesis
      by (cases "unat (offset + nl_length m) = length buf") (auto simp: recv_datagram.simps [of _ _ _ offset] Let_def)
  qed (use less.prems in \<open>simp add: recv_datagram.simps [of _ _ _ offset]\<close>)
qed

lemma recv_loop_returns:
  assumes "deserialize_ok deserialize" "\<forall>buf. Datagram buf \<in> set events \<longrightarrow> length buf < 2 ^ 32"
  shows "\<exists>r received' events'. recv_loop deserialize seq (events @ Silence # rest) received = Some (r, received', events') \<and> r \<noteq> Panic"
  using assms(2)
proof (induction events arbitrary: received)
  case (Cons e events)
  show ?case
  proof (cases e)
    case (Datagram buf)
    then have "length buf < 2 ^ 32" using Cons.prems by simp
    with recv_datagram_returns [OF assms(1), of 0 buf seq received] obtain r rec' where
      1: "recv_datagram deserialize seq buf 0 received = Some (r, rec')" "r \<noteq> Panic" by auto
    show ?thesis
    proof (cases r)
      case (Ok state)
      with Cons 1 Datagram show ?thesis by (cases state) auto
    qed (use 1 Datagram in auto)
  qed (use Cons in auto)
qed simp

text \<open>C26: With a parser that gives every message a length that is not zero and within the buffer, a
  request returns within the first silence of 100 ms, whatever the socket yields: no datagram of
  less than 4 GiB, well formed or not, makes it loop forever, overflow its offset or read out
  of bounds.\<close>

theorem send_message_returns:
  assumes "deserialize_ok deserialize" "\<forall>buf. Datagram buf \<in> set events \<longrightarrow> length buf < 2 ^ 32"
  shows "\<exists>r events'. send_message deserialize serialize send message (events @ Silence # rest) = Some (r, events') \<and> r \<noteq> Panic"
proof -
  obtain r rec' events' where
    1: "recv_loop deserialize (Some (sequence_number message)) (events @ Silence # rest) [] = Some (r, rec', events')" "r \<noteq> Panic"
    using recv_loop_returns [OF assms] by blast
  then show ?thesis
    by (cases r; cases "send (serialize message (replicate (unat (nl_length message)) 0))") (simp_all add: send_message_def)
qed

text \<open>Without that check the loop need not end: a message of length zero is found again and again.\<close>

definition stuck_at :: "deserializer \<Rightarrow> u32 option \<Rightarrow> u8 list \<Rightarrow> u32 \<Rightarrow> bool" where
  "stuck_at deserialize seq buf offset \<longleftrightarrow> unat offset < length buf \<and>
     (\<exists>m. deserialize (drop (unat offset) buf) = Inr m \<and> nl_length m = 0 \<and> \<not> finished seq m)"

lemma recv_datagram_stuck:
  assumes "recv_datagram deserialize seq buf offset received = Some r"
  shows "\<not> stuck_at deserialize seq buf offset"
proof (rule recv_datagram.raw_induct [where P = "\<lambda>deserialize seq buf offset received r. \<not> stuck_at deserialize seq buf offset", OF _ assms])
  fix recv :: "deserializer \<Rightarrow> u32 option \<Rightarrow> u8 list \<Rightarrow> u32 \<Rightarrow> NetlinkMessage list \<Rightarrow> (recv_state option router_result \<times> NetlinkMessage list) option"
    and deserialize seq buf offset received r
  assume IH: "\<And>deserialize seq buf offset received y.
      recv deserialize seq buf offset received = Some y \<Longrightarrow> \<not> stuck_at deserialize seq buf offset"
    and step: "(if length buf < unat offset then Some (Panic, received)
      else case deserialize (drop (unat offset) buf) of
        Inl e \<Rightarrow> Some (Err (Communication (''Failed to deserialize netlink message: '' @ e)), received)
      | Inr rx_packet \<Rightarrow>
          if wanted seq rx_packet \<and> payload rx_packet = Done then Some (Ok (Some Received), received)
          else
            (let received = (if wanted seq rx_packet then received @ [rx_packet] else received) in
             case checked_add offset (nl_length rx_packet) of
               Ok offset \<Rightarrow>
                 if unat offset = length buf then Some (Ok None, received)
                 else recv deserialize seq buf offset received
             | Err e \<Rightarrow> Some (Err e, received)
             | Panic \<Rightarrow> Some (Panic, received))) = Some r"
  show "\<not> stuck_at deserialize seq buf offset"
  proof
    assume stuck: "stuck_at deserialize seq buf offset"
    then obtain m where m: "unat offset < length buf" "deserialize (drop (unat offset) buf) = Inr m" "nl_length m = 0" "\<not> finished seq m"
      by (auto simp: stuck_at_def)
    have "(checked_add offset (nl_length m) :: u32 router_result) = Ok offset"
      using unat_less_2p [of offset] by (simp add: m(3) checked_add_def)
    with step m have "recv deserialize seq buf offset (if wanted seq m then received @ [m] else received) = Some r"
      by (auto simp: finished_def Let_def split: if_splits)
    with IH stuck show False by blast
  qed
qed

text \<open>If the parser reports a message of length zero, other than the \<open>Done\<close> waited for, in a datagram
  that is not empty, the receive loop never returns.\<close>

theorem recv_loop_stuck:
  assumes "deserialize buf = Inr m" "nl_length m = 0" "\<not> (wanted seq m \<and> payload m = Done)" "buf \<noteq> []"
  shows "recv_loop deserialize seq (Datagram buf # events) received = None"
proof (cases "recv_datagram deserialize seq buf 0 received")
  case (Some r)
  from recv_datagram_stuck [OF this] assms show ?thesis by (auto simp: stuck_at_def finished_def)
qed simp

section \<open>Delivery of multicast messages\<close>

text \<open>C27: The listener gets the messages of a turn in the order in which they arrived, when the socket has
  been silent for 100 ms, and then the next turn begins. As long as no silence (and no \<open>Done\<close>)
  comes, the listener gets nothing at all, however many messages have arrived.\<close>

theorem multicast_delivery:
  assumes "stream_of deserialize ms events" "\<forall>m \<in> set ms. payload m \<noteq> Done"
  shows "recv_multicast_messages deserialize listener (True # flags) (events @ Silence # rest) st =
      (case ofold listener ms st of
         Ok st' \<Rightarrow> recv_multicast_messages deserialize listener flags rest st'
       | Err e \<Rightarrow> Some (Err e)
       | Panic \<Rightarrow> Some Panic) \<and>
    recv_multicast_messages deserialize listener (True # flags) events st = None"
proof -
  have none: "\<not> (\<exists>m \<in> set ms. finished None m)" using assms(2) by (simp add: finished_def)
  have "takeWhile (\<lambda>m. \<not> finished None m) ms = ms" using none by (simp add: takeWhile_eq_all_conv)
  then have all: "answer None ms = ms" by (simp add: answer_def wanted_def)
  from recv_loop_stream [OF assms(1), of None _ "[]"] none
  have run: "recv_loop deserialize None (events @ rest') [] = recv_loop deserialize None rest' ms" for rest'
    by (simp add: all)
  from run [of "Silence # rest"] run [of "[]"] show ?thesis by (auto split: outcome.split)
qed

section \<open>A sample parser\<close>

text \<open>Length, sequence number and kind in one byte each.\<close>

definition sample_deserialize :: deserializer where
  "sample_deserialize buf =
     (case buf of
        l # n # k # _ \<Rightarrow>
          if 3 \<le> unat l \<and> unat l \<le> length buf
          then Inr \<lparr>nl_length = ucast l, nl_flags = 0, sequence_number = ucast n,
                    payload = (if k = 0 then Done else InnerMessage OtherRtnl)\<rparr>
          else Inl ''length''
      | _ \<Rightarrow> Inl ''short'')"

lemma unat_ucast_u32: "unat (ucast (l :: u8) :: u32) = unat l"
  by (simp add: unsigned_ucast_eq take_bit_eq_mod order_less_trans [OF unat_byte_less])

lemma sample_deserialize_ok: "deserialize_ok sample_deserialize"
  by (auto simp: deserialize_ok_def sample_deserialize_def word_less_nat_alt unat_ucast_u32 split: list.splits if_splits)

definition sample_netlink :: "u32 \<Rightarrow> NetlinkMessage" where
  "sample_netlink n = \<lparr>nl_length = 3, nl_flags = 0, sequence_number = n, payload = InnerMessage OtherRtnl\<rparr>"

lemma sample_stream: "stream_of sample_deserialize [sample_netlink 7, sample_netlink 8] [Datagram [3, 7, 1, 3, 8, 1]]"
proof -
  have "datagram_of sample_deserialize [sample_netlink 8] [3, 8, 1]"
    by (rule datagram_last) (simp_all add: sample_deserialize_def sample_netlink_def)
  then have "datagram_of sample_deserialize [sample_netlink 7, sample_netlink 8] [3, 7, 1, 3, 8, 1]"
    by (intro datagram_more [of _ _ "sample_netlink 7"]) (simp_all add: sample_deserialize_def sample_netlink_def)
  from stream_datagram [OF this _ stream_end] show ?thesis by simp
qed

theorem send_message_answer_witness:
  "\<exists>events'. send_message sample_deserialize (\<lambda>m buf. buf) (\<lambda>_. Inr ()) (sample_netlink 7)
     ([Datagram [3, 7, 1, 3, 8, 1]] @ [Silence]) = Some (Ok [sample_netlink 7], events')"
  using send_message_answer [OF sample_stream, of "\<lambda>_. Inr ()" "\<lambda>m buf. buf" "sample_netlink 7" "[]"]
  by (simp add: finished_def wanted_def sample_netlink_def)

theorem send_message_returns_witness:
  "\<exists>r events'. send_message sample_deserialize (\<lambda>m buf. buf) (\<lambda>_. Inr ()) (sample_netlink 7)
     ([Datagram [9, 7, 1], SocketError, Datagram []] @ [Silence]) = Some (r, events') \<and> r \<noteq> Panic"
  by (rule send_message_returns [OF sample_deserialize_ok]) simp

theorem recv_loop_stuck_witness:
  "recv_loop (\<lambda>_. Inr ((sample_netlink 7)\<lparr>nl_length := 0\<rparr>)) None [Datagram [0], Silence] [] = None"
  by (rule recv_loop_stuck [of _ _ "(sample_netlink 7)\<lparr>nl_length := 0\<rparr>"]) (simp_all add: sample_netlink_def)

theorem multicast_delivery_witness:
  "recv_multicast_messages sample_deserialize (\<lambda>m st. Ok (st @ [sequence_number m])) [True, False]
     ([Datagram [3, 7, 1, 3, 8, 1]] @ [Silence]) [] = Some (Ok [7, 8])"
proof -
  have "\<forall>m \<in> set [sample_netlink 7, sample_netlink 8]. payload m \<noteq> Done" by (simp add: sample_netlink_def)
  from multicast_delivery [OF sample_stream this, of "\<lambda>m st. Ok (st @ [sequence_number m])" "[False]" "[]" "[]"]
  show ?thesis by (simp add: sample_netlink_def)
qed

end
