(* ===== verification/Spec2Isabelle.thy ===== *)
theory Spec2Isabelle
  imports Router_Platform Interface_Stale Interface_Update_Test Protocol_Tests Netlink_Socket
begin

text \<open>
  A verification library for rusty-router, a router for Linux written in Rust.

  The program. \<open>src/rusty-router/src/main.rs\<close> configures a router, prints what links and interfaces
  there are and then answers OSPF packets on one interface. Its platform,
  \<open>src/rusty-router-platform-linux\<close>, keeps a database of links and interfaces that an interface manager
  fills from the kernel: a worker asks for everything every few seconds (a scan) and a listener
  handles the kernel's notifications in between; both work on one database under a lock and tell
  subscribers of changes. Beside it stands a poller that waits for packets on raw sockets and runs a
  listener for each. The packets' formats are in \<open>src/rusty-router-proto-*\<close>, the data that the parts
  exchange in \<open>src/rusty-router-model\<close>.

  Theories, in the order in which they build on each other:

  \<^item> \<open>Rust_Prelude\<close>: outcomes (\<open>Ok\<close>, \<open>Err\<close>, and \<open>Panic\<close> for an index or an arithmetic operation out of
    range), slices, checked arithmetic on words, byte orders, hash maps as association lists with an
    explicit order of iteration, and the locale \<open>machine\<close> of states and steps with an invariant.
  \<^item> \<open>Protocol_Common\<close> (\<open>proto-common/src\<close>): errors and the Internet checksum, for both byte orders;
    the locale \<open>wire_format\<close> of a serializer and its parser.
  \<^item> \<open>Ipv4_Packet\<close> (\<open>proto-ip/src/lib.rs\<close>), \<open>Ospf_Header\<close> and \<open>Ospf_Hello\<close> (\<open>proto-ospfv2/src\<close>):
    masks, flags, headers and packets with their builders, parsers and serializers.
  \<^item> \<open>Router_Config\<close> (\<open>model/src\<close>, \<open>common/src/error.rs\<close>): configuration, status, errors, and the
    registration manager.
  \<^item> \<open>Interface_Database\<close> (\<open>interface/model.rs\<close>, \<open>interface/database.rs\<close>): the two tables with three
    indexes each, and the locale \<open>item_store\<close> of what the manager relies on.
  \<^item> \<open>Netlink_Processor\<close> (\<open>netlink/processor.rs\<close>): what a kernel message reports.
  \<^item> \<open>Interface_Poll\<close> and \<open>Interface_Gather\<close> (\<open>interface/mod.rs\<close>, \<open>try_poll\<close>): a scan stage by stage, its
    reconciliation with the database inside \<open>item_store\<close>, and what a whole scan leaves.
  \<^item> \<open>Interface_Manager\<close> (\<open>interface/mod.rs\<close>): the listener, and the manager as a state machine.
  \<^item> \<open>Interface_Typing\<close>: how each stored identifier and status fit together and fit the configuration.
  \<^item> \<open>Interface_Scan\<close>: which interfaces a whole scan leaves, with which addresses.
  \<^item> \<open>Interface_Convergence\<close>: what time does to the database: a scan after the hold period, within it,
    and the notifications that it undoes or leaves unfinished. \<open>Interface_Counters\<close>: the numbers of the
    items do not run out.
  \<^item> \<open>Interface_Tasks\<close>: the worker's and the listener's tasks with the locks where the code takes them,
    as a step relation, and its refinement of the manager's state machine. \<open>Interface_Stale\<close>: in which
    order a subscriber can hear of a scan and of a notification handled before the scan is told.
  \<^item> \<open>Netlink_Socket\<close> (\<open>netlink/socket.rs\<close>): opening the sockets, the receive loops and the request.
  \<^item> \<open>Packet_Network\<close> (\<open>network.rs\<close>): sending, the listener of a socket, the poller, and the life of
    sockets, tickets and listeners as a state machine.
  \<^item> \<open>Router_Platform\<close> (\<open>lib.rs\<close> of the platform, \<open>main.rs\<close>): connecting, the program's start, what it
    prints, and the task that answers packets.
  \<^item> \<open>Interface_Tests\<close>, \<open>Interface_Update_Test\<close> and \<open>Protocol_Tests\<close>: the unit tests of the source, each a
    Boolean function of what the test leaves to chance, run on the model.

  What the lemmas show. The formats: parsers never panic and equal reference parsers on every byte
  string; builders and serializers round trip, with the exact cases in which the router's own parser
  refuses or changes what was written; the checksum is that of RFC 1071 exactly when its sum does not
  overflow. The database: its indexes agree with its items in every history, and each operation
  refines an operation on the bag of items. The manager: a scan leaves one link per reported
  device and per configured link and one interface per configured one with exactly the addresses
  given for its device, listings are ordered and free of duplicates in every reachable
  state, each stored item's identifier fits its status and the configuration, and each notification has a stated effect.
  Once what is stored is older than the hold period a scan makes the listings exactly what is
  reported and configured; within it a notified link stands, but a deletion does not, and a link that
  comes back leaves its interface behind until a scan. On a consistent database a scan and fewer than \<open>2 ^ 64\<close>
  notifications after it return without a panic. After the drop the tasks come to their end. The
  source's own unit tests, each transcribed, pass on the model: a lemma for each gives what it is free of,
  such as the orders of the hash maps, and what it asks of the clock. Sockets: every socket is open exactly
  while it is held, in every history, failing system calls included. The program: a connection
  binds the one device of the name, and each foreign packet is answered once with a packet that
  parses back and is not answered again.

  Representation. A \<open>Result\<close> or a panicking function is an \<open>outcome\<close>; \<open>u8\<close> to \<open>u128\<close> are words of their
  width; \<open>usize\<close> is a natural number; \<open>String\<close> is a list of its bytes; time is a number of
  nanoseconds. An order of iteration over a hash map is an \<open>order_choice\<close>, an argument, and the
  theorems hold for every choice. Clocks, random numbers, replies of the kernel and results of
  system calls are arguments as well, as are the wire parser of netlink-packet-core
  (in \<open>Netlink_Socket\<close>) and what a channel does with a message (\<open>try_send\<close>).

  Loops. Loops over data are folds or structural recursion; the loops over neighbors and over a
  checksum have a measure. The receive loops of \<open>Netlink_Socket\<close> may run forever and are partial
  functions into \<open>option\<close>: \<open>None\<close> is a call that does not return, and there are theorems on when it
  does. The listener's and the poller's loops recurse on what the system calls return; \<open>None\<close> means
  that they are still running when those are used up. There is no fuel.

  Interleaving. The steps of \<open>Interface_Manager\<close> are whole scans, notifications, subscriptions and the
  drop. In \<open>Interface_Tasks\<close> a scan takes the database lock only to commit and tells its subscribers
  after giving it back, the listener is at work before the first scan has ended, and a \<open>NewLink\<close>
  notification holds the lock throughout but takes the subscribers' lock twice. At rest its database is
  always one that the coarse steps reach; the order of what subscribers hear is not, and a theorem
  gives, from every reachable state with such a scan due, the run in which they hear the older status last. In \<open>Packet_Network\<close> the steps are finer
  too, since \<open>add_item\<close> awaits a lock between two of its effects; the number that it draws for a
  listener is taken to be new.

  Not modelled: logging, the text of addresses, serde and the asynchronous runtime, which are
  libraries; what system calls do beyond their results; and the unit tests that need a kernel or
  serde (\<open>test_poll\<close> of \<open>network.rs\<close>, \<open>test_default_socket\<close> of \<open>netlink/socket.rs\<close>, \<open>it_parses_config\<close> of
  \<open>config.rs\<close>). How \<open>sort_by\<close> arranges links is not determined by its contract for the order it is
  given, so \<open>print_links\<close> takes the arranged list.
  A future that is dropped while it waits is not modelled.
\<close>

end
